(* ===== verification/Prelude.thy ===== *)
theory Prelude
  imports Main "HOL-Library.Word"
begin

unbundle bit_operations_syntax

text \<open>
  Shared vocabulary of the development: the machine-integer types of the C sources, the
  conversions between \<open>char\<close>, \<open>int\<close> and \<open>uint8_t\<close>, the collections of simplification
  rules that carry the component proofs, and generic facts on lists and words.

  The data model is LP64 with a signed \<open>char\<close>: \<open>int\<close> has 32 bits, \<open>unsigned long\<close> and
  \<open>size_t\<close> have 64.
\<close>

named_theorems c_char "evaluation of character classification on concrete characters"
named_theorems c_flags "reading a flag bit after setting flag bits"

type_synonym u8 = "8 word"
type_synonym u16 = "16 word"
type_synonym u32 = "32 word"
type_synonym u64 = "64 word"
type_synonym s64 = "64 word"
type_synonym cint = "32 word"

subsection \<open>Characters as integers\<close>

text \<open>A plain \<open>char\<close> promoted to \<open>int\<close> (sign-extending), an \<open>unsigned char\<close> promoted to
  \<open>int\<close>, and an \<open>int\<close> stored into a \<open>char\<close>.\<close>

definition u8_of_char :: "char \<Rightarrow> u8" where
  "u8_of_char c = of_nat (of_char c)"

definition schar :: "char \<Rightarrow> cint" where
  "schar c = scast (u8_of_char c)"

definition uchar :: "char \<Rightarrow> cint" where
  "uchar c = ucast (u8_of_char c)"

definition char_of_u8 :: "u8 \<Rightarrow> char" where
  "char_of_u8 w = char_of (unat w)"

definition char_of_cint :: "cint \<Rightarrow> char" where
  "char_of_cint w = char_of_u8 (ucast w)"

lemma unat_u8_of_char [simp]: "unat (u8_of_char c) = of_char c"
  by (simp add: u8_of_char_def unat_of_nat take_bit_nat_eq_self)

lemma char_of_u8_of_char [simp]: "char_of_u8 (u8_of_char c) = c"
  by (simp add: char_of_u8_def)

lemma u8_of_char_of_u8 [simp]: "u8_of_char (char_of_u8 w) = w"
  by (rule word_unat_eq_iff [THEN iffD2])
     (use unsigned_less [of w, where 'a = nat] in \<open>simp add: char_of_u8_def take_bit_nat_eq_self\<close>)

lemma u8_of_char_inject [simp]: "u8_of_char c = u8_of_char d \<longleftrightarrow> c = d"
  by (metis char_of_u8_of_char)

lemma uint_u8_of_char [simp]: "uint (u8_of_char c) = int (of_char c)"
  by (metis of_nat_unat unat_u8_of_char)

lemma sint_u8:
  "sint (w :: u8) = (if uint w < 128 then uint w else uint w - 256)"
proof -
  have u: "uint w < 256" "0 \<le> uint w"
    using unsigned_less [of w, where 'a = int] by simp_all
  have s: "sint w = (uint w + 128) mod 256 - 128"
    using int_word_sint [of "uint w", where 'a = 8] by simp
  show ?thesis
  proof (cases "uint w < 128")
    case True
    with u s show ?thesis by simp
  next
    case False
    have "(uint w + 128) mod 256 = (uint w - 128) mod 256"
      using mod_add_self2 [of "uint w - 128" 256] by (simp add: add.commute)
    also have "\<dots> = uint w - 128"
      using u False by (intro mod_pos_pos_trivial) simp_all
    finally show ?thesis
      using s False by simp
  qed
qed

lemma sint_schar:
  "sint (schar c) = (if of_char c < (128::nat) then int (of_char c) else int (of_char c) - 256)"
proof -
  have "sint (schar c) = sint (u8_of_char c)"
    unfolding schar_def by (rule sint_up_scast) (simp add: is_up)
  then show ?thesis
    by (simp add: sint_u8)
qed

lemma sint_small:
  assumes "uint (w :: cint) < 2 ^ 31"
  shows "sint w = uint w"
proof -
  have "0 \<le> uint w" by simp
  with assms show ?thesis
    using int_word_sint [of "uint w", where 'a = 32] by simp
qed

lemma uint_ucast_u8_cint [simp]: "uint (ucast (w :: u8) :: cint) = uint w"
  using unsigned_less [of w, where 'a = int]
  by (simp add: unsigned_ucast_eq take_bit_int_eq_self)

lemma ucast_diff_u8: "(ucast (a - b :: cint) :: u8) = ucast a - ucast b"
  by (simp add: word_uint_eq_iff uint_word_ariths unsigned_ucast_eq take_bit_eq_mod mod_diff_eq mod_mod_cancel)

lemma char_of_mod_256: "char_of (n mod 256) = char_of (n :: nat)"
  by (simp add: char_of_eq_iff take_bit_eq_mod)

lemma char_of_cint_of_nat: "char_of_cint (of_nat n) = char_of n"
proof -
  have "unat (ucast (of_nat n :: cint) :: u8) = n mod 256"
    by (simp add: unsigned_ucast_eq unat_of_nat take_bit_eq_mod mod_mod_cancel)
  then show ?thesis
    by (simp add: char_of_cint_def char_of_u8_def char_of_mod_256)
qed

lemma of_char_less: "(of_char c :: nat) < 256"
  by simp

lemma char_in_set_iff: "c \<in> set cs \<longleftrightarrow> of_char c \<in> (of_char ` set cs :: nat set)"
  by (auto simp: of_char_eq_iff)

lemma sint_uchar: "sint (uchar c) = int (of_char c)"
proof -
  have "uint (uchar c) = int (of_char c)"
    by (simp add: uchar_def)
  moreover have "int (of_char c) < 2 ^ 31"
    by (rule order_less_trans [of _ 256]) simp_all
  ultimately show ?thesis
    by (simp only: sint_small)
qed

subsection \<open>Branch-free masks\<close>

text \<open>
  The constant-time code builds an all-ones or all-zeroes mask by shifting the sign of a small
  difference to the right by eight. These lemmas turn such a mask into an \<open>if\<close>.
\<close>

lemma sint_diff_small:
  fixes a b :: cint
  assumes "\<bar>sint a\<bar> < 2 ^ 30" and "\<bar>sint b\<bar> < 2 ^ 30"
  shows "sint (a - b) = sint a - sint b"
  using assms by (simp add: sint_word_ariths signed_take_bit_int_eq_self)

lemma drop_bit_8_sign:
  "- 256 \<le> x \<Longrightarrow> x < 256 \<Longrightarrow> drop_bit 8 x = (if x < 0 then - 1 else (0::int))"
  by (auto simp: drop_bit_eq_div)

lemma ct_mask_and:
  fixes a b :: cint
  assumes "- 256 \<le> sint a" and "sint a < 256" and "- 256 \<le> sint b" and "sint b < 256"
  shows "signed_drop_bit 8 (a AND b) = (if sint a < 0 \<and> sint b < 0 then - 1 else 0)"
proof (rule signed_word_eqI)
  have "sint (signed_drop_bit 8 (a AND b)) = drop_bit 8 (sint a) AND drop_bit 8 (sint b)"
    by (simp add: sint_signed_drop_bit_eq signed_and_eq)
  then show "sint (signed_drop_bit 8 (a AND b))
      = sint (if sint a < 0 \<and> sint b < 0 then - 1 else 0 :: cint)"
    using assms by (simp add: drop_bit_8_sign)
qed

lemma ct_mask:
  fixes a :: cint
  assumes "- 256 \<le> sint a" and "sint a < 256"
  shows "signed_drop_bit 8 a = (if sint a < 0 then - 1 else 0)"
  using ct_mask_and [OF assms assms] by simp

text \<open>\<open>(k - x) >> 8\<close> tests \<open>k < x\<close>, and the conjunction of two such differences tests
  membership in an interval.\<close>

lemma ct_mask_less:
  fixes k x :: cint
  assumes "0 \<le> sint k" and "sint k < 256" and "0 \<le> sint x" and "sint x < 256"
  shows "signed_drop_bit 8 (k - x) = (if sint k < sint x then - 1 else 0)"
proof -
  have "sint (k - x) = sint k - sint x"
    using assms by (intro sint_diff_small) simp_all
  with assms show ?thesis
    using ct_mask [of "k - x"] by simp
qed

lemma ct_mask_between:
  fixes lo hi c :: cint
  assumes "0 \<le> sint lo" and "sint lo < 128" and "0 \<le> sint hi" and "sint hi < 128"
    and "- 128 \<le> sint c" and "sint c < 256"
  shows "signed_drop_bit 8 ((lo - c) AND (c - hi)) = (if sint lo < sint c \<and> sint c < sint hi then - 1 else 0)"
proof -
  have "sint (lo - c) = sint lo - sint c" "sint (c - hi) = sint c - sint hi"
    using assms by (intro sint_diff_small; simp)+
  with assms show ?thesis
    using ct_mask_and [of "lo - c" "c - hi"] by simp
qed

text \<open>The sign bit, extracted by a logical shift of the unsigned view.\<close>

lemma drop_bit_31_sign:
  fixes a :: cint
  shows "drop_bit 31 a = (if sint a < 0 then 1 else 0)"
proof (rule bit_word_eqI)
  fix n
  assume "n < LENGTH(32)"
  have "bit a 31 \<longleftrightarrow> sint a < 0"
    using bit_last_iff [of a] by simp
  then show "bit (drop_bit 31 a) n = bit (if sint a < 0 then 1 else 0 :: cint) n"
    by (cases "n = 0") (auto simp: bit_drop_bit_eq bit_1_iff dest: bit_imp_le_length)
qed

lemma drop_bit_31_neq_0:
  fixes a :: cint
  shows "drop_bit 31 a \<noteq> 0 \<longleftrightarrow> sint a < 0"
  by (simp add: drop_bit_31_sign)

text \<open>An accumulator of error bits ends the comparison: \<open>1 & ((acc - 1) >> 8)\<close> is one exactly
  when no bit was set.\<close>

definition ct_is_zero :: "u8 \<Rightarrow> bool" where
  "ct_is_zero acc = ((1 AND signed_drop_bit 8 (ucast acc - 1 :: cint)) \<noteq> 0)"

lemma ct_is_zero_iff [simp]: "ct_is_zero acc \<longleftrightarrow> acc = 0"
proof -
  have r: "0 \<le> uint acc" "uint acc < 256"
    using unsigned_less [of acc, where 'a = int] by simp_all
  then have s: "sint (ucast acc :: cint) = uint acc"
    by (simp add: sint_small)
  then have d: "sint (ucast acc - 1 :: cint) = uint acc - 1"
    using r sint_diff_small [of "ucast acc" 1] by simp
  have z: "acc = 0 \<longleftrightarrow> uint acc = 0"
    by (simp add: uint_0_iff)
  have "- 256 \<le> sint (ucast acc - 1 :: cint)" "sint (ucast acc - 1 :: cint) < 256"
    unfolding d using r by linarith+
  from ct_mask [OF this]
  have "signed_drop_bit 8 (ucast acc - 1 :: cint) = (if uint acc - 1 < 0 then - 1 else 0)"
    unfolding d .
  also have "uint acc - 1 < 0 \<longleftrightarrow> acc = 0"
    using r z by linarith
  finally have "signed_drop_bit 8 (ucast acc - 1 :: cint) = (if acc = 0 then - 1 else 0)" .
  then show ?thesis
    by (simp add: ct_is_zero_def)
qed

end
