(* ===== verification/C_Library.thy ===== *)
theory C_Library
  imports Prelude "HOL-Library.Multiset"
begin

unbundle bit_operations_syntax

text \<open>
  The locale-independent character classes of \<open>src/tunnel/tools/amneziawg-tools/src/ctype.h\<close>, and
  what the sources use of the C library on strings and numbers. A C string is the list of its
  characters before the terminating NUL; a pointer into it is the suffix it points to, \<open>NULL\<close> is
  \<open>None\<close>.
\<close>

subsection \<open>ctype.h\<close>

definition char_is_space :: "cint \<Rightarrow> bool" where
  "char_is_space c =
     (let d = ucast (c - 9) :: u8
      in (drop_bit (unat (d AND 31)) 0x80001F AND drop_bit (unat (drop_bit 5 d)) 1 :: u32) \<noteq> 0)"

definition char_is_digit :: "cint \<Rightarrow> bool" where
  "char_is_digit c = (drop_bit 31 ((48 - 1 - c) AND (c - (57 + 1))) \<noteq> 0)"

definition char_is_alpha :: "cint \<Rightarrow> bool" where
  "char_is_alpha c = (drop_bit 31 ((97 - 1 - (c OR 32)) AND ((c OR 32) - (122 + 1))) \<noteq> 0)"

abbreviation isspace_char :: "char \<Rightarrow> bool" where
  "isspace_char c \<equiv> char_is_space (schar c)"

abbreviation isdigit_char :: "char \<Rightarrow> bool" where
  "isdigit_char c \<equiv> char_is_digit (schar c)"

subsection \<open>Strings\<close>

text \<open>The first character, the terminating NUL for the empty string.\<close>

definition first_char :: "string \<Rightarrow> cint" where
  "first_char s = (case s of [] \<Rightarrow> 0 | c # _ \<Rightarrow> schar c)"

definition tolower_char :: "char \<Rightarrow> char" where
  "tolower_char c = (let n = of_char c :: nat in if 65 \<le> n \<and> n \<le> 90 then char_of (n + 32) else c)"

definition strcasecmp_eq :: "string \<Rightarrow> string \<Rightarrow> bool" where
  "strcasecmp_eq a b = (map tolower_char a = map tolower_char b)"

definition strncasecmp_eq :: "string \<Rightarrow> string \<Rightarrow> nat \<Rightarrow> bool" where
  "strncasecmp_eq a b n = (map tolower_char (take n a) = map tolower_char (take n b))"

definition strchr :: "string \<Rightarrow> char \<Rightarrow> string option" where
  "strchr s c = (case dropWhile (\<lambda>x. x \<noteq> c) s of [] \<Rightarrow> None | r \<Rightarrow> Some r)"

text \<open>\<open>strrchr\<close>: what stands before the last occurrence, and the suffix from it.\<close>

fun strrchr :: "string \<Rightarrow> char \<Rightarrow> (string \<times> string) option" where
  "strrchr [] c = None"
| "strrchr (x # xs) c =
     (case strrchr xs c of
        Some (pre, suf) \<Rightarrow> Some (x # pre, suf)
      | None \<Rightarrow> (if x = c then Some ([], x # xs) else None))"

text \<open>\<open>strsep\<close> on a non-null string and one separator: the token and the rest, \<open>None\<close> once the
  last token is taken.\<close>

definition strsep :: "string \<Rightarrow> char \<Rightarrow> string \<times> string option" where
  "strsep s c =
     (takeWhile (\<lambda>x. x \<noteq> c) s,
      case dropWhile (\<lambda>x. x \<noteq> c) s of [] \<Rightarrow> None | _ # r \<Rightarrow> Some r)"

subsection \<open>Numbers\<close>

definition digit_value :: "nat \<Rightarrow> char \<Rightarrow> nat option" where
  "digit_value base c =
     (let n = of_char c :: nat;
          v = (if 48 \<le> n \<and> n \<le> 57 then n - 48
               else if 65 \<le> n \<and> n \<le> 90 then n - 55
               else if 97 \<le> n \<and> n \<le> 122 then n - 87
               else 36)
      in if v < base then Some v else None)"

fun read_digits :: "nat \<Rightarrow> nat \<Rightarrow> string \<Rightarrow> nat \<times> string" where
  "read_digits base acc [] = (acc, [])"
| "read_digits base acc (c # cs) =
     (case digit_value base c of
        None \<Rightarrow> (acc, c # cs)
      | Some d \<Rightarrow> read_digits base (acc * base + d) cs)"

text \<open>The subject sequence \<open>strtoul\<close> and its kin agree on: white space, a sign, in base 16 an
  optional \<open>0x\<close>, then digits. \<open>None\<close> when there is no digit. Otherwise the sign, the magnitude and
  the rest.\<close>

definition scan_number :: "nat \<Rightarrow> string \<Rightarrow> (bool \<times> nat \<times> string) option" where
  "scan_number base s =
     (let s1 = dropWhile isspace_char s;
          (neg, s2) = (case s1 of
              [] \<Rightarrow> (False, [])
            | c # r \<Rightarrow> if c = CHR ''-'' then (True, r) else if c = CHR ''+'' then (False, r) else (False, s1));
          s3 = (case s2 of
              a # x # d # r \<Rightarrow>
                if base = 16 \<and> a = CHR ''0'' \<and> (x = CHR ''x'' \<or> x = CHR ''X'') \<and> digit_value 16 d \<noteq> None
                then d # r else s2
            | _ \<Rightarrow> s2)
      in case s3 of
           [] \<Rightarrow> None
         | c # _ \<Rightarrow> if digit_value base c = None then None
                     else let (n, r) = read_digits base 0 s3 in Some (neg, n, r))"

text \<open>\<open>unsigned long\<close> and \<open>unsigned long long\<close> have 64 bits. A magnitude out of range gives the
  maximum, a minus sign negates in the unsigned type, no digits give 0 and leave the input.\<close>

definition strtoul :: "nat \<Rightarrow> string \<Rightarrow> u64 \<times> string" where
  "strtoul base s =
     (case scan_number base s of
        None \<Rightarrow> (0, s)
      | Some (neg, n, r) \<Rightarrow> ((if n \<ge> 2 ^ 64 then - 1 else if neg then - of_nat n else of_nat n), r))"

definition strtoll :: "nat \<Rightarrow> string \<Rightarrow> int \<times> string" where
  "strtoll base s =
     (case scan_number base s of
        None \<Rightarrow> (0, s)
      | Some (neg, n, r) \<Rightarrow> (max (- (2 ^ 63)) (min (2 ^ 63 - 1) (if neg then - int n else int n)), r))"

text \<open>The conversions \<open>%u\<close> (and \<open>%d\<close> of a non-negative value) and \<open>%x\<close>.\<close>

definition digit_char :: "nat \<Rightarrow> char" where
  "digit_char n = char_of (if n < 10 then n + 48 else n + 87)"

fun show_base :: "nat \<Rightarrow> nat \<Rightarrow> string" where
  "show_base base n =
     (if base < 2 \<or> n < base then [digit_char n] else show_base base (n div base) @ [digit_char (n mod base)])"

declare show_base.simps [simp del]

abbreviation show_dec :: "nat \<Rightarrow> string" where
  "show_dec \<equiv> show_base 10"

abbreviation show_hex :: "nat \<Rightarrow> string" where
  "show_hex \<equiv> show_base 16"

subsection \<open>Memory comparison and sorting\<close>

text \<open>\<open>memcmp\<close> compares bytes as unsigned numbers and the first difference decides; only the sign of
  its result is specified.\<close>

fun bytes_cmp :: "u8 list \<Rightarrow> u8 list \<Rightarrow> int" where
  "bytes_cmp [] [] = 0"
| "bytes_cmp [] (y # ys) = - 1"
| "bytes_cmp (x # xs) [] = 1"
| "bytes_cmp (x # xs) (y # ys) = (if x = y then bytes_cmp xs ys else if x < y then - 1 else 1)"

definition memcmp :: "u8 list \<Rightarrow> u8 list \<Rightarrow> nat \<Rightarrow> int" where
  "memcmp a b n = bytes_cmp (take n a) (take n b)"

text \<open>\<open>qsort\<close> with a comparison function.\<close>

fun insert_cmp :: "('a \<Rightarrow> 'a \<Rightarrow> int) \<Rightarrow> 'a \<Rightarrow> 'a list \<Rightarrow> 'a list" where
  "insert_cmp cmp x [] = [x]"
| "insert_cmp cmp x (y # ys) = (if cmp x y \<le> 0 then x # y # ys else y # insert_cmp cmp x ys)"

definition qsort :: "('a \<Rightarrow> 'a \<Rightarrow> int) \<Rightarrow> 'a list \<Rightarrow> 'a list" where
  "qsort cmp xs = foldr (insert_cmp cmp) xs []"

subsection \<open>What the character classes compute\<close>

lemma drop_bit_one_u32: "drop_bit k (1::u32) = (if k = 0 then 1 else 0)"
  by (cases k) (simp_all add: drop_bit_Suc)

lemma u8_drop_5: "unat (drop_bit 5 (d::u8)) = 0 \<longleftrightarrow> unat d < 32"
  by (simp only: unat_drop_bit_eq) (simp add: drop_bit_eq_div div_eq_0_iff)

lemma bit_space_mask: "n < 32 \<Longrightarrow> bit (0x80001F :: u32) n \<longleftrightarrow> n \<in> {0, 1, 2, 3, 4, 23}"
proof -
  have "\<forall>n\<in>set [0..<32]. bit (0x80001F :: int) n \<longleftrightarrow> n \<in> {0, 1, 2, 3, 4, 23}"
    by code_simp
  moreover assume "n < 32"
  ultimately show ?thesis
    by (simp add: bit_numeral_word_iff)
qed

lemma char_is_space_u8:
  fixes d :: u8
  shows "(drop_bit (unat (d AND 31)) 0x80001F AND drop_bit (unat (drop_bit 5 d)) 1 :: u32) \<noteq> 0
    \<longleftrightarrow> d \<in> {0, 1, 2, 3, 4, 23}"
proof (cases "unat d < 32")
  case True
  have "d AND 31 = take_bit 5 d"
    by (simp add: take_bit_eq_mask mask_numeral)
  then have a: "unat (d AND 31) = unat d"
    using True by (simp add: unsigned_take_bit_eq take_bit_nat_eq_self)
  have "unat d \<in> {0, 1, 2, 3, 4, 23} \<longleftrightarrow> d \<in> {0, 1, 2, 3, 4, 23}"
    by (simp add: word_unat_eq_iff)
  then show ?thesis
    unfolding a using True bit_space_mask [OF True] u8_drop_5 [of d]
    by (simp add: drop_bit_one_u32 and_one_eq bit_iff_odd_drop_bit odd_iff_mod_2_eq_one del: insert_iff)
next
  case False
  then have "d \<notin> {0, 1, 2, 3, 4, 23}"
    by auto
  then show ?thesis
    using False u8_drop_5 [of d] by (simp add: drop_bit_one_u32)
qed

lemma ucast_scast_u8 [simp]: "ucast (scast (w :: u8) :: cint) = w"
  by (rule bit_word_eqI) (simp add: bit_simps)

lemma u8_of_char_eq_iff: "u8_of_char c = w \<longleftrightarrow> c = char_of_u8 w"
  by auto

lemma isspace_char_iff [c_char]:
  "isspace_char c \<longleftrightarrow> c \<in> {CHR 0x09, CHR 0x0A, CHR 0x0B, CHR 0x0C, CHR 0x0D, CHR '' ''}"
proof -
  have e: "ucast (schar c - 9 :: cint) = u8_of_char c - 9"
    by (simp add: schar_def ucast_diff_u8)
  have c: "map char_of_u8 [9, 10, 11, 12, 13, 32] = [CHR 0x09, CHR 0x0A, CHR 0x0B, CHR 0x0C, CHR 0x0D, CHR '' '']"
    by code_simp
  show ?thesis 
    unfolding char_is_space_def Let_def e char_is_space_u8 using c
    by (simp add: diff_eq_eq u8_of_char_eq_iff)
qed

lemma sign_between:
  fixes lo hi c :: cint
  assumes "0 \<le> sint lo" and "sint lo < 256" and "0 \<le> sint hi" and "sint hi < 256"
    and "- 128 \<le> sint c" and "sint c < 256"
  shows "drop_bit 31 ((lo - c) AND (c - hi)) \<noteq> 0 \<longleftrightarrow> sint lo < sint c \<and> sint c < sint hi"
proof -
  have "sint (lo - c) = sint lo - sint c" "sint (c - hi) = sint c - sint hi"
    using assms by (intro sint_diff_small; simp)+
  then show ?thesis
    by (simp only: drop_bit_31_neq_0 signed_and_eq and_negative_int_iff) linarith
qed

lemma schar_range: "- 128 \<le> sint (schar c)" "sint (schar c) < 128"
  using of_char_less [of c] by (simp_all only: sint_schar split: if_split) linarith+

lemma isdigit_char_iff: "isdigit_char c \<longleftrightarrow> 48 \<le> (of_char c :: nat) \<and> of_char c \<le> (57 :: nat)"
proof -
  have "isdigit_char c \<longleftrightarrow> 47 < sint (schar c) \<and> sint (schar c) < 58"
    using sign_between [of 47 58 "schar c"] schar_range [of c] by (simp add: char_is_digit_def)
  then show ?thesis
    using of_char_less [of c] by (simp only: sint_schar split: if_split) linarith
qed

lemma or_range:
  assumes "n < (128 :: nat)"
  shows "n OR 32 < 128" "96 < n OR 32 \<and> n OR 32 < 123 \<longleftrightarrow> 65 \<le> n \<and> n \<le> 90 \<or> 97 \<le> n \<and> n \<le> 122"
proof -
  have o: "n OR 32 = n + (if even (n div 32) then 32 else 0)"
    using set_bit_eq [of 5 n] by (simp add: set_bit_eq_or push_bit_of_1 bit_iff_odd)
  have "n div 32 = 0 \<or> n div 32 = 1 \<or> n div 32 = 2 \<or> n div 32 = 3"
    using assms by linarith
  then show "n OR 32 < 128" "96 < n OR 32 \<and> n OR 32 < 123 \<longleftrightarrow> 65 \<le> n \<and> n \<le> 90 \<or> 97 \<le> n \<and> n \<le> 122"
    unfolding o by (elim disjE; simp; linarith)+
qed

lemma isdigit_first_char: "char_is_digit (first_char s) \<longleftrightarrow> s \<noteq> [] \<and> isdigit_char (hd s)"
proof -
  have "\<not> char_is_digit 0"
    using sign_between [of 47 58 0] by (simp add: char_is_digit_def)
  then show ?thesis
    by (simp add: first_char_def split: list.split)
qed

lemma char_is_alpha_iff:
  "char_is_alpha (schar c) \<longleftrightarrow> (let n = of_char c :: nat in 65 \<le> n \<and> n \<le> 90 \<or> 97 \<le> n \<and> n \<le> 122)"
proof (cases "of_char c < (128::nat)")
  case True
  have "sint (schar c OR 32) = int (of_char c) OR int 32"
    using True by (simp add: signed_or_eq sint_schar)
  then have s: "sint (schar c OR 32) = int (of_char c OR 32)"
    by (simp only: of_nat_or_eq)
  have "char_is_alpha (schar c) \<longleftrightarrow> 96 < of_char c OR (32::nat) \<and> of_char c OR 32 < (123::nat)"
    using sign_between [of 96 123 "schar c OR 32"] or_range(1) [OF True] s
    by (simp add: char_is_alpha_def del: of_nat_or_eq)
  then show ?thesis
    using or_range(2) [OF True] by (simp add: Let_def)
next
  case False
  have n: "sint (schar c) < 0" "- 128 \<le> sint (schar c)"
    using False of_char_less [of c] by (simp_all only: sint_schar if_False)
  have s: "sint (schar c OR 32) = sint (schar c) OR 32"
    by (simp add: signed_or_eq)
  have "sint (schar c) OR 32 < 0" "- 128 \<le> sint (schar c) OR 32"
    using n or_greater_eq [of 32 "sint (schar c)"] by simp_all
  then obtain z where "sint (schar c OR 32) = z" "z < 0" "- 128 \<le> z"
    using s by blast
  then have "\<not> drop_bit 31 ((96 - (schar c OR 32)) AND ((schar c OR 32) - 123)) \<noteq> 0"
    by (subst sign_between) simp_all
  then show ?thesis
    using False by (simp add: char_is_alpha_def Let_def)
qed

lemma tolower_char_simps [simp]:
  "tolower_char CHR ''A'' = CHR ''a''" "tolower_char CHR ''B'' = CHR ''b''" "tolower_char CHR ''C'' = CHR ''c''"
  "tolower_char CHR ''D'' = CHR ''d''" "tolower_char CHR ''E'' = CHR ''e''" "tolower_char CHR ''F'' = CHR ''f''"
  "tolower_char CHR ''G'' = CHR ''g''" "tolower_char CHR ''H'' = CHR ''h''" "tolower_char CHR ''I'' = CHR ''i''"
  "tolower_char CHR ''J'' = CHR ''j''" "tolower_char CHR ''K'' = CHR ''k''" "tolower_char CHR ''L'' = CHR ''l''"
  "tolower_char CHR ''M'' = CHR ''m''" "tolower_char CHR ''N'' = CHR ''n''" "tolower_char CHR ''O'' = CHR ''o''"
  "tolower_char CHR ''P'' = CHR ''p''" "tolower_char CHR ''Q'' = CHR ''q''" "tolower_char CHR ''R'' = CHR ''r''"
  "tolower_char CHR ''S'' = CHR ''s''" "tolower_char CHR ''T'' = CHR ''t''" "tolower_char CHR ''U'' = CHR ''u''"
  "tolower_char CHR ''V'' = CHR ''v''" "tolower_char CHR ''W'' = CHR ''w''" "tolower_char CHR ''X'' = CHR ''x''"
  "tolower_char CHR ''Y'' = CHR ''y''" "tolower_char CHR ''Z'' = CHR ''z''" "tolower_char CHR ''a'' = CHR ''a''"
  "tolower_char CHR ''b'' = CHR ''b''" "tolower_char CHR ''c'' = CHR ''c''" "tolower_char CHR ''d'' = CHR ''d''"
  "tolower_char CHR ''e'' = CHR ''e''" "tolower_char CHR ''f'' = CHR ''f''" "tolower_char CHR ''g'' = CHR ''g''"
  "tolower_char CHR ''h'' = CHR ''h''" "tolower_char CHR ''i'' = CHR ''i''" "tolower_char CHR ''j'' = CHR ''j''"
  "tolower_char CHR ''k'' = CHR ''k''" "tolower_char CHR ''l'' = CHR ''l''" "tolower_char CHR ''m'' = CHR ''m''"
  "tolower_char CHR ''n'' = CHR ''n''" "tolower_char CHR ''o'' = CHR ''o''" "tolower_char CHR ''p'' = CHR ''p''"
  "tolower_char CHR ''q'' = CHR ''q''" "tolower_char CHR ''r'' = CHR ''r''" "tolower_char CHR ''s'' = CHR ''s''"
  "tolower_char CHR ''t'' = CHR ''t''" "tolower_char CHR ''u'' = CHR ''u''" "tolower_char CHR ''v'' = CHR ''v''"
  "tolower_char CHR ''w'' = CHR ''w''" "tolower_char CHR ''x'' = CHR ''x''" "tolower_char CHR ''y'' = CHR ''y''"
  "tolower_char CHR ''z'' = CHR ''z''" "tolower_char CHR ''0'' = CHR ''0''" "tolower_char CHR ''1'' = CHR ''1''"
  "tolower_char CHR ''2'' = CHR ''2''" "tolower_char CHR ''3'' = CHR ''3''" "tolower_char CHR ''4'' = CHR ''4''"
  "tolower_char CHR ''5'' = CHR ''5''" "tolower_char CHR ''6'' = CHR ''6''" "tolower_char CHR ''7'' = CHR ''7''"
  "tolower_char CHR ''8'' = CHR ''8''" "tolower_char CHR ''9'' = CHR ''9''" "tolower_char CHR ''='' = CHR ''=''"
  "tolower_char CHR ''['' = CHR ''[''" "tolower_char CHR '']'' = CHR '']''" "tolower_char CHR ''#'' = CHR ''#''"
  "tolower_char CHR ''-'' = CHR ''-''" "tolower_char CHR ''_'' = CHR ''_''" "tolower_char CHR ''/'' = CHR ''/''"
  "tolower_char CHR '':'' = CHR '':''" "tolower_char CHR '','' = CHR '',''" "tolower_char CHR ''.'' = CHR ''.''"
  "tolower_char CHR ''+'' = CHR ''+''" "tolower_char CHR '' '' = CHR '' ''"
  by code_simp+

lemma strcasecmp_eq_refl [simp]: "strcasecmp_eq s s" "strncasecmp_eq s s n"
  by (simp_all add: strcasecmp_eq_def strncasecmp_eq_def)

subsection \<open>Printing and reading numbers\<close>

lemma char_is_space_class: "isspace_char c \<longleftrightarrow> of_char c \<in> {9, 10, 11, 12, 13, 32 :: nat}"
proof -
  have "(of_char ` set [CHR 0x09, CHR 0x0A, CHR 0x0B, CHR 0x0C, CHR 0x0D, CHR '' ''] :: nat set)
      = set [9, 10, 11, 12, 13, 32]"
    by code_simp
  moreover have "isspace_char c \<longleftrightarrow> c \<in> set [CHR 0x09, CHR 0x0A, CHR 0x0B, CHR 0x0C, CHR 0x0D, CHR '' '']"
    by (simp only: isspace_char_iff list.set)
  ultimately show ?thesis
    by (simp only: char_in_set_iff) (simp only: list.set)
qed

lemma of_char_digit_char: "d < 36 \<Longrightarrow> of_char (digit_char d) = (if d < 10 then d + 48 else d + 87)"
  by (simp add: digit_char_def of_char_of take_bit_eq_mod)

lemma digit_value_digit_char [simp]: "d < base \<Longrightarrow> base \<le> 36 \<Longrightarrow> digit_value base (digit_char d) = Some d"
  by (auto simp add: digit_value_def of_char_digit_char Let_def)

lemma isdigit_digit_char [simp]: "d < 10 \<Longrightarrow> isdigit_char (digit_char d)"
  by (simp add: isdigit_char_iff of_char_digit_char)

lemma digit_value_10: "digit_value 10 c \<noteq> None \<longleftrightarrow> isdigit_char c"
  by (auto simp: digit_value_def isdigit_char_iff Let_def)

lemma show_base_not_Nil [simp]: "show_base b n \<noteq> []"
  by (subst show_base.simps) simp

lemma set_show_base: "2 \<le> b \<Longrightarrow> set (show_base b n) \<subseteq> digit_char ` {..<b}"
proof (induction b n rule: show_base.induct)
  case (1 b n)
  then show ?case
    by (subst show_base.simps) (auto simp: not_less)
qed

lemma show_dec_digits: "c \<in> set (show_dec n) \<Longrightarrow> isdigit_char c"
  using set_show_base [of 10 n] by auto

text \<open>A digit is no white space, no sign and no separator.\<close>

definition word_char :: "char \<Rightarrow> bool" where
  "word_char c = (let n = of_char c :: nat in 48 \<le> n \<and> n \<le> 57 \<or> 65 \<le> n \<and> n \<le> 90 \<or> 97 \<le> n \<and> n \<le> 122)"

lemma digit_value_word_char: "digit_value b c \<noteq> None \<Longrightarrow> b \<le> 36 \<Longrightarrow> word_char c"
  by (auto simp: digit_value_def word_char_def Let_def split: if_splits)

lemma word_char_not_space: "word_char c \<Longrightarrow> \<not> isspace_char c"
  by (auto simp: char_is_space_class word_char_def Let_def)

lemma word_char_neq: "word_char c \<Longrightarrow> c \<noteq> CHR ''-'' \<and> c \<noteq> CHR ''+'' \<and> c \<noteq> CHR '','' \<and> c \<noteq> CHR ''/'' 
   \<and> c \<noteq> CHR '':'' \<and> c \<noteq> CHR ''='' \<and> c \<noteq> CHR ''['' \<and> c \<noteq> CHR '']'' \<and> c \<noteq> CHR ''#'' \<and> c \<noteq> CHR 0x0A \<and> c \<noteq> CHR 0x00"
  by (auto simp: word_char_def)

lemma show_base_word_char: "2 \<le> b \<Longrightarrow> b \<le> 36 \<Longrightarrow> c \<in> set (show_base b n) \<Longrightarrow> word_char c"
  using set_show_base [of b n] digit_value_word_char [of b c] by fastforce

lemma read_digits_show:
  assumes "2 \<le> base" and "base \<le> 36"
  shows "\<exists>m. \<forall>acc r. read_digits base acc (show_base base n @ r) = read_digits base (acc * m + n) r"
  using assms
proof (induction base n rule: show_base.induct)
  case (1 base n)
  show ?case
  proof (cases "n < base")
    case True
    then have "read_digits base acc (show_base base n @ r) = read_digits base (acc * base + n) r" for acc r
      using 1 by (subst show_base.simps) simp
    then show ?thesis by blast
  next
    case False
    with 1 obtain m where m: "\<And>acc r. read_digits base acc (show_base base (n div base) @ r)
        = read_digits base (acc * m + n div base) r"
      by (meson not_less)
    have "read_digits base acc (show_base base n @ r) = read_digits base (acc * (m * base) + n) r" for acc r
      using False 1(2,3) by (subst show_base.simps) (simp add: m algebra_simps)
    then show ?thesis by blast
  qed
qed

lemma read_digits_show_base:
  assumes "2 \<le> base" and "base \<le> 36" and "r = [] \<or> digit_value base (hd r) = None"
  shows "read_digits base 0 (show_base base n @ r) = (n, r)"
proof -
  obtain m where "read_digits base 0 (show_base base n @ r) = read_digits base (0 * m + n) r"
    using read_digits_show [OF assms(1,2)] by blast
  also have "\<dots> = (n, r)"
    using assms(3) by (cases r) auto
  finally show ?thesis .
qed

lemma scan_number_dec:
  assumes "s \<noteq> []" and "isdigit_char (hd s)"
  shows "scan_number 10 s = (let (n, r) = read_digits 10 0 s in Some (False, n, r))"
proof -
  obtain c cs where s: "s = c # cs"
    using assms(1) by (cases s) auto
  have d: "digit_value 10 c \<noteq> None"
    using assms(2) s digit_value_10 [of c] by simp
  then have "word_char c"
    using digit_value_word_char [of 10 c] by simp
  then have "\<not> isspace_char c" "c \<noteq> CHR ''-''" "c \<noteq> CHR ''+''"
    using word_char_not_space word_char_neq by blast+
  with d show ?thesis
    unfolding scan_number_def Let_def s by (auto split: list.splits)
qed

lemma strtoul_dec:
  assumes "s \<noteq> []" and "isdigit_char (hd s)"
  shows "strtoul 10 s = (let (n, r) = read_digits 10 0 s in (if n \<ge> 2 ^ 64 then - 1 else of_nat n, r))"
  unfolding strtoul_def scan_number_dec [OF assms] by (simp add: Let_def split: prod.split)

lemma hd_show_dec: "isdigit_char (hd (show_dec n @ r))"
  using show_dec_digits [of "hd (show_dec n)" n] by simp

lemma strtoul_show_dec:
  assumes "n < 2 ^ 64" and "r = [] \<or> \<not> isdigit_char (hd r)"
  shows "strtoul 10 (show_dec n @ r) = (of_nat n, r)"
proof -
  have "r = [] \<or> digit_value 10 (hd r) = None"
    using assms(2) digit_value_10 by blast
  then have "read_digits 10 0 (show_dec n @ r) = (n, r)"
    by (intro read_digits_show_base) simp_all
  then show ?thesis
    using assms(1) strtoul_dec [of "show_dec n @ r"] hd_show_dec [of n r] by simp
qed

lemma strtoul_hex_prefixed:
  assumes "n < 2 ^ 64"
  shows "strtoul 16 (CHR ''0'' # CHR ''x'' # show_hex n) = (of_nat n, [])"
proof -
  obtain d ds where s: "show_hex n = d # ds"
    using show_base_not_Nil [of 16 n] by (cases "show_hex n") auto
  have d: "digit_value 16 d \<noteq> None"
    using set_show_base [of 16 n] s by auto
  have r: "read_digits 16 0 (d # ds) = (n, [])"
    using read_digits_show_base [of 16 "[]" n] s by simp
  have z: "\<not> isspace_char (CHR ''0'')"
    by (simp add: isspace_char_iff)
  have "scan_number 16 (CHR ''0'' # CHR ''x'' # d # ds) = Some (False, n, [])"
    unfolding scan_number_def Let_def using d r z by (simp del: read_digits.simps)
  with assms show ?thesis
    by (simp add: strtoul_def s)
qed

lemma strsep_rest_less: "strsep s c = (tok, Some rest) \<Longrightarrow> length rest < length s"
  using length_dropWhile_le [of "\<lambda>x. x \<noteq> c" s] by (auto simp: strsep_def split: list.splits)

lemma strsep_append:
  assumes "c \<notin> set a"
  shows "strsep a c = (a, None)" "strsep (a @ c # b) c = (a, Some b)"
proof -
  have "dropWhile (\<lambda>x. x \<noteq> c) a = []" "takeWhile (\<lambda>x. x \<noteq> c) a = a"
    using assms by (auto simp: dropWhile_eq_Nil_conv takeWhile_eq_all_conv)
  then show "strsep a c = (a, None)"
    by (simp only: strsep_def list.case)
  show "strsep (a @ c # b) c = (a, Some b)"
    using assms by (induction a) (auto simp: strsep_def)
qed

subsection \<open>Sorting\<close>

lemma bytes_cmp_swap: "bytes_cmp b a = - bytes_cmp a b"
  by (induction a b rule: bytes_cmp.induct) auto

lemma bytes_cmp_eq_0 [simp]: "bytes_cmp a b = 0 \<longleftrightarrow> a = b"
  by (induction a b rule: bytes_cmp.induct) auto

lemma bytes_cmp_trans: "bytes_cmp a b \<le> 0 \<Longrightarrow> bytes_cmp b c \<le> 0 \<Longrightarrow> bytes_cmp a c \<le> 0"
proof (induction a b arbitrary: c rule: bytes_cmp.induct)
  case (4 x xs y ys)
  then show ?case
    by (cases c) (auto split: if_splits)
next
  case (1 c)
  then show ?case
    by (cases c) auto
next
  case (2 y ys c)
  then show ?case
    by (cases c) auto
qed auto

lemma memcmp_swap: "memcmp b a n = - memcmp a b n"
  by (simp add: memcmp_def bytes_cmp_swap [of "take n b"])

lemma memcmp_trans: "memcmp a b n \<le> 0 \<Longrightarrow> memcmp b c n \<le> 0 \<Longrightarrow> memcmp a c n \<le> 0"
  unfolding memcmp_def by (rule bytes_cmp_trans)

lemma memcmp_cong: "memcmp a b n = 0 \<Longrightarrow> memcmp a c n = memcmp b c n"
  by (simp add: memcmp_def)

lemma memcmp_eq_0: "memcmp a b n = 0 \<longleftrightarrow> take n a = take n b"
  by (simp add: memcmp_def)

lemma mset_qsort [simp]: "mset (qsort cmp xs) = mset xs"
proof -
  have "mset (insert_cmp cmp x ys) = add_mset x (mset ys)" for x ys
    by (induction ys) auto
  then show ?thesis
    by (induction xs) (simp_all add: qsort_def)
qed

lemma set_qsort [simp]: "set (qsort cmp xs) = set xs"
  by (metis mset_qsort set_mset_mset)

text \<open>What a caller of \<open>qsort\<close> has to provide for the result to be in order.\<close>

locale qsort_order =
  fixes cmp :: "'a \<Rightarrow> 'a \<Rightarrow> int" and A :: "'a set"
  assumes cmp_total: "a \<in> A \<Longrightarrow> b \<in> A \<Longrightarrow> cmp a b \<le> 0 \<or> cmp b a \<le> 0"
    and cmp_trans: "a \<in> A \<Longrightarrow> b \<in> A \<Longrightarrow> c \<in> A \<Longrightarrow> cmp a b \<le> 0 \<Longrightarrow> cmp b c \<le> 0 \<Longrightarrow> cmp a c \<le> 0"
begin

lemma sorted_insert:
  assumes "x \<in> A" and "set xs \<subseteq> A" and "sorted_wrt (\<lambda>a b. cmp a b \<le> 0) xs"
  shows "sorted_wrt (\<lambda>a b. cmp a b \<le> 0) (insert_cmp cmp x xs)"
  using assms(2,3)
proof (induction xs)
  case (Cons y ys)
  have "set (insert_cmp cmp x ys) = insert x (set ys)" for ys
    by (induction ys) auto
  then show ?case
    using Cons assms(1) cmp_total [of x y] by (auto intro: cmp_trans [of x y])
qed simp

lemma sorted_qsort:
  assumes "set xs \<subseteq> A"
  shows "sorted_wrt (\<lambda>a b. cmp a b \<le> 0) (qsort cmp xs)"
  using assms
proof (induction xs)
  case (Cons x xs)
  have "qsort cmp (x # xs) = insert_cmp cmp x (qsort cmp xs)"
    by (simp add: qsort_def)
  then show ?case
    using Cons sorted_insert [of x "qsort cmp xs"] by simp
qed (simp add: qsort_def)

end

subsection \<open>Decimal values\<close>

definition dec_value :: "string \<Rightarrow> nat" where
  "dec_value s = foldl (\<lambda>n c. n * 10 + (of_char c - 48)) 0 s"

lemma digit_value_10_eq: "digit_value 10 c = (if isdigit_char c then Some (of_char c - 48) else None)"
  by (auto simp: digit_value_def isdigit_char_iff Let_def)

lemma read_digits_10:
  "read_digits 10 n s = (foldl (\<lambda>n c. n * 10 + (of_char c - 48)) n (takeWhile isdigit_char s), dropWhile isdigit_char s)"
  by (induction s arbitrary: n) (simp_all add: digit_value_10_eq)

definition u64_sat :: "nat \<Rightarrow> u64" where
  "u64_sat n = (if n \<ge> 2 ^ 64 then - 1 else of_nat n)"

lemma unat_u64_sat: "unat (u64_sat n) = min n (2 ^ 64 - 1)"
proof -
  have "unat (- 1 :: u64) = 2 ^ 64 - 1"
    by (simp add: unsigned_minus_1_eq_mask mask_eq_exp_minus_1)
  then show ?thesis
    by (auto simp: u64_sat_def unat_of_nat take_bit_nat_eq_self min_def)
qed

lemma ucast_of_nat_u64 [simp]:
  "ucast (of_nat n :: u64) = (of_nat n :: u8)" "ucast (of_nat n :: u64) = (of_nat n :: u16)"
  "ucast (of_nat n :: u64) = (of_nat n :: u32)" "ucast (of_nat n :: u32) = (of_nat n :: u16)"
  by (transfer; simp)+

lemma u64_sat_gt: "m < 2 ^ 64 - 1 \<Longrightarrow> u64_sat n > of_nat m \<longleftrightarrow> n > m"
  by (simp add: word_less_nat_alt unat_u64_sat unat_of_nat take_bit_nat_eq_self)

lemma u64_sat_eq: "n < 2 ^ 64 \<Longrightarrow> u64_sat n = of_nat n"
  by (simp add: u64_sat_def)

lemma strtoul_first_digit:
  assumes "char_is_digit (first_char s)"
  shows "strtoul 10 s = (u64_sat (dec_value (takeWhile isdigit_char s)), dropWhile isdigit_char s)"
proof -
  have s: "s \<noteq> []" "isdigit_char (hd s)"
    using assms by (simp_all add: isdigit_first_char)
  show ?thesis
    unfolding strtoul_dec [OF s] read_digits_10 u64_sat_def dec_value_def by simp
qed

text \<open>A string that starts with a digit and that \<open>strtoul\<close> uses up is a decimal numeral.\<close>

lemma strtoul_dec_all:
  assumes "char_is_digit (first_char s)"
  shows "snd (strtoul 10 s) = [] \<longleftrightarrow> list_all isdigit_char s"
    and "list_all isdigit_char s \<Longrightarrow> fst (strtoul 10 s) = u64_sat (dec_value s)"
proof -
  show "snd (strtoul 10 s) = [] \<longleftrightarrow> list_all isdigit_char s"
    by (simp add: strtoul_first_digit [OF assms] dropWhile_eq_Nil_conv list_all_iff)
  assume "list_all isdigit_char s"
  then have "takeWhile isdigit_char s = s"
    by (simp add: takeWhile_eq_all_conv list_all_iff)
  then show "fst (strtoul 10 s) = u64_sat (dec_value s)"
    by (simp only: strtoul_first_digit [OF assms] fst_conv)
qed

definition dec_numeral :: "string \<Rightarrow> bool" where
  "dec_numeral s = (s \<noteq> [] \<and> list_all isdigit_char s)"

lemma dec_numeral_first: "dec_numeral s \<longleftrightarrow> char_is_digit (first_char s) \<and> list_all isdigit_char s"
  by (cases s) (auto simp: dec_numeral_def isdigit_first_char)

lemma dec_numeral_show [simp]: "dec_numeral (show_dec n)"
  using show_dec_digits [of _ n] by (auto simp: dec_numeral_def list_all_iff)

lemma dec_value_show [simp]: "dec_value (show_dec n) = n"
proof -
  have "read_digits 10 0 (show_dec n) = (n, [])"
    using read_digits_show_base [of 10 "[]" n] by simp
  moreover have "takeWhile isdigit_char (show_dec n) = show_dec n"
    using show_dec_digits [of _ n] by (auto simp: takeWhile_eq_all_conv)
  ultimately show ?thesis
    by (simp add: read_digits_10 dec_value_def)
qed

end
