(* ===== verification/Encoding.thy ===== *)
theory Encoding
  imports Prelude
begin

unbundle bit_operations_syntax

text \<open>
  The constant-time base64 and hexadecimal codecs for 32-byte keys
  (\<open>src/tunnel/tools/amneziawg-tools/src/encoding.c\<close>). The arithmetic is kept at the width the C
  promotions give it: \<open>int\<close> and \<open>unsigned int\<close> are 32-bit words, \<open>>>\<close> on a possibly negative
  \<open>int\<close> is the arithmetic shift. A decoder takes the old contents of the key buffer and returns
  the success flag with the buffer it leaves behind, written or not.
\<close>

definition WG_KEY_LEN :: nat where
  "WG_KEY_LEN = 32"

definition WG_KEY_LEN_BASE64 :: nat where
  "WG_KEY_LEN_BASE64 = ((WG_KEY_LEN + 2) div 3) * 4 + 1"

definition WG_KEY_LEN_HEX :: nat where
  "WG_KEY_LEN_HEX = WG_KEY_LEN * 2 + 1"

lemmas key_lens [simp] = WG_KEY_LEN_def WG_KEY_LEN_BASE64_def WG_KEY_LEN_HEX_def

subsection \<open>Base64\<close>

definition encode_sextet :: "u8 \<Rightarrow> char" where
  "encode_sextet i =
     (let x = ucast i :: cint
      in char_of_cint
           (x + 65
            + (signed_drop_bit 8 (25 - x) AND 6)
            - (signed_drop_bit 8 (51 - x) AND 75)
            - (signed_drop_bit 8 (61 - x) AND 15)
            + (signed_drop_bit 8 (62 - x) AND 3)))"

definition encode_base64 :: "u8 \<Rightarrow> u8 \<Rightarrow> u8 \<Rightarrow> string" where
  "encode_base64 s0 s1 s2 =
     (let i0 = ucast s0 :: cint; i1 = ucast s1 :: cint; i2 = ucast s2 :: cint
      in map encode_sextet
           [ucast (drop_bit 2 i0 AND 63),
            ucast ((push_bit 4 i0 OR drop_bit 4 i1) AND 63),
            ucast ((push_bit 2 i1 OR drop_bit 6 i2) AND 63),
            ucast (i2 AND 63)])"

definition key_to_base64 :: "u8 list \<Rightarrow> string" where
  "key_to_base64 key =
     (concat (map (\<lambda>i. encode_base64 (key ! (i * 3)) (key ! (i * 3 + 1)) (key ! (i * 3 + 2)))
        [0..<WG_KEY_LEN div 3])
      @ encode_base64 (key ! (WG_KEY_LEN div 3 * 3)) (key ! (WG_KEY_LEN div 3 * 3 + 1)) 0)
     [WG_KEY_LEN_BASE64 - 2 := CHR ''='']"

definition decode_char :: "cint \<Rightarrow> cint" where
  "decode_char c =
     - 1
     + (signed_drop_bit 8 ((65 - 1 - c) AND (c - (90 + 1))) AND (c - 64))
     + (signed_drop_bit 8 ((97 - 1 - c) AND (c - (122 + 1))) AND (c - 70))
     + (signed_drop_bit 8 ((48 - 1 - c) AND (c - (57 + 1))) AND (c + 5))
     + (signed_drop_bit 8 ((43 - 1 - c) AND (c - (43 + 1))) AND 63)
     + (signed_drop_bit 8 ((47 - 1 - c) AND (c - (47 + 1))) AND 64)"

definition decode_base64 :: "string \<Rightarrow> cint" where
  "decode_base64 src =
     fold (\<lambda>i val. val OR push_bit (18 - 6 * i) (decode_char (schar (src ! i)))) [0..<4] 0"

definition key_from_base64 :: "u8 list \<Rightarrow> string \<Rightarrow> bool \<times> u8 list" where
  "key_from_base64 key base64 =
     (if length base64 \<noteq> WG_KEY_LEN_BASE64 - 1 \<or> base64 ! (WG_KEY_LEN_BASE64 - 2) \<noteq> CHR ''=''
      then (False, key)
      else
        let (ret, key) =
              fold (\<lambda>i (ret, key).
                let val = decode_base64 (take 4 (drop (i * 4) base64))
                in (ret OR ucast (drop_bit 31 val),
                    key[i * 3 := ucast (signed_drop_bit 16 val AND 255),
                        i * 3 + 1 := ucast (signed_drop_bit 8 val AND 255),
                        i * 3 + 2 := ucast (val AND 255)]))
                [0..<WG_KEY_LEN div 3] (0 :: u8, key);
            i = WG_KEY_LEN div 3;
            val = decode_base64 (take 3 (drop (i * 4) base64) @ [CHR ''A'']);
            ret = ret OR ucast (drop_bit 31 val OR (val AND 255));
            key = key[i * 3 := ucast (signed_drop_bit 16 val AND 255),
                      i * 3 + 1 := ucast (signed_drop_bit 8 val AND 255)]
        in (ct_is_zero ret, key))"

subsection \<open>Hexadecimal\<close>

definition hex_digit :: "cint \<Rightarrow> char" where
  "hex_digit n = char_of_cint (87 + n + (drop_bit 8 (n - 10) AND NOT 38))"

definition key_to_hex :: "u8 list \<Rightarrow> string" where
  "key_to_hex key =
     concat (map (\<lambda>i. [hex_digit (drop_bit 4 (ucast (key ! i))), hex_digit (ucast (key ! i) AND 15)])
       [0..<WG_KEY_LEN])"

text \<open>One hexadecimal character: the error mask it contributes and its value, from the assignments
  that the loop body of \<open>key_from_hex\<close> makes once per character.\<close>

definition hex_char :: "char \<Rightarrow> u8 \<times> u8" where
  "hex_char ch =
     (let c = u8_of_char ch;
          c_num = ucast ((ucast c :: cint) XOR 48) :: u8;
          c_num0 = ucast (drop_bit 8 ((ucast c_num :: cint) - 10)) :: u8;
          c_alpha = ucast (((ucast c :: cint) AND NOT 32) - 55) :: u8;
          c_alpha0 = ucast (drop_bit 8 (((ucast c_alpha :: cint) - 10) XOR (ucast c_alpha - 16))) :: u8
      in (ucast (signed_drop_bit 8 ((ucast (c_num0 OR c_alpha0) :: cint) - 1)),
          (c_num0 AND c_num) OR (c_alpha0 AND c_alpha)))"

definition key_from_hex :: "u8 list \<Rightarrow> string \<Rightarrow> bool \<times> u8 list" where
  "key_from_hex key hex =
     (if length hex \<noteq> WG_KEY_LEN_HEX - 1 then (False, key)
      else
        let (ret, key) =
              fold (\<lambda>j (ret, key).
                let i = 2 * j;
                    (e1, v1) = hex_char (hex ! i);
                    c_acc = v1 * 16;
                    (e2, v2) = hex_char (hex ! (i + 1))
                in (ret OR e1 OR e2, key[i div 2 := c_acc OR v2]))
                [0..<WG_KEY_LEN] (0 :: u8, key)
        in (ct_is_zero ret, key))"

definition key_is_zero :: "u8 list \<Rightarrow> bool" where
  "key_is_zero key = ct_is_zero (fold (\<lambda>i acc. acc OR key ! i) [0..<WG_KEY_LEN] 0)"

subsection \<open>The base64 alphabet\<close>

text \<open>What the branch-free expressions compute: the character of a sextet and the sextet of a
  character, by ranges.\<close>

definition b64_char :: "nat \<Rightarrow> char" where
  "b64_char n = char_of (if n < 26 then n + 65 else if n < 52 then n + 71
     else if n < 62 then n - 4 else if n = 62 then 43 else 47)"

definition b64_value :: "char \<Rightarrow> nat option" where
  "b64_value c = (let n = of_char c :: nat in
     if 65 \<le> n \<and> n \<le> 90 then Some (n - 65)
     else if 97 \<le> n \<and> n \<le> 122 then Some (n - 71)
     else if 48 \<le> n \<and> n \<le> 57 then Some (n + 4)
     else if n = 43 then Some 62
     else if n = 47 then Some 63
     else None)"

lemma b64_alphabet:
  "map b64_char [0..<64] = ''ABCDEFGHIJKLMNOPQRSTUVWXYZabcdefghijklmnopqrstuvwxyz0123456789+/''"
  by code_simp

lemma b64_value_char:
  assumes "n < 64"
  shows "b64_value (b64_char n) = Some n"
proof -
  consider "n < 26" | "26 \<le> n" "n < 52" | "52 \<le> n" "n < 62" | "n = 62" | "n = 63"
    using assms by linarith
  then show ?thesis
  proof cases
    case 3
    then have "47 < n - 4" "n - 4 < 58" by auto
    with 3 show ?thesis
      by (simp add: b64_value_def b64_char_def Let_def)
  qed (simp_all add: b64_value_def b64_char_def Let_def)
qed

lemma b64_char_value: "b64_value c = Some n \<Longrightarrow> n < 64 \<and> b64_char n = c"
  by (auto simp: b64_value_def b64_char_def Let_def split: if_splits)
    (metis char_of_char)+

lemma encode_sextet_eq:
  assumes "n < 64"
  shows "encode_sextet (of_nat n) = b64_char n"
proof -
  let ?x = "of_nat n :: cint"
  have u: "ucast (of_nat n :: u8) = ?x"
    using assms by (simp add: unsigned_of_nat take_bit_nat_eq_self)
  have x: "sint ?x = int n"
    using assms by (simp add: signed_of_nat signed_take_bit_int_eq_self)
  have m: "signed_drop_bit 8 (k - ?x) = (if sint k < int n then - 1 else 0)"
    if "0 \<le> sint k" "sint k < 256" for k :: cint
    using that assms ct_mask_less [of k ?x] by (simp add: x)
  consider "n < 26" | "26 \<le> n" "n < 52" | "52 \<le> n" "n < 62" | "n = 62" | "n = 63"
    using assms by linarith
  then have "encode_sextet (of_nat n) = char_of_cint (of_nat (if n < 26 then n + 65
      else if n < 52 then n + 71 else if n < 62 then n - 4 else if n = 62 then 43 else 47))"
    by cases (simp_all add: encode_sextet_def u m, simp_all only: add.commute)
  then show ?thesis
    by (simp only: char_of_cint_of_nat b64_char_def)
qed

lemma decode_char_eq:
  assumes c: "of_char c = n" and n: "n < 256"
    and w: "sint w = int n \<or> 128 \<le> n \<and> sint w = int n - 256"
  shows "decode_char w = (case b64_value c of None \<Rightarrow> - 1 | Some k \<Rightarrow> of_nat k)"
proof -
  have m: "signed_drop_bit 8 ((lo - w) AND (w - hi))
      = (if sint lo < int n \<and> int n < sint hi then - 1 else 0)"
    if "0 \<le> sint lo" "sint lo < 128" "0 \<le> sint hi" "sint hi < 128" for lo hi :: cint
  proof -
    have "signed_drop_bit 8 ((lo - w) AND (w - hi))
        = (if sint lo < sint w \<and> sint w < sint hi then - 1 else 0)"
      using that n w by (intro ct_mask_between) auto
    also have "sint lo < sint w \<and> sint w < sint hi \<longleftrightarrow> sint lo < int n \<and> int n < sint hi"
      using that n w by auto
    finally show ?thesis .
  qed
  have small: "w = of_nat n" if "n < 128"
    by (rule signed_word_eqI) (use w that in \<open>simp add: signed_of_nat signed_take_bit_int_eq_self\<close>)
  have eq: "decode_char w = - 1 + (if 64 < n \<and> n < 91 then w - 64 else 0)
     + (if 96 < n \<and> n < 123 then w - 70 else 0) + (if 47 < n \<and> n < 58 then w + 5 else 0)
     + (if 42 < n \<and> n < 44 then 63 else 0) + (if 46 < n \<and> n < 48 then 64 else 0)"
    unfolding decode_char_def by (simp add: m)
  consider "64 < n" "n < 91" | "96 < n" "n < 123" | "47 < n" "n < 58" | "n = 43" | "n = 47"
    | "\<not> (64 < n \<and> n < 91)" "\<not> (96 < n \<and> n < 123)" "\<not> (47 < n \<and> n < 58)" "n \<noteq> 43" "n \<noteq> 47"
    by linarith
  then show ?thesis
    unfolding eq b64_value_def c Let_def by cases (auto simp: small)
qed

subsection \<open>Groups of four characters and three bytes\<close>

text \<open>The sextet of a character of the alphabet, and the 24-bit value four sextets make.\<close>

definition sextet_of :: "char \<Rightarrow> u8" where
  "sextet_of c = of_nat (the (b64_value c))"

definition join4 :: "u8 \<Rightarrow> u8 \<Rightarrow> u8 \<Rightarrow> u8 \<Rightarrow> cint" where
  "join4 a b c d = push_bit 18 (ucast a) OR push_bit 12 (ucast b) OR push_bit 6 (ucast c) OR ucast d"

abbreviation byte_hi :: "cint \<Rightarrow> u8" where
  "byte_hi val \<equiv> ucast (signed_drop_bit 16 val AND 255)"

abbreviation byte_mid :: "cint \<Rightarrow> u8" where
  "byte_mid val \<equiv> ucast (signed_drop_bit 8 val AND 255)"

abbreviation byte_lo :: "cint \<Rightarrow> u8" where
  "byte_lo val \<equiv> ucast (val AND 255)"

lemma mask_63: "63 = (mask 6 :: 'a::len word)"
  by (simp add: mask_eq_exp_minus_1)

lemma mask_255: "255 = (mask 8 :: 'a::len word)"
  by (simp add: mask_eq_exp_minus_1)

lemma bit_u8_eqI:
  fixes v w :: u8
  assumes "bit v 0 = bit w 0" "bit v 1 = bit w 1" "bit v 2 = bit w 2" "bit v 3 = bit w 3"
    "bit v 4 = bit w 4" "bit v 5 = bit w 5" "bit v 6 = bit w 6" "bit v 7 = bit w 7"
  shows "v = w"
proof (rule bit_word_eqI)
  fix n assume "n < LENGTH(8)"
  then consider "n = 0" | "n = 1" | "n = 2" | "n = 3" | "n = 4" | "n = 5" | "n = 6" | "n = 7"
    by fastforce
  then show "bit v n = bit w n"
    by cases (simp_all only: assms)
qed

lemma bit_u8_high: "8 \<le> k \<Longrightarrow> \<not> bit (w :: u8) k"
  by (auto dest: bit_imp_le_length)

lemmas bit_byte_simps = join4_def mask_63 mask_255 bit_simps bit_u8_high

lemma join4_bytes:
  fixes s0 s1 s2 :: u8
  defines "val \<equiv> join4 (ucast (drop_bit 2 (ucast s0 :: cint) AND 63))
      (ucast ((push_bit 4 (ucast s0) OR drop_bit 4 (ucast s1)) AND (63 :: cint)))
      (ucast ((push_bit 2 (ucast s1) OR drop_bit 6 (ucast s2)) AND (63 :: cint)))
      (ucast ((ucast s2) AND (63 :: cint)))"
  shows "byte_hi val = s0" and "byte_mid val = s1" and "byte_lo val = s2"
  unfolding val_def by (rule bit_u8_eqI; simp add: bit_byte_simps; blast?)+

lemma bytes_join4:
  fixes a b c d :: u8
  assumes "\<And>k. 6 \<le> k \<Longrightarrow> \<not> bit a k" "\<And>k. 6 \<le> k \<Longrightarrow> \<not> bit b k"
    "\<And>k. 6 \<le> k \<Longrightarrow> \<not> bit c k" "\<And>k. 6 \<le> k \<Longrightarrow> \<not> bit d k"
  defines "val \<equiv> join4 a b c d"
  shows "ucast (drop_bit 2 (ucast (byte_hi val) :: cint) AND 63) = a"
    and "ucast ((push_bit 4 (ucast (byte_hi val)) OR drop_bit 4 (ucast (byte_mid val))) AND (63 :: cint)) = b"
    and "ucast ((push_bit 2 (ucast (byte_mid val)) OR drop_bit 6 (ucast (byte_lo val))) AND (63 :: cint)) = c"
    and "ucast (ucast (byte_lo val) AND (63 :: cint)) = d"
  unfolding val_def by (rule bit_u8_eqI; simp add: bit_byte_simps assms(1-4); blast?)+

lemma decode_char_schar:
  "decode_char (schar c) = (case b64_value c of None \<Rightarrow> - 1 | Some k \<Rightarrow> of_nat k)"
  by (rule decode_char_eq [OF refl]) (auto simp: sint_schar)

lemma decode_char_uchar: "decode_char (uchar c) = decode_char (schar c)"
  unfolding decode_char_schar by (rule decode_char_eq [OF refl]) (auto simp: sint_uchar)

lemma bit_small_word:
  assumes "n < 64" and "6 \<le> k"
  shows "\<not> bit (of_nat n :: 'a::len word) k"
proof -
  have "take_bit 6 n = n"
    using assms by (simp add: take_bit_nat_eq_self)
  then have "\<not> bit n k"
    using assms(2) by (metis bit_take_bit_iff linorder_not_less)
  then show ?thesis
    by (simp add: bit_of_nat_iff)
qed

lemma bit_sextet_of: "b64_value c \<noteq> None \<Longrightarrow> 6 \<le> k \<Longrightarrow> \<not> bit (sextet_of c) k"
  using b64_char_value bit_small_word by (fastforce simp: sextet_of_def)

lemma decode_base64_valid:
  assumes "\<forall>c \<in> {c0, c1, c2, c3}. b64_value c \<noteq> None"
  shows "decode_base64 [c0, c1, c2, c3] = join4 (sextet_of c0) (sextet_of c1) (sextet_of c2) (sextet_of c3)"
proof -
  have "decode_char (schar c) = ucast (sextet_of c)" if "b64_value c \<noteq> None" for c
  proof -
    from that obtain n where n: "b64_value c = Some n" by auto
    then have "n < 64" using b64_char_value by blast
    then have "ucast (of_nat n :: u8) = (of_nat n :: cint)"
      by (simp add: unsigned_of_nat take_bit_nat_eq_self)
    with n show ?thesis
      by (simp add: decode_char_schar sextet_of_def)
  qed
  with assms show ?thesis
    by (simp add: decode_base64_def join4_def upt_rec or.assoc)
qed

lemma decode_base64_sign:
  "bit (decode_base64 [c0, c1, c2, c3]) 31 \<longleftrightarrow> (\<exists>c \<in> {c0, c1, c2, c3}. b64_value c = None)"
proof (cases "\<forall>c \<in> {c0, c1, c2, c3}. b64_value c \<noteq> None")
  case True
  then have "\<not> bit (decode_base64 [c0, c1, c2, c3]) 31"
    by (simp add: decode_base64_valid bit_byte_simps bit_sextet_of)
  with True show ?thesis by auto
next
  case False
  then have "bit (decode_base64 [c0, c1, c2, c3]) 31"
    by (auto simp: decode_base64_def upt_rec decode_char_schar bit_simps)
  with False show ?thesis by auto
qed

lemma unat_sextet_less: "unat (ucast (x AND 63 :: cint) :: u8) < 64"
proof -
  have "ucast (x AND 63) = (take_bit 6 (ucast x) :: u8)"
    by (rule bit_word_eqI) (auto simp: bit_byte_simps)
  then have "unat (ucast (x AND 63) :: u8) = take_bit 6 (unat (ucast x :: u8))"
    by (simp add: unsigned_take_bit_eq)
  also have "\<dots> < 2 ^ 6"
    by (rule take_bit_nat_less_exp)
  finally show ?thesis by simp
qed

lemma encode_sextet_inverse:
  assumes "unat w < 64"
  shows b64_value_encode_sextet: "b64_value (encode_sextet w) = Some (unat w)"
    and sextet_of_encode_sextet: "sextet_of (encode_sextet w) = w"
  using assms encode_sextet_eq [of "unat w"] by (simp_all add: b64_value_char sextet_of_def)

lemma encode_sextet_sextet_of:
  assumes "b64_value c \<noteq> None"
  shows "encode_sextet (sextet_of c) = c"
  using assms b64_char_value [of c] by (auto simp: sextet_of_def encode_sextet_eq)

lemma b64_value_encode_base64: "c \<in> set (encode_base64 s0 s1 s2) \<Longrightarrow> b64_value c \<noteq> None"
  by (auto simp: encode_base64_def Let_def b64_value_encode_sextet [OF unat_sextet_less])

lemma length_encode_base64 [simp]: "length (encode_base64 s0 s1 s2) = 4"
  by (simp add: encode_base64_def Let_def)

lemma decode_encode_base64:
  defines "val s0 s1 s2 \<equiv> decode_base64 (encode_base64 s0 s1 s2)"
  shows "byte_hi (val s0 s1 s2) = s0" and "byte_mid (val s0 s1 s2) = s1" and "byte_lo (val s0 s1 s2) = s2"
    and "\<not> bit (val s0 s1 s2) 31"
proof -
  have v: "val s0 s1 s2 = join4 (ucast (drop_bit 2 (ucast s0 :: cint) AND 63))
      (ucast ((push_bit 4 (ucast s0) OR drop_bit 4 (ucast s1)) AND (63 :: cint)))
      (ucast ((push_bit 2 (ucast s1) OR drop_bit 6 (ucast s2)) AND (63 :: cint)))
      (ucast ((ucast s2) AND (63 :: cint)))"
    unfolding val_def encode_base64_def Let_def list.map
    by (subst decode_base64_valid)
       (simp_all add: b64_value_encode_sextet [OF unat_sextet_less] sextet_of_encode_sextet [OF unat_sextet_less])
  show "byte_hi (val s0 s1 s2) = s0" "byte_mid (val s0 s1 s2) = s1" "byte_lo (val s0 s1 s2) = s2"
    unfolding v by (rule join4_bytes)+
  show "\<not> bit (val s0 s1 s2) 31"
    unfolding val_def encode_base64_def Let_def list.map
    by (subst decode_base64_sign) (simp add: b64_value_encode_sextet [OF unat_sextet_less])
qed

lemma encode_decode_base64:
  assumes "\<forall>c \<in> {c0, c1, c2, c3}. b64_value c \<noteq> None"
  defines "val \<equiv> decode_base64 [c0, c1, c2, c3]"
  shows "encode_base64 (byte_hi val) (byte_mid val) (byte_lo val) = [c0, c1, c2, c3]"
proof -
  have "6 \<le> k \<Longrightarrow> \<not> bit (sextet_of c) k" if "c \<in> {c0, c1, c2, c3}" for c k
    using assms(1) that bit_sextet_of by blast
  with assms(1) show ?thesis
    unfolding val_def decode_base64_valid [OF assms(1)] encode_base64_def Let_def
    by (subst bytes_join4; simp add: encode_sextet_sextet_of)+
qed

subsection \<open>Whole keys in base64\<close>

lemma fold_or_eq_0:
  "fold (\<lambda>i r. r OR e i) is r = (0 :: u8) \<longleftrightarrow> r = 0 \<and> (\<forall>i \<in> set is. e i = 0)"
  by (induction "is" arbitrary: r) (auto simp: or_eq_0_iff)

lemma length_ge_3: "3 \<le> length xs \<Longrightarrow> \<exists>x y z ys. xs = x # y # z # ys"
  by (auto simp: numeral_3_eq_3 Suc_le_length_iff)

lemma fold_groups:
  assumes "n * 3 \<le> length key"
  shows "fold (\<lambda>i (ret, key). (ret OR e i, key[i * 3 := a i, i * 3 + 1 := b i, i * 3 + 2 := c i]))
      [0..<n] (r :: u8, key)
    = (fold (\<lambda>i r. r OR e i) [0..<n] r, concat (map (\<lambda>i. [a i, b i, c i]) [0..<n]) @ drop (n * 3) key)"
  using assms
proof (induction n)
  case (Suc n)
  have l: "length (concat (map (\<lambda>i. [a i, b i, c i]) [0..<n])) = n * 3"
    by (simp add: length_concat comp_def sum_list_triv)
  have "3 \<le> length (drop (n * 3) key)"
    using Suc.prems by simp
  from length_ge_3 [OF this] obtain x y z ys where d: "drop (n * 3) key = x # y # z # ys"
    by blast
  then have "drop (Suc n * 3) key = ys"
    by (metis drop_Suc_Cons drop_drop mult_Suc numeral_3_eq_3 drop0 add.commute)
  then show ?case
    using Suc d l by (simp add: list_update_append)
qed simp

text \<open>The strings the decoder accepts: 43 characters of the alphabet and the padding, the two spare
  bits of the last character clear.\<close>

definition base64_key_string :: "string \<Rightarrow> bool" where
  "base64_key_string s \<longleftrightarrow> length s = 44 \<and> s ! 43 = CHR ''='' \<and>
     (\<forall>i < 43. b64_value (s ! i) \<noteq> None) \<and> the (b64_value (s ! 42)) mod 4 = 0"

lemma take4_drop: "n + 4 \<le> length s \<Longrightarrow> take 4 (drop n s) = [s ! n, s ! (n + 1), s ! (n + 2), s ! (n + 3)]"
  by (simp add: list_eq_iff_nth_eq less_Suc_eq numeral_eq_Suc)

lemma take3_drop: "n + 3 \<le> length s \<Longrightarrow> take 3 (drop n s) = [s ! n, s ! (n + 1), s ! (n + 2)]"
  by (simp add: list_eq_iff_nth_eq less_Suc_eq numeral_eq_Suc)

lemma ucast_sign_eq_0: "ucast (drop_bit 31 (v :: cint)) = (0 :: u8) \<longleftrightarrow> \<not> bit v 31"
  using bit_last_iff [of v] by (simp add: drop_bit_31_sign)

lemma ucast_low_eq_0: "ucast (v AND 255 :: cint) = (0 :: u8) \<longleftrightarrow> v AND 255 = 0"
proof
  assume 0: "ucast (v AND 255) = (0 :: u8)"
  have "\<not> bit v n" if "n < 8" for n
    using arg_cong [OF 0, of "\<lambda>w. bit w n"] that by (simp add: bit_byte_simps)
  then show "v AND 255 = 0"
    by (intro bit_word_eqI) (auto simp: bit_byte_simps)
qed simp

definition b64_group :: "string \<Rightarrow> nat \<Rightarrow> cint" where
  "b64_group s i = decode_base64 (take 4 (drop (i * 4) s))"

definition b64_tail :: "string \<Rightarrow> cint" where
  "b64_tail s = decode_base64 (take 3 (drop 40 s) @ [CHR ''A''])"

definition b64_bytes :: "string \<Rightarrow> u8 list" where
  "b64_bytes s = concat (map (\<lambda>i. [byte_hi (b64_group s i), byte_mid (b64_group s i), byte_lo (b64_group s i)]) [0..<10])
     @ [byte_hi (b64_tail s), byte_mid (b64_tail s)]"

lemma key_from_base64_eq:
  assumes "length key = 32" and "length s = 44" and "s ! 43 = CHR ''=''"
  shows "key_from_base64 key s =
    ((\<forall>i<10. \<not> bit (b64_group s i) 31) \<and> \<not> bit (b64_tail s) 31 \<and> b64_tail s AND 255 = 0, b64_bytes s)"
proof -
  obtain x y where d: "drop 30 key = [x, y]"
    using assms(1) by (cases "drop 30 key" rule: remdups_adj.cases)
      (auto dest: arg_cong [where f = length])
  have l: "length (concat (map (\<lambda>i. [byte_hi (b64_group s i), byte_mid (b64_group s i), byte_lo (b64_group s i)]) [0..<10])) = 30"
    by (simp add: length_concat comp_def sum_list_triv)
  show ?thesis
    using assms d l
    by (simp add: key_from_base64_def Let_def fold_groups [simplified] b64_bytes_def list_update_append fold_or_eq_0
        unsigned_or_eq or_eq_0_iff ucast_sign_eq_0 ucast_low_eq_0 Ball_def b64_tail_def b64_group_def)

qed

lemma take_drop_concat_groups:
  assumes "\<And>i. length (f i) = m" and "i < n"
  shows "take m (drop (i * m) (concat (map f [0..<n]) @ ys)) = f i"
proof -
  have "[0..<n] = [0..<i] @ i # [Suc i..<n]"
    using assms(2) by (metis less_imp_le_nat upt_add_eq_append le0 upt_conv_Cons le_iff_add)
  moreover have "length (concat (map f [0..<i])) = i * m"
    by (simp add: length_concat comp_def assms(1) sum_list_triv)
  ultimately show ?thesis
    by (simp add: assms(1))
qed

lemma concat_groups:
  assumes "\<And>i. i < n \<Longrightarrow> f i = take m (drop (i * m) xs)"
  shows "concat (map f [0..<n]) = take (n * m) xs"
  using assms by (induction n) (simp_all add: add.commute flip: take_add)

lemma b64_value_A: "b64_value CHR ''A'' = Some 0"
  by (simp add: b64_value_def)

lemma b64_group_ok:
  assumes "length s = 44" and "i < 10"
  shows "\<not> bit (b64_group s i) 31 \<longleftrightarrow> (\<forall>j<4. b64_value (s ! (i * 4 + j)) \<noteq> None)"
proof -
  have "(\<forall>j<4. P j) \<longleftrightarrow> P 0 \<and> P 1 \<and> P 2 \<and> P (3::nat)" for P
    by (auto simp: less_Suc_eq numeral_eq_Suc)
  with assms show ?thesis
    by (simp add: b64_group_def take4_drop decode_base64_sign)
qed

lemma b64_tail_ok:
  assumes "length s = 44"
  shows "\<not> bit (b64_tail s) 31 \<longleftrightarrow> (\<forall>j<3. b64_value (s ! (40 + j)) \<noteq> None)"
proof -
  have "(\<forall>j<3. P j) \<longleftrightarrow> P 0 \<and> P 1 \<and> P (2::nat)" for P
    by (auto simp: less_Suc_eq numeral_eq_Suc)
  with assms show ?thesis
    by (simp add: b64_tail_def take3_drop decode_base64_sign b64_value_A)
qed

lemma nat_mod_4_bits: "n mod 4 = 0 \<longleftrightarrow> \<not> bit n 0 \<and> \<not> bit n (1 :: nat)" for n :: nat
proof -
  have "n mod 4 = take_bit 2 n"
    by (simp add: take_bit_eq_mod)
  also have "\<dots> = 0 \<longleftrightarrow> (\<forall>k<2. \<not> bit n k)"
    by (auto simp: bit_eq_iff [of "take_bit 2 n"] bit_take_bit_iff)
  also have "\<dots> \<longleftrightarrow> \<not> bit n 0 \<and> \<not> bit n 1"
    by (auto simp: less_2_cases_iff)
  finally show ?thesis .
qed

lemma join4_low:
  assumes "\<And>k. 6 \<le> k \<Longrightarrow> \<not> bit c k"
  shows "join4 a b c 0 AND 255 = 0 \<longleftrightarrow> \<not> bit c 0 \<and> \<not> bit c 1"
proof -
  have "byte_lo (join4 a b c 0) = 0 \<longleftrightarrow> \<not> bit c 0 \<and> \<not> bit c 1"
  proof
    assume z: "byte_lo (join4 a b c 0) = 0"
    have "\<not> bit (byte_lo (join4 a b c 0)) 6" "\<not> bit (byte_lo (join4 a b c 0)) 7"
      unfolding z by simp_all
    then show "\<not> bit c 0 \<and> \<not> bit c 1"
      by (simp add: bit_byte_simps)
  next
    assume "\<not> bit c 0 \<and> \<not> bit c 1"
    then show "byte_lo (join4 a b c 0) = 0"
      by (intro bit_u8_eqI) (simp_all add: bit_byte_simps)
  qed
  then show ?thesis
    by (simp add: ucast_low_eq_0)
qed

lemma b64_tail_low:
  assumes "length s = 44" and "\<not> bit (b64_tail s) 31"
  shows "b64_tail s AND 255 = 0 \<longleftrightarrow> the (b64_value (s ! 42)) mod 4 = 0"
proof -
  from assms(2) have all: "\<forall>j<3. b64_value (s ! (40 + j)) \<noteq> None"
    by (simp only: b64_tail_ok [OF assms(1)] not_not)
  have v: "b64_value (s ! 40) \<noteq> None" "b64_value (s ! 41) \<noteq> None" "b64_value (s ! 42) \<noteq> None"
    using all [rule_format, of 0] all [rule_format, of 1] all [rule_format, of 2] by simp_all
  then have "b64_tail s = join4 (sextet_of (s ! 40)) (sextet_of (s ! 41)) (sextet_of (s ! 42)) 0"
    using assms(1) by (simp add: b64_tail_def take3_drop decode_base64_valid b64_value_A)
       (simp add: sextet_of_def b64_value_A)
  then have "b64_tail s AND 255 = 0 \<longleftrightarrow> \<not> bit (sextet_of (s ! 42)) 0 \<and> \<not> bit (sextet_of (s ! 42)) 1"
    using join4_low [OF bit_sextet_of [OF v(3)]] by simp
  also have "\<dots> \<longleftrightarrow> \<not> bit (the (b64_value (s ! 42))) 0 \<and> \<not> bit (the (b64_value (s ! 42))) 1"
    by (simp add: sextet_of_def bit_of_nat_iff)
  finally show ?thesis
    by (simp only: nat_mod_4_bits)
qed

lemma all_less_43:
  "(\<forall>i<43. P i) \<longleftrightarrow> (\<forall>i<10. \<forall>j<4. P (i * 4 + j)) \<and> (\<forall>j<3. P (40 + j))" for P :: "nat \<Rightarrow> bool"
proof (intro iffI conjI allI impI)
  fix i
  assume *: "(\<forall>i<10. \<forall>j<4. P (i * 4 + j)) \<and> (\<forall>j<3. P (40 + j))" and "i < (43 :: nat)"
  show "P i"
  proof (cases "i < 40")
    case True
    then have "i div 4 < 10" "i mod 4 < 4" by auto
    with * have "P (i div 4 * 4 + i mod 4)" by blast
    then show ?thesis by simp
  next
    case False
    with \<open>i < 43\<close> have "i - 40 < 3" "i = 40 + (i - 40)" by auto
    with * show ?thesis by metis
  qed
qed auto

lemma key_from_base64_ok:
  assumes "length key = 32"
  shows "key_from_base64 key s = (if length s = 44 \<and> s ! 43 = CHR ''='' then (base64_key_string s, b64_bytes s) else (False, key))"
proof (cases "length s = 44 \<and> s ! 43 = CHR ''=''")
  case True
  then have s: "length s = 44" "s ! 43 = CHR ''=''" by auto
  have "(\<forall>i<10. \<not> bit (b64_group s i) 31) \<and> \<not> bit (b64_tail s) 31 \<longleftrightarrow> (\<forall>i<43. b64_value (s ! i) \<noteq> None)"
    using b64_group_ok [OF s(1)] b64_tail_ok [OF s(1)]
    by (subst all_less_43) blast
  then have "base64_key_string s \<longleftrightarrow> (\<forall>i<10. \<not> bit (b64_group s i) 31) \<and> \<not> bit (b64_tail s) 31 \<and> b64_tail s AND 255 = 0"
    using s b64_tail_low [OF s(1)] by (auto simp: base64_key_string_def)
  then show ?thesis
    using s by (simp add: key_from_base64_eq [OF assms])
qed (auto simp: key_from_base64_def)

lemma length_key_to_base64 [simp]: "length (key_to_base64 key) = 44"
  by (simp add: key_to_base64_def length_concat comp_def sum_list_triv)

lemma b64_group_key_to_base64:
  assumes "i < 10"
  shows "b64_group (key_to_base64 key) i
    = decode_base64 (encode_base64 (key ! (i * 3)) (key ! (i * 3 + 1)) (key ! (i * 3 + 2)))"
proof -
  have l: "length (concat (map (\<lambda>i. encode_base64 (key ! (i * 3)) (key ! (i * 3 + 1)) (key ! (i * 3 + 2))) [0..<10])) = 40"
    by (simp add: length_concat comp_def sum_list_triv)
  have "take 4 (drop (i * 4) (key_to_base64 key)) = encode_base64 (key ! (i * 3)) (key ! (i * 3 + 1)) (key ! (i * 3 + 2))"
    unfolding key_to_base64_def using assms l
    by (simp add: list_update_append take_drop_concat_groups [where m = 4 and ys = "[]", simplified])
  then show ?thesis
    by (simp add: b64_group_def)
qed

lemma key_to_base64_tail:
  "drop 40 (key_to_base64 key) = take 3 (encode_base64 (key ! 30) (key ! 31) 0) @ [CHR ''='']"
proof -
  have l: "length (concat (map (\<lambda>i. encode_base64 (key ! (i * 3)) (key ! (i * 3 + 1)) (key ! (i * 3 + 2))) [0..<10])) = 40"
    by (simp add: length_concat comp_def sum_list_triv)
  then show ?thesis
    unfolding key_to_base64_def by (simp add: list_update_append) (simp add: encode_base64_def Let_def)
qed

lemma encode_base64_last_0: "take 3 (encode_base64 a b 0) @ [CHR ''A''] = encode_base64 a b 0"
proof -
  have "encode_sextet 0 = CHR ''A''"
  proof -
    have "b64_char 0 = CHR ''A''" by code_simp
    then show ?thesis using encode_sextet_eq [of 0] by simp
  qed
  then show ?thesis
    by (simp add: encode_base64_def Let_def)
qed

lemma b64_tail_key_to_base64:
  "b64_tail (key_to_base64 key) = decode_base64 (encode_base64 (key ! 30) (key ! 31) 0)"
  by (simp add: b64_tail_def key_to_base64_tail encode_base64_last_0)

lemma base64_key_string_key_to_base64:
  "base64_key_string (key_to_base64 key)"
proof -
  let ?s = "key_to_base64 key"
  have "?s ! 43 = CHR ''=''"
    by (simp add: key_to_base64_def length_concat comp_def sum_list_triv)
  moreover have "\<forall>i<10. \<not> bit (b64_group ?s i) 31" "\<not> bit (b64_tail ?s) 31"
    by (simp_all add: b64_group_key_to_base64 b64_tail_key_to_base64 decode_encode_base64)
  moreover have "b64_tail ?s AND 255 = 0"
    using decode_encode_base64(3) [of "key ! 30" "key ! 31" 0]
    by (simp add: b64_tail_key_to_base64 ucast_low_eq_0)
  ultimately have "fst (key_from_base64 (replicate 32 0) ?s)"
    by (simp add: key_from_base64_eq)
  then show ?thesis
    by (simp add: key_from_base64_ok split: if_splits)
qed

lemma b64_bytes_key_to_base64:
  assumes "length key = 32"
  shows "b64_bytes (key_to_base64 key) = key"
proof -
  have "concat (map (\<lambda>i. [key ! (i * 3), key ! (i * 3 + 1), key ! (i * 3 + 2)]) [0..<10]) = take (10 * 3) key"
    by (rule concat_groups) (use assms in \<open>simp add: take3_drop\<close>)
  then have "concat (map (\<lambda>i. [key ! (i * 3), key ! (i * 3 + 1), key ! (i * 3 + 2)]) [0..<10]) = take 30 key"
    by simp
  moreover have "map (\<lambda>i. [byte_hi (b64_group (key_to_base64 key) i), byte_mid (b64_group (key_to_base64 key) i),
        byte_lo (b64_group (key_to_base64 key) i)]) [0..<10]
      = map (\<lambda>i. [key ! (i * 3), key ! (i * 3 + 1), key ! (i * 3 + 2)]) [0..<10]"
    by (rule map_cong) (simp_all add: b64_group_key_to_base64 [simplified] decode_encode_base64)
  ultimately have "b64_bytes (key_to_base64 key) = take 30 key @ [key ! 30, key ! 31]"
    by (simp only: b64_bytes_def b64_tail_key_to_base64 decode_encode_base64)
  also have "\<dots> = key"
    using assms by (intro nth_equalityI) (auto simp: nth_append less_Suc_eq numeral_eq_Suc)
  finally show ?thesis .
qed

lemma key_from_base64_roundtrip:
  assumes "length buf = 32" and "length key = 32"
  shows "key_from_base64 buf (key_to_base64 key) = (True, key)"
  using assms base64_key_string_key_to_base64 [of key]
  by (simp add: key_from_base64_ok b64_bytes_key_to_base64) (simp add: base64_key_string_def)

lemma length_b64_bytes [simp]: "length (b64_bytes s) = 32"
  by (simp add: b64_bytes_def length_concat comp_def sum_list_triv)

lemma b64_bytes_nth:
  assumes "i < 10"
  shows "b64_bytes s ! (i * 3) = byte_hi (b64_group s i)"
    and "b64_bytes s ! (i * 3 + 1) = byte_mid (b64_group s i)"
    and "b64_bytes s ! (i * 3 + 2) = byte_lo (b64_group s i)"
proof -
  have "take 3 (drop (i * 3) (b64_bytes s)) = [byte_hi (b64_group s i), byte_mid (b64_group s i), byte_lo (b64_group s i)]"
    unfolding b64_bytes_def using assms by (subst take_drop_concat_groups) simp_all
  with assms show "b64_bytes s ! (i * 3) = byte_hi (b64_group s i)"
    "b64_bytes s ! (i * 3 + 1) = byte_mid (b64_group s i)"
    "b64_bytes s ! (i * 3 + 2) = byte_lo (b64_group s i)"
    by (simp_all add: take3_drop)
qed

lemma b64_bytes_nth_tail:
  "b64_bytes s ! 30 = byte_hi (b64_tail s)" "b64_bytes s ! 31 = byte_mid (b64_tail s)"
  by (simp_all add: b64_bytes_def nth_append length_concat comp_def sum_list_triv)

lemma key_to_base64_bytes:
  assumes "base64_key_string s"
  shows "key_to_base64 (b64_bytes s) = s"
proof -
  have len: "length s = 44" and eq: "s ! 43 = CHR ''=''" and v: "\<And>i. i < 43 \<Longrightarrow> b64_value (s ! i) \<noteq> None"
    using assms by (auto simp: base64_key_string_def)
  have g: "encode_base64 (byte_hi (b64_group s i)) (byte_mid (b64_group s i)) (byte_lo (b64_group s i)) = take 4 (drop (i * 4) s)"
    if "i < 10" for i
    using that len v unfolding b64_group_def
    by (simp add: take4_drop) (subst encode_decode_base64; simp)
  have t: "encode_base64 (byte_hi (b64_tail s)) (byte_mid (b64_tail s)) 0 = take 3 (drop 40 s) @ [CHR ''A'']"
  proof -
    have "fst (key_from_base64 (replicate 32 0) s)"
      using assms len eq by (simp add: key_from_base64_ok)
    then have "byte_lo (b64_tail s) = 0"
      using len eq by (simp add: key_from_base64_eq)
    moreover have "encode_base64 (byte_hi (b64_tail s)) (byte_mid (b64_tail s)) (byte_lo (b64_tail s)) = take 3 (drop 40 s) @ [CHR ''A'']"
      using len v unfolding b64_tail_def
      by (simp add: take3_drop) (subst encode_decode_base64; simp add: b64_value_A)
    ultimately show ?thesis by simp
  qed
  have "concat (map (\<lambda>i. encode_base64 (b64_bytes s ! (i * 3)) (b64_bytes s ! (i * 3 + 1)) (b64_bytes s ! (i * 3 + 2))) [0..<10]) = take (10 * 4) s"
    by (rule concat_groups) (simp only: b64_bytes_nth g)
  then have "key_to_base64 (b64_bytes s) = (take 40 s @ take 3 (drop 40 s) @ [CHR ''A''])[43 := CHR ''='']"
    by (simp add: key_to_base64_def b64_bytes_nth_tail t)
  also have "\<dots> = s"
    using len eq by (intro nth_equalityI) (auto simp: nth_append nth_list_update take3_drop less_Suc_eq numeral_eq_Suc)
  finally show ?thesis .
qed

subsection \<open>Hexadecimal characters\<close>

definition hex_value :: "char \<Rightarrow> nat option" where
  "hex_value c = (let n = of_char c :: nat in
     if 48 \<le> n \<and> n \<le> 57 then Some (n - 48)
     else if 65 \<le> n \<and> n \<le> 70 then Some (n - 55)
     else if 97 \<le> n \<and> n \<le> 102 then Some (n - 87)
     else None)"

text \<open>\<open>(x - k) >> 8\<close> on unsigned operands, stored into a byte: the borrow of the subtraction.\<close>

lemma uint_drop_bit_8: "uint (drop_bit 8 (w :: cint)) = uint w div 256"
  using unsigned_less [of w, where 'a = int]
  unfolding unsigned_drop_bit_eq by (simp add: drop_bit_eq_div take_bit_int_eq_self)

lemma drop_bit_8_borrow:
  fixes x k :: u8
  shows "drop_bit 8 (ucast x - ucast k :: cint) = (if x < k then 16777215 else 0)"
proof (cases "x < k")
  case True
  have b: "uint x < uint k" "uint k < 256" "0 \<le> uint x"
    using True unsigned_less [of k, where 'a = int] by (simp_all add: word_less_def)
  have "uint (ucast x - ucast k :: cint) = (uint x - uint k) mod 4294967296"
    by (simp add: uint_word_ariths)
  also have "\<dots> = (uint x - uint k + 4294967296) mod 4294967296"
    by simp
  also have "\<dots> = uint x - uint k + 4294967296"
    using b by (intro mod_pos_pos_trivial) linarith+
  finally have "uint (drop_bit 8 (ucast x - ucast k :: cint)) = (uint x - uint k + 4294967296) div 256"
    by (simp only: uint_drop_bit_8)
  also have "\<dots> = 16777215"
    using b by linarith
  finally have "drop_bit 8 (ucast x - ucast k :: cint) = 16777215"
    by (simp add: word_uint_eq_iff)
  with True show ?thesis by simp
next
  case False
  have b: "uint k \<le> uint x" "uint x < 256" "0 \<le> uint k"
    using False unsigned_less [of x, where 'a = int] by (simp_all add: word_less_def)
  have "uint (ucast x - ucast k :: cint) = (uint x - uint k) mod 4294967296"
    by (simp add: uint_word_ariths)
  also have "\<dots> = uint x - uint k"
    using b by (intro mod_pos_pos_trivial) linarith+
  finally have "uint (drop_bit 8 (ucast x - ucast k :: cint)) = (uint x - uint k) div 256"
    by (simp only: uint_drop_bit_8)
  also have "\<dots> = 0"
    using b by linarith
  finally have "drop_bit 8 (ucast x - ucast k :: cint) = 0"
    by (simp add: word_uint_eq_iff)
  with False show ?thesis by simp
qed

lemma ct_borrow:
  fixes x k :: u8
  shows "ucast (drop_bit 8 (ucast x - ucast k :: cint)) = (if x < k then 255 else 0 :: u8)"
  by (simp add: drop_bit_8_borrow)

lemma xor_48_less_10:
  fixes c :: u8
  assumes "c XOR 48 < 10"
  shows "48 \<le> unat c \<and> unat c \<le> 57"
proof -
  have "unat (c XOR 48) \<in> {0..<10}"
    using assms by (simp add: word_less_nat_alt)
  then have "c XOR 48 \<in> {0, 1, 2, 3, 4, 5, 6, 7, 8, 9}"
    by (auto simp: word_unat_eq_iff)
  moreover have "c = (c XOR 48) XOR 48"
    by (simp add: xor.assoc)
  ultimately have "c \<in> {48, 49, 50, 51, 52, 53, 54, 55, 56, 57}"
    by auto
  then show ?thesis by auto
qed

lemma and_32_cases: "c AND 32 = 0 \<or> c AND 32 = (32 :: u8)"
proof -
  have "c AND 32 = (if bit c 5 then 32 else 0)"
    by (rule bit_u8_eqI) (simp_all add: bit_and_iff)
  then show ?thesis by simp
qed

lemma and_not_32_range:
  fixes c :: u8
  assumes "65 \<le> unat (c AND NOT 32)" and "unat (c AND NOT 32) \<le> 70"
  shows "65 \<le> unat c \<and> unat c \<le> 70 \<or> 97 \<le> unat c \<and> unat c \<le> 102"
proof -
  define m where "m = c AND NOT 32"
  have "unat m \<in> {65, 66, 67, 68, 69, 70}"
    using assms unfolding m_def by fastforce
  then have "m \<in> {65, 66, 67, 68, 69, 70}"
    by (auto simp: word_unat_eq_iff)
  moreover have "c = m OR (c AND 32)"
    unfolding m_def by (simp flip: bit.conj_disj_distrib)
  ultimately have "c \<in> {65, 66, 67, 68, 69, 70, 97, 98, 99, 100, 101, 102}"
    using and_32_cases [of c] by auto
  then show ?thesis by auto
qed

lemma minus_55_range:
  fixes m :: u8
  assumes "10 \<le> m - 55" and "m - 55 < 16"
  shows "65 \<le> unat m \<and> unat m \<le> 70"
proof -
  have "unat (m - 55) \<in> {10, 11, 12, 13, 14, 15}"
    using assms by (auto simp: word_less_nat_alt word_le_nat_alt)
  then have "m - 55 \<in> {10, 11, 12, 13, 14, 15}"
    by (auto simp: word_unat_eq_iff)
  moreover have "m = (m - 55) + 55"
    by simp
  ultimately have "m \<in> {65, 66, 67, 68, 69, 70}"
    by (auto simp: diff_eq_eq)
  then show ?thesis by auto
qed

lemma ones_u8:
  "255 AND x = (x :: u8)" "ucast (- 1 :: cint) = (255 :: u8)"
  by (rule bit_u8_eqI; simp add: bit_simps)+

lemma hex_char_masks:
  fixes c :: u8
  defines "n \<equiv> c XOR 48" and "a \<equiv> (c AND NOT 32) - 55"
  shows "hex_char (char_of_u8 c) =
    (if n < 10 \<or> (10 \<le> a \<and> a < 16) then 0 else 255,
     (if n < 10 then n else 0) OR (if 10 \<le> a \<and> a < 16 then a else 0))"
proof -
  have n: "ucast ((ucast c :: cint) XOR 48) = n"
    unfolding n_def by (rule bit_u8_eqI) (simp_all add: bit_simps)
  have "ucast ((ucast c :: cint) AND NOT 32) = c AND NOT 32"
    by (rule bit_u8_eqI) (simp_all add: bit_simps)
  then have a: "ucast (((ucast c :: cint) AND NOT 32) - 55) = a"
    unfolding a_def ucast_diff_u8 by simp
  have a0: "ucast (drop_bit 8 (((ucast a :: cint) - 10) XOR (ucast a - 16))) = (if 10 \<le> a \<and> a < 16 then 255 else 0 :: u8)"
    using ct_borrow [of a 10] ct_borrow [of a 16] order_less_trans [of a 10 16]
    by (auto simp: unsigned_xor_eq not_less)
  have n0: "ucast (drop_bit 8 ((ucast n :: cint) - 10)) = (if n < 10 then 255 else 0 :: u8)"
    using ct_borrow [of n 10] by simp
  show ?thesis
    unfolding hex_char_def Let_def u8_of_char_of_u8 n a a0 n0
    by (simp add: ones_u8)
qed

lemma hex_char_eq:
  "hex_char c = (case hex_value c of None \<Rightarrow> (255, 0) | Some v \<Rightarrow> (0, of_nat v))"
proof (cases "hex_value c")
  case None
  let ?c = "u8_of_char c"
  have "\<not> ?c XOR 48 < 10"
    using None xor_48_less_10 [of ?c] by (auto simp: hex_value_def Let_def split: if_splits)
  moreover have "\<not> (10 \<le> (?c AND NOT 32) - 55 \<and> (?c AND NOT 32) - 55 < 16)"
  proof
    assume "10 \<le> (?c AND NOT 32) - 55 \<and> (?c AND NOT 32) - 55 < 16"
    then have "65 \<le> unat (?c AND NOT 32) \<and> unat (?c AND NOT 32) \<le> 70"
      using minus_55_range by blast
    with None and_not_32_range [of ?c] show False
      by (auto simp: hex_value_def Let_def split: if_splits)
  qed
  ultimately show ?thesis
    using None hex_char_masks [of ?c] by simp
next
  case (Some v)
  define w where "w = u8_of_char c"
  have c: "of_char c = unat w"
    by (simp add: w_def)
  have "unat w \<in> {48,49,50,51,52,53,54,55,56,57,65,66,67,68,69,70,97,98,99,100,101,102}"
  proof -
    have "48 \<le> unat w \<and> unat w \<le> 57 \<or> 65 \<le> unat w \<and> unat w \<le> 70 \<or> 97 \<le> unat w \<and> unat w \<le> 102"
      using Some by (auto simp: c hex_value_def Let_def split: if_splits)
    then show ?thesis
      unfolding insert_iff empty_iff by presburger
  qed
  then have w: "w \<in> {48,49,50,51,52,53,54,55,56,57,65,66,67,68,69,70,97,98,99,100,101,102}"
    by (auto simp: word_unat_eq_iff)
  have "hex_char c = hex_char (char_of_u8 w)"
    by (simp add: w_def)
  then show ?thesis
    unfolding hex_char_masks hex_value_def c Let_def using w
    by (elim insertE emptyE) simp_all
qed

lemma hex_digit_eq:
  assumes "n < 16"
  shows "hex_digit (of_nat n) = char_of (if n < 10 then n + 48 else n + 87)"
proof -
  have u: "ucast (of_nat n :: u8) = (of_nat n :: cint)"
    using assms by (simp add: unsigned_of_nat take_bit_nat_eq_self)
  have l: "(of_nat n :: u8) < 10 \<longleftrightarrow> n < 10"
    using assms by (simp add: word_less_nat_alt unat_of_nat take_bit_nat_eq_self)
  have "drop_bit 8 (of_nat n - 10 :: cint) = (if n < 10 then 16777215 else 0)"
    using drop_bit_8_borrow [of "of_nat n" 10] by (simp add: u l)
  then have "hex_digit (of_nat n) = char_of_cint (of_nat (if n < 10 then n + 16777264 else n + 87))"
    by (simp add: hex_digit_def add.commute)
  also have "\<dots> = char_of ((if n < 10 then n + 16777264 else n + 87) mod 256)"
    by (simp only: char_of_cint_of_nat char_of_mod_256)
  also have "(if n < 10 then n + 16777264 else n + 87) mod 256 = (if n < 10 then n + 48 else n + 87)"
    using assms mod_mult_self1 [of "n + 48" 65536 256] by (simp add: add.commute)
  finally show ?thesis .
qed

lemma hex_value_hex_digit: "n < 16 \<Longrightarrow> hex_value (hex_digit (of_nat n)) = Some n"
  by (auto simp: hex_digit_eq hex_value_def Let_def)

lemma hex_value_nibbles:
  fixes b :: u8
  shows hex_value_hi: "hex_value (hex_digit (drop_bit 4 (ucast b))) = Some (unat (drop_bit 4 b))"
    and hex_value_lo: "hex_value (hex_digit (ucast b AND 15)) = Some (unat (b AND 15))"
proof -
  have "unat (drop_bit 4 b) < 16"
    using unsigned_less [of b, where 'a = nat]
    by (simp only: unat_drop_bit_eq) (simp add: drop_bit_eq_div less_mult_imp_div_less)
  moreover have "drop_bit 4 (ucast b) = (of_nat (unat (drop_bit 4 b)) :: cint)"
    by (simp add: of_nat_unat ucast_drop_bit_eq)
  ultimately show "hex_value (hex_digit (drop_bit 4 (ucast b))) = Some (unat (drop_bit 4 b))"
    using hex_value_hex_digit by metis
  have "b AND 15 = take_bit 4 b"
    by (rule bit_u8_eqI) (simp_all add: bit_simps)
  then have "unat (b AND 15) < 16"
    using take_bit_nat_less_exp [of 4 "unat b"] by (simp add: unsigned_take_bit_eq)
  moreover have "ucast b AND 15 = (of_nat (unat (b AND 15)) :: cint)"
    unfolding of_nat_unat by (simp add: unsigned_and_eq)
  ultimately show "hex_value (hex_digit (ucast b AND 15)) = Some (unat (b AND 15))"
    using hex_value_hex_digit by metis
qed

subsection \<open>Whole keys in hexadecimal\<close>

definition hex_key_string :: "string \<Rightarrow> bool" where
  "hex_key_string s \<longleftrightarrow> length s = 64 \<and> (\<forall>i < 64. hex_value (s ! i) \<noteq> None)"

definition hex_bytes :: "string \<Rightarrow> u8 list" where
  "hex_bytes s = map (\<lambda>j. snd (hex_char (s ! (2 * j))) * 16 OR snd (hex_char (s ! (2 * j + 1)))) [0..<32]"

lemma fold_bytes:
  assumes "n \<le> length key"
  shows "fold (\<lambda>j (ret, key). (ret OR e j, key[j := f j])) [0..<n] (r :: u8, key)
    = (fold (\<lambda>j r. r OR e j) [0..<n] r, map f [0..<n] @ drop n key)"
  using assms
proof (induction n)
  case (Suc n)
  then obtain y ys where "drop n key = y # ys" "drop (Suc n) key = ys"
    by (metis Cons_nth_drop_Suc Suc_le_lessD)
  with Suc show ?case
    by (simp add: list_update_append)
qed simp

lemma fst_hex_char: "fst (hex_char c) = 0 \<longleftrightarrow> hex_value c \<noteq> None"
  by (simp add: hex_char_eq split: option.split)

lemma all_less_64:
  "(\<forall>i<64. P i) \<longleftrightarrow> (\<forall>j<32. P (2 * j) \<and> P (2 * j + 1))" for P :: "nat \<Rightarrow> bool"
proof (intro iffI allI impI)
  fix i :: nat
  assume *: "\<forall>j<32. P (2 * j) \<and> P (2 * j + 1)" and "i < 64"
  then have "i div 2 < 32" by simp
  moreover have "i = 2 * (i div 2) \<or> i = 2 * (i div 2) + 1" by presburger
  ultimately show "P i" using * by metis
qed auto

lemma key_from_hex_ok:
  assumes "length key = 32"
  shows "key_from_hex key s = (if length s = 64 then (hex_key_string s, hex_bytes s) else (False, key))"
proof (cases "length s = 64")
  case True
  have "key_from_hex key s = (\<forall>j<32. fst (hex_char (s ! (2 * j))) = 0 \<and> fst (hex_char (s ! (2 * j + 1))) = 0, hex_bytes s)"
    using True assms
    by (simp add: key_from_hex_def Let_def case_prod_unfold or.assoc fold_bytes [unfolded case_prod_unfold] fold_or_eq_0 or_eq_0_iff
        hex_bytes_def Ball_def)
  also have "(\<forall>j<32. fst (hex_char (s ! (2 * j))) = 0 \<and> fst (hex_char (s ! (2 * j + 1))) = 0) \<longleftrightarrow> hex_key_string s"
    using True by (simp only: fst_hex_char hex_key_string_def all_less_64) simp
  finally show ?thesis
    using True by simp
qed (simp add: key_from_hex_def)

lemma take2_drop: "n + 2 \<le> length s \<Longrightarrow> take 2 (drop n s) = [s ! n, s ! (n + 1)]"
  by (simp add: list_eq_iff_nth_eq less_Suc_eq numeral_eq_Suc)

lemma key_to_hex_nth:
  assumes "j < 32"
  shows "key_to_hex key ! (2 * j) = hex_digit (drop_bit 4 (ucast (key ! j)))"
    and "key_to_hex key ! (2 * j + 1) = hex_digit (ucast (key ! j) AND 15)"
proof -
  have l: "length (key_to_hex key) = 64"
    by (simp add: key_to_hex_def length_concat comp_def sum_list_triv)
  have "take 2 (drop (j * 2) (key_to_hex key)) = [hex_digit (drop_bit 4 (ucast (key ! j))), hex_digit (ucast (key ! j) AND 15)]"
    unfolding key_to_hex_def using assms
    by (subst take_drop_concat_groups [where ys = "[]", simplified]) simp_all
  moreover have "take 2 (drop (j * 2) (key_to_hex key)) = [key_to_hex key ! (2 * j), key_to_hex key ! (2 * j + 1)]"
    using l assms take2_drop [of "j * 2" "key_to_hex key"] by (simp add: mult.commute)
  ultimately show "key_to_hex key ! (2 * j) = hex_digit (drop_bit 4 (ucast (key ! j)))"
    "key_to_hex key ! (2 * j + 1) = hex_digit (ucast (key ! j) AND 15)"
    by simp_all
qed

lemma length_key_to_hex [simp]: "length (key_to_hex key) = 64"
  by (simp add: key_to_hex_def length_concat comp_def sum_list_triv)

lemma nibbles_byte: "drop_bit 4 b * 16 OR (b AND 15) = (b :: u8)"
proof -
  have "drop_bit 4 b * 16 = push_bit 4 (drop_bit 4 b)"
    by (simp add: push_bit_eq_mult)
  then show ?thesis
    by (simp only:) (rule bit_u8_eqI; simp add: bit_simps)
qed

lemma hex_key_string_key_to_hex: "hex_key_string (key_to_hex key)"
  unfolding hex_key_string_def all_less_64
  by (simp add: key_to_hex_nth [simplified] hex_value_hi hex_value_lo)

lemma hex_bytes_key_to_hex:
  assumes "length key = 32"
  shows "hex_bytes (key_to_hex key) = key"
proof -
  have "hex_bytes (key_to_hex key) = map ((!) key) [0..<32]"
    unfolding hex_bytes_def
    by (rule map_cong) (simp_all add: key_to_hex_nth [simplified] hex_char_eq hex_value_hi hex_value_lo nibbles_byte)
  also have "\<dots> = key"
    using assms map_nth [of key] by simp
  finally show ?thesis .
qed

lemma key_from_hex_roundtrip:
  assumes "length buf = 32" and "length key = 32"
  shows "key_from_hex buf (key_to_hex key) = (True, key)"
  using assms by (simp add: key_from_hex_ok hex_key_string_key_to_hex hex_bytes_key_to_hex)

lemma key_is_zero_iff:
  assumes "length key = 32"
  shows "key_is_zero key \<longleftrightarrow> key = replicate 32 0"
  using assms by (auto simp: key_is_zero_def fold_or_eq_0 list_eq_iff_nth_eq)

subsection \<open>The contract of a key codec\<close>

text \<open>
  What the configuration reader and the wire protocol rely on, whatever the notation: decoding an
  encoded key gives it back, encoded keys use characters that survive the line formats (no white
  space, no comment character, no line end), and a decoder leaves a 32-byte buffer.
\<close>

definition codec_char :: "char \<Rightarrow> bool" where
  "codec_char c \<longleftrightarrow> b64_value c \<noteq> None \<or> c = CHR ''=''"

locale key_codec =
  fixes enc :: "u8 list \<Rightarrow> string" and dec :: "u8 list \<Rightarrow> string \<Rightarrow> bool \<times> u8 list"
  assumes dec_enc: "length buf = 32 \<Longrightarrow> length key = 32 \<Longrightarrow> dec buf (enc key) = (True, key)"
    and enc_codec_char: "c \<in> set (enc key) \<Longrightarrow> codec_char c"
    and enc_not_Nil: "enc key \<noteq> []"
    and dec_length: "length buf = 32 \<Longrightarrow> length (snd (dec buf s)) = 32"
begin

lemma enc_inject:
  assumes "length k = 32" and "length k' = 32"
  shows "enc k = enc k' \<longleftrightarrow> k = k'"
  by (metis assms dec_enc prod.inject)

lemma not_in_enc: "\<not> codec_char c \<Longrightarrow> c \<notin> set (enc key)"
  using enc_codec_char by blast

lemma filter_enc: "(\<And>c. codec_char c \<Longrightarrow> P c) \<Longrightarrow> filter P (enc key) = enc key"
  using enc_codec_char by (simp add: filter_id_conv)

lemma dec_buffer_irrelevant:
  "length buf = 32 \<Longrightarrow> length buf' = 32 \<Longrightarrow> length key = 32 \<Longrightarrow> dec buf (enc key) = dec buf' (enc key)"
  by (simp add: dec_enc)

end

lemma codec_char_key_to_base64:
  assumes "c \<in> set (key_to_base64 key)"
  shows "codec_char c"
proof -
  have k: "base64_key_string (key_to_base64 key)"
    by (rule base64_key_string_key_to_base64)
  from assms obtain i where i: "i < 44" "c = key_to_base64 key ! i"
    by (auto simp: in_set_conv_nth)
  show ?thesis
  proof (cases "i = 43")
    case True
    with i k show ?thesis by (simp add: base64_key_string_def codec_char_def)
  next
    case False
    with i have "i < 43" by simp
    with i k show ?thesis by (simp add: base64_key_string_def codec_char_def)
  qed
qed

lemma codec_char_key_to_hex:
  assumes "c \<in> set (key_to_hex key)"
  shows "codec_char c"
proof -
  from assms obtain i where "i < 64" "c = key_to_hex key ! i"
    by (auto simp: in_set_conv_nth)
  then have "hex_value c \<noteq> None"
    using hex_key_string_key_to_hex [of key] by (simp add: hex_key_string_def)
  then show ?thesis
    by (auto simp: codec_char_def hex_value_def b64_value_def Let_def split: if_splits)
qed

lemma length_snd_decoders [simp]:
  "length buf = 32 \<Longrightarrow> length (snd (key_from_base64 buf s)) = 32"
  "length buf = 32 \<Longrightarrow> length (snd (key_from_hex buf s)) = 32"
  by (simp_all add: key_from_base64_ok key_from_hex_ok hex_bytes_def)

interpretation b64: key_codec key_to_base64 key_from_base64
  by unfold_locales
     (auto simp: key_from_base64_roundtrip codec_char_key_to_base64 simp flip: length_0_conv)

interpretation hex: key_codec key_to_hex key_from_hex
  by unfold_locales
     (auto simp: key_from_hex_roundtrip codec_char_key_to_hex simp flip: length_0_conv)

subsection \<open>Properties\<close>

text \<open>C1. Base64 keys: the decoder accepts a string with key \<open>k\<close> exactly when \<open>k\<close> is a 32-byte key
  and the string is its encoding. So decoding inverts encoding, nothing else is accepted (wrong
  length, characters outside the alphabet, set spare bits), and no two strings denote one key.\<close>

theorem key_base64_bijection:
  assumes "length buf = WG_KEY_LEN"
  shows "key_from_base64 buf s = (True, k) \<longleftrightarrow> length k = WG_KEY_LEN \<and> s = key_to_base64 k"
proof -
  have l: "length buf = 32" using assms by simp
  show ?thesis
  proof
    assume a: "key_from_base64 buf s = (True, k)"
    then have "base64_key_string s" "k = b64_bytes s"
      using l by (auto simp: key_from_base64_ok split: if_splits)
    then show "length k = WG_KEY_LEN \<and> s = key_to_base64 k"
      by (simp add: key_to_base64_bytes)
  next
    assume "length k = WG_KEY_LEN \<and> s = key_to_base64 k"
    then show "key_from_base64 buf s = (True, k)"
      using b64.dec_enc [OF l] by simp
  qed
qed

theorem key_base64_bijection_witness:
  "length (replicate 32 7 :: u8 list) = WG_KEY_LEN \<and>
   key_from_base64 (replicate 32 7) (key_to_base64 (replicate 32 200)) = (True, replicate 32 200)"
  using key_base64_bijection [of "replicate 32 7" "key_to_base64 (replicate 32 200)" "replicate 32 200"]
  by simp

lemma hex_value_chars: "hex_value c \<noteq> None \<longleftrightarrow> c \<in> set ''0123456789abcdefABCDEF''"
proof -
  have digits: "(of_char ` set ''0123456789abcdefABCDEF'' :: nat set)
      = set [48..<58] \<union> set [65..<71] \<union> set [97..<103]"
    by code_simp
  have "c \<in> set ''0123456789abcdefABCDEF'' \<longleftrightarrow> of_char c \<in> set [48..<58] \<union> set [65..<71] \<union> set [97..<103]"
    by (subst char_in_set_iff) (simp only: digits)
  then show ?thesis
    by (simp only: hex_value_def Let_def Un_iff set_upt atLeastLessThan_iff split: if_split) auto
qed

text \<open>C22. Hexadecimal keys: the decoder accepts exactly the strings of 64 hexadecimal digits, upper
  or lower case, and decoding the encoding of a 32-byte key gives the key.\<close>

theorem key_hex_roundtrip:
  assumes "length buf = WG_KEY_LEN"
  shows "(\<forall>key. length key = WG_KEY_LEN \<longrightarrow> key_from_hex buf (key_to_hex key) = (True, key)) \<and>
    (fst (key_from_hex buf s) \<longleftrightarrow>
      length s = WG_KEY_LEN_HEX - 1 \<and> set s \<subseteq> set ''0123456789abcdefABCDEF'')"
proof
  show "\<forall>key. length key = WG_KEY_LEN \<longrightarrow> key_from_hex buf (key_to_hex key) = (True, key)"
    using assms hex.dec_enc by simp
  show "fst (key_from_hex buf s) \<longleftrightarrow>
      length s = WG_KEY_LEN_HEX - 1 \<and> set s \<subseteq> set ''0123456789abcdefABCDEF''"
    using assms unfolding subset_code(1) hex_value_chars [symmetric]
    by (simp add: key_from_hex_ok hex_key_string_def all_set_conv_all_nth)
qed

theorem key_hex_roundtrip_witness:
  "length (replicate 32 0 :: u8 list) = WG_KEY_LEN \<and>
   key_from_hex (replicate 32 0) (key_to_hex (replicate 32 171)) = (True, replicate 32 171) \<and>
   fst (key_from_hex (replicate 32 0) (replicate 64 (CHR ''B''))) \<and>
   \<not> fst (key_from_hex (replicate 32 0) (replicate 64 (CHR ''g'')))"
  using key_hex_roundtrip [of "replicate 32 0" "replicate 64 (CHR ''B'')"]
    key_hex_roundtrip [of "replicate 32 0" "replicate 64 (CHR ''g'')"]
  by simp

end
