(* ===== verification/Containers.thy ===== *)
theory Containers
  imports C_Library Encoding
begin

unbundle bit_operations_syntax

text \<open>
  The data model shared by every command, from
  \<open>src/tunnel/tools/amneziawg-tools/src/containers.h\<close>: an interface (\<open>wgdevice\<close>) with its peers
  (\<open>wgpeer\<close>) and their allowed addresses (\<open>wgallowedip\<close>).

  A linked list \<open>first_x, x->next_x, \<dots>\<close> is the list of its nodes. A pointer to a node of such a
  list is its index, \<open>NULL\<close> is \<open>None\<close>. The union of an IPv4 and an IPv6 address is its 16 bytes, of
  which an IPv4 address occupies the first four. The union of socket addresses is a datatype whose
  constructor is the address family; \<open>calloc\<close> leaves it \<open>SA_UNSPEC\<close>. A \<open>char *\<close> field is \<open>None\<close> when
  null.
\<close>

subsection \<open>Addresses\<close>

abbreviation AF_UNSPEC :: u16 where "AF_UNSPEC \<equiv> 0"
abbreviation AF_INET :: u16 where "AF_INET \<equiv> 2"
abbreviation AF_INET6 :: u16 where "AF_INET6 \<equiv> 10"

datatype sockaddr =
    SA_UNSPEC
  | is_SA_IN: SA_IN (sin_addr: "u8 list") (sin_port: u16)
  | is_SA_IN6: SA_IN6 (sin6_addr: "u8 list") (sin6_port: u16) (sin6_flowinfo: u32) (sin6_scope_id: u32)

text \<open>\<open>int64_t\<close> fields: the words are read with \<open>sint\<close>.\<close>

record timespec64 =
  tv_sec :: s64
  tv_nsec :: s64

record wgallowedip =
  family :: u16
  ip :: "u8 list"
  cidr :: u8

definition ip4 :: "wgallowedip \<Rightarrow> u8 list" where
  "ip4 a = take 4 (ip a)"

definition ip6 :: "wgallowedip \<Rightarrow> u8 list" where
  "ip6 a = ip a"

subsection \<open>Peers\<close>

definition WGPEER_REMOVE_ME :: u32 where "WGPEER_REMOVE_ME = push_bit 0 1"
definition WGPEER_REPLACE_ALLOWEDIPS :: u32 where "WGPEER_REPLACE_ALLOWEDIPS = push_bit 1 1"
definition WGPEER_HAS_PUBLIC_KEY :: u32 where "WGPEER_HAS_PUBLIC_KEY = push_bit 2 1"
definition WGPEER_HAS_PRESHARED_KEY :: u32 where "WGPEER_HAS_PRESHARED_KEY = push_bit 3 1"
definition WGPEER_HAS_PERSISTENT_KEEPALIVE_INTERVAL :: u32 where
  "WGPEER_HAS_PERSISTENT_KEEPALIVE_INTERVAL = push_bit 4 1"
definition WGPEER_HAS_AWG :: u32 where "WGPEER_HAS_AWG = push_bit 5 1"

record wgpeer =
  flags :: u32
  public_key :: "u8 list"
  preshared_key :: "u8 list"
  endpoint :: sockaddr
  last_handshake_time :: timespec64
  rx_bytes :: u64
  tx_bytes :: u64
  persistent_keepalive_interval :: u16
  awg :: bool
  allowedips :: "wgallowedip list"

subsection \<open>Devices\<close>

definition WGDEVICE_REPLACE_PEERS :: u32 where "WGDEVICE_REPLACE_PEERS = push_bit 0 1"
definition WGDEVICE_HAS_PRIVATE_KEY :: u32 where "WGDEVICE_HAS_PRIVATE_KEY = push_bit 1 1"
definition WGDEVICE_HAS_PUBLIC_KEY :: u32 where "WGDEVICE_HAS_PUBLIC_KEY = push_bit 2 1"
definition WGDEVICE_HAS_LISTEN_PORT :: u32 where "WGDEVICE_HAS_LISTEN_PORT = push_bit 3 1"
definition WGDEVICE_HAS_FWMARK :: u32 where "WGDEVICE_HAS_FWMARK = push_bit 4 1"
definition WGDEVICE_HAS_JC :: u32 where "WGDEVICE_HAS_JC = push_bit 5 1"
definition WGDEVICE_HAS_JMIN :: u32 where "WGDEVICE_HAS_JMIN = push_bit 6 1"
definition WGDEVICE_HAS_JMAX :: u32 where "WGDEVICE_HAS_JMAX = push_bit 7 1"
definition WGDEVICE_HAS_S1 :: u32 where "WGDEVICE_HAS_S1 = push_bit 8 1"
definition WGDEVICE_HAS_S2 :: u32 where "WGDEVICE_HAS_S2 = push_bit 9 1"
definition WGDEVICE_HAS_H1 :: u32 where "WGDEVICE_HAS_H1 = push_bit 10 1"
definition WGDEVICE_HAS_H2 :: u32 where "WGDEVICE_HAS_H2 = push_bit 11 1"
definition WGDEVICE_HAS_H3 :: u32 where "WGDEVICE_HAS_H3 = push_bit 12 1"
definition WGDEVICE_HAS_H4 :: u32 where "WGDEVICE_HAS_H4 = push_bit 13 1"
definition WGDEVICE_HAS_S3 :: u32 where "WGDEVICE_HAS_S3 = push_bit 14 1"
definition WGDEVICE_HAS_S4 :: u32 where "WGDEVICE_HAS_S4 = push_bit 15 1"
definition WGDEVICE_HAS_I1 :: u32 where "WGDEVICE_HAS_I1 = push_bit 16 1"
definition WGDEVICE_HAS_I2 :: u32 where "WGDEVICE_HAS_I2 = push_bit 17 1"
definition WGDEVICE_HAS_I3 :: u32 where "WGDEVICE_HAS_I3 = push_bit 18 1"
definition WGDEVICE_HAS_I4 :: u32 where "WGDEVICE_HAS_I4 = push_bit 19 1"
definition WGDEVICE_HAS_I5 :: u32 where "WGDEVICE_HAS_I5 = push_bit 20 1"

definition MAX_AWG_STRING_LEN :: nat where "MAX_AWG_STRING_LEN = 5 * 1024"

record wgdevice =
  dev_name :: string
  ifindex :: u32
  dev_flags :: u32
  dev_public_key :: "u8 list"
  private_key :: "u8 list"
  fwmark :: u32
  listen_port :: u16
  peers :: "wgpeer list"
  junk_packet_count :: u16
  junk_packet_min_size :: u16
  junk_packet_max_size :: u16
  init_packet_junk_size :: u16
  response_packet_junk_size :: u16
  cookie_reply_packet_junk_size :: u16
  transport_packet_junk_size :: u16
  init_packet_magic_header :: "string option"
  response_packet_magic_header :: "string option"
  underload_packet_magic_header :: "string option"
  transport_packet_magic_header :: "string option"
  i1 :: "string option"
  i2 :: "string option"
  i3 :: "string option"
  i4 :: "string option"
  i5 :: "string option"

text \<open>What \<open>calloc\<close> returns for each structure.\<close>

definition zero_allowedip :: wgallowedip where
  "zero_allowedip = \<lparr>family = AF_UNSPEC, ip = replicate 16 0, cidr = 0\<rparr>"

definition zero_peer :: wgpeer where
  "zero_peer = \<lparr>flags = 0, public_key = replicate WG_KEY_LEN 0, preshared_key = replicate WG_KEY_LEN 0,
     endpoint = SA_UNSPEC, last_handshake_time = \<lparr>tv_sec = 0, tv_nsec = 0\<rparr>, rx_bytes = 0, tx_bytes = 0,
     persistent_keepalive_interval = 0, awg = False, allowedips = []\<rparr>"

definition zero_device :: wgdevice where
  "zero_device = \<lparr>dev_name = [], ifindex = 0, dev_flags = 0, dev_public_key = replicate WG_KEY_LEN 0,
     private_key = replicate WG_KEY_LEN 0, fwmark = 0, listen_port = 0, peers = [],
     junk_packet_count = 0, junk_packet_min_size = 0, junk_packet_max_size = 0,
     init_packet_junk_size = 0, response_packet_junk_size = 0, cookie_reply_packet_junk_size = 0,
     transport_packet_junk_size = 0, init_packet_magic_header = None,
     response_packet_magic_header = None, underload_packet_magic_header = None,
     transport_packet_magic_header = None, i1 = None, i2 = None, i3 = None, i4 = None, i5 = None\<rparr>"

subsection \<open>Linking a node behind a cursor\<close>

text \<open>\<open>if (last) last->next = node; else first = node;\<close> and the cursor moved to the new node.\<close>

definition link_node :: "'a list \<Rightarrow> nat option \<Rightarrow> 'a \<Rightarrow> 'a list" where
  "link_node xs cur x = (case cur of None \<Rightarrow> [x] | Some i \<Rightarrow> take (Suc i) xs @ [x])"

definition linked_cursor :: "nat option \<Rightarrow> nat option" where
  "linked_cursor cur = Some (case cur of None \<Rightarrow> 0 | Some i \<Rightarrow> Suc i)"

text \<open>A cursor kept at the end of its list.\<close>

definition at_end :: "'a list \<Rightarrow> nat option \<Rightarrow> bool" where
  "at_end xs cur = (cur = (if xs = [] then None else Some (length xs - 1)))"

lemma at_end_None [simp]: "at_end xs None \<longleftrightarrow> xs = []"
  by (simp add: at_end_def)

lemma at_end_Some: "at_end xs (Some i) \<longleftrightarrow> xs \<noteq> [] \<and> i = length xs - 1"
  by (auto simp: at_end_def)

lemma link_node_at_end [simp]: "at_end xs cur \<Longrightarrow> link_node xs cur x = xs @ [x]"
  by (auto simp: at_end_def link_node_def)

lemma at_end_linked [simp]: "at_end xs cur \<Longrightarrow> at_end (xs @ [x]) (linked_cursor cur)"
  by (cases xs) (auto simp: at_end_def linked_cursor_def)

subsection \<open>Flag bits\<close>

lemma flag_test [c_flags]: "k < 32 \<Longrightarrow> ((f :: u32) AND push_bit k 1 \<noteq> 0) = bit f k"
  by (simp add: and_exp_eq_0_iff_not_bit push_bit_eq_mult)

lemma flag_test_0 [c_flags]: "k < 32 \<Longrightarrow> ((f :: u32) AND push_bit k 1 = 0) = (\<not> bit f k)"
  using flag_test by blast

lemma flag_test_bit_0 [c_flags]:
  "((f :: u32) AND 1 \<noteq> 0) = bit f 0" "((f :: u32) AND 1 = 0) = (\<not> bit f 0)"
  by (simp_all add: and_one_eq bit_0 odd_iff_mod_2_eq_one)

lemma bit_flag [c_flags]: "bit (push_bit k (1 :: u32)) n \<longleftrightarrow> k = n \<and> n < 32"
  by (auto simp: bit_simps)

lemmas flag_or = bit_or_iff [where 'a = u32, c_flags]

lemmas peer_flag_defs [c_flags] =
  WGPEER_REMOVE_ME_def WGPEER_REPLACE_ALLOWEDIPS_def WGPEER_HAS_PUBLIC_KEY_def
  WGPEER_HAS_PRESHARED_KEY_def WGPEER_HAS_PERSISTENT_KEEPALIVE_INTERVAL_def WGPEER_HAS_AWG_def

lemmas device_flag_defs [c_flags] =
  WGDEVICE_REPLACE_PEERS_def WGDEVICE_HAS_PRIVATE_KEY_def WGDEVICE_HAS_PUBLIC_KEY_def
  WGDEVICE_HAS_LISTEN_PORT_def WGDEVICE_HAS_FWMARK_def WGDEVICE_HAS_JC_def WGDEVICE_HAS_JMIN_def
  WGDEVICE_HAS_JMAX_def WGDEVICE_HAS_S1_def WGDEVICE_HAS_S2_def WGDEVICE_HAS_H1_def
  WGDEVICE_HAS_H2_def WGDEVICE_HAS_H3_def WGDEVICE_HAS_H4_def WGDEVICE_HAS_S3_def
  WGDEVICE_HAS_S4_def WGDEVICE_HAS_I1_def WGDEVICE_HAS_I2_def WGDEVICE_HAS_I3_def
  WGDEVICE_HAS_I4_def WGDEVICE_HAS_I5_def

subsection \<open>Well-formed devices\<close>

definition allowedip_wf :: "wgallowedip \<Rightarrow> bool" where
  "allowedip_wf a = (length (ip a) = 16 \<and>
     (family a = AF_INET \<and> cidr a \<le> 32 \<or> family a = AF_INET6 \<and> cidr a \<le> 128))"

fun sockaddr_wf :: "sockaddr \<Rightarrow> bool" where
  "sockaddr_wf SA_UNSPEC = True"
| "sockaddr_wf (SA_IN a p) = (length a = 4)"
| "sockaddr_wf (SA_IN6 a p f s) = (length a = 16)"

definition peer_wf :: "wgpeer \<Rightarrow> bool" where
  "peer_wf p = (length (public_key p) = WG_KEY_LEN \<and> length (preshared_key p) = WG_KEY_LEN \<and>
     sockaddr_wf (endpoint p) \<and> list_all allowedip_wf (allowedips p))"

text \<open>A string field whose flag is set points to a nonempty string below the length limit.\<close>

definition string_wf :: "bool \<Rightarrow> string option \<Rightarrow> bool" where
  "string_wf present s = (present \<longrightarrow> (case s of None \<Rightarrow> False | Some v \<Rightarrow> v \<noteq> [] \<and> length v < MAX_AWG_STRING_LEN))"

definition strings_wf :: "wgdevice \<Rightarrow> bool" where
  "strings_wf d = (let f = dev_flags d in
     string_wf (bit f 10) (init_packet_magic_header d) \<and>
     string_wf (bit f 11) (response_packet_magic_header d) \<and>
     string_wf (bit f 12) (underload_packet_magic_header d) \<and>
     string_wf (bit f 13) (transport_packet_magic_header d) \<and>
     string_wf (bit f 16) (i1 d) \<and> string_wf (bit f 17) (i2 d) \<and> string_wf (bit f 18) (i3 d) \<and>
     string_wf (bit f 19) (i4 d) \<and> string_wf (bit f 20) (i5 d))"

definition device_wf :: "wgdevice \<Rightarrow> bool" where
  "device_wf d = (length (dev_public_key d) = WG_KEY_LEN \<and> length (private_key d) = WG_KEY_LEN \<and>
     list_all peer_wf (peers d))"

lemma zero_wf [simp]: "peer_wf zero_peer" "device_wf zero_device" "strings_wf zero_device"
  by (simp_all add: peer_wf_def device_wf_def strings_wf_def string_wf_def zero_peer_def
    zero_device_def Let_def)

end
