(* ===== verification/Environment.thy ===== *)
theory Environment
  imports Containers
begin

text \<open>
  What the commands get from outside the sources: the address functions of the C library's
  resolver, the environment variables and the files named on the command line. They are the
  fields of a record that the definitions take as an argument, so every theorem holds for each
  behaviour of them; what a theorem needs of their documented behaviour is a named hypothesis.

  \<open>getaddrinfo\<close> is asked again after a transient failure, so it has the number of the attempt as
  its first argument. Of the list it returns the callers look at the first entry only;
  \<open>Resolved SA_UNSPEC\<close> stands for an entry that is neither an IPv4 nor an IPv6 address.
\<close>

datatype eai = EAI_NONAME | EAI_FAIL | EAI_NODATA | EAI_OTHER int

datatype gai = Resolved sockaddr | Gai_error eai

text \<open>A file that opens: its bytes up to the end, or up to a read error, and whether it has a position \<open>ftell\<close> can tell, as a pipe
  has not.\<close>

record file_data =
  bytes :: string
  read_error :: bool
  seekable :: bool

record env =
  getaddrinfo :: "nat \<Rightarrow> string \<Rightarrow> string \<Rightarrow> gai"
  getaddrinfo_passive :: "string \<Rightarrow> gai"
  getnameinfo :: "sockaddr \<Rightarrow> (string \<times> string) option"
  inet_pton4 :: "string \<Rightarrow> u8 list option"
  inet_pton6 :: "string \<Rightarrow> u8 list option"
  inet_ntop4 :: "u8 list \<Rightarrow> string"
  inet_ntop6 :: "u8 list \<Rightarrow> string"
  getenv :: "string \<Rightarrow> string option"
  fopen :: "string \<Rightarrow> file_data option"

text \<open>The sizes the address functions document: an IPv4 address has four bytes, an IPv6
  address sixteen.\<close>

definition gai_wf :: "gai \<Rightarrow> bool" where
  "gai_wf g = (case g of Resolved a \<Rightarrow> sockaddr_wf a | Gai_error _ \<Rightarrow> True)"

definition env_sizes :: "env \<Rightarrow> bool" where
  "env_sizes env \<longleftrightarrow>
     (\<forall>s a. inet_pton4 env s = Some a \<longrightarrow> length a = 4) \<and>
     (\<forall>s a. inet_pton6 env s = Some a \<longrightarrow> length a = 16) \<and>
     (\<forall>n h s. gai_wf (getaddrinfo env n h s))"

lemma env_sizesD:
  assumes "env_sizes env"
  shows "inet_pton4 env s = Some a \<Longrightarrow> length a = 4"
    and "inet_pton6 env s = Some a \<Longrightarrow> length a = 16"
    and "getaddrinfo env n h s = Resolved sa \<Longrightarrow> sockaddr_wf sa"
  using assms by (auto simp: env_sizes_def gai_wf_def split: gai.splits)

text \<open>An environment to evaluate the definitions in: a resolver that knows a few addresses, no
  environment variables and no files.\<close>

definition sample_env :: env where
  "sample_env =
     \<lparr>getaddrinfo = (\<lambda>n h s. if h = ''192.0.2.1'' then Resolved (SA_IN [192, 0, 2, 1] 51820) else Gai_error EAI_NONAME),
      getaddrinfo_passive = (\<lambda>s. Resolved (SA_IN [0, 0, 0, 0] (of_nat (dec_value s)))),
      getnameinfo = (\<lambda>a. if a = SA_IN [192, 0, 2, 1] 51820 then Some (''192.0.2.1'', ''51820'') else None),
      inet_pton4 = (\<lambda>s. if s = ''10.0.0.0'' then Some [10, 0, 0, 0] else None),
      inet_pton6 = (\<lambda>s. if s = ''::'' then Some (replicate 16 0) else None),
      inet_ntop4 = (\<lambda>a. if a = [10, 0, 0, 0] then ''10.0.0.0'' else []),
      inet_ntop6 = (\<lambda>a. ''::''),
      getenv = (\<lambda>s. None),
      fopen = (\<lambda>s. None)\<rparr>"

lemma sample_env_sizes: "env_sizes sample_env"
  by (simp add: env_sizes_def gai_wf_def sample_env_def)

end
