(* ===== verification/Config.thy ===== *)
theory Config
  imports Environment
begin

unbundle bit_operations_syntax

text \<open>
  The configuration parser, \<open>src/tunnel/tools/amneziawg-tools/src/config.c\<close>: the value parsers,
  the line reader behind \<open>setconf\<close>, \<open>addconf\<close> and \<open>syncconf\<close>, and the argument reader behind
  \<open>set\<close>.

  A parser returns \<open>Inl\<close> an error on the paths on which the code returns \<open>false\<close>, with one
  constructor per message, and \<open>Inr\<close> the values it stores otherwise; \<open>Exit\<close> is \<open>exit(1)\<close>. Every
  caller frees the device when a parser fails, so what a failing parser stored is not observable
  and is not part of its result, except for \<open>parse_key\<close>, which clears the key buffer.
\<close>

datatype config_error =
    Exit string
  | Empty_port
  | Unresolved eai string
  | No_address string
  | Bad_fwmark string
  | Bad_key string
  | No_file string
  | Keyfile_length
  | Keyfile_trailing char
  | Keyfile_read
  | Bad_ip string
  | Empty_endpoint
  | No_brace string
  | No_port string
  | Never_returns
  | Bad_keepalive string
  | Bad_allowedip string
  | String_too_long string
  | Empty_value
  | Bad_bool string
  | Unrecognized string
  | Missing_public_key
  | Invalid_argument string
  | Null_pointer

type_synonym 'a result = "config_error + 'a"

definition map_result :: "('a \<Rightarrow> 'b) \<Rightarrow> 'a result \<Rightarrow> 'b result" where
  "map_result f r = (case r of Inl e \<Rightarrow> Inl e | Inr x \<Rightarrow> Inr (f x))"

definition bind_result :: "'a result \<Rightarrow> ('a \<Rightarrow> 'b result) \<Rightarrow> 'b result" where
  "bind_result r f = (case r of Inl e \<Rightarrow> Inl e | Inr x \<Rightarrow> f x)"

subsection \<open>Values\<close>

definition get_value :: "string \<Rightarrow> string \<Rightarrow> string option" where
  "get_value line key =
     (if length key \<ge> length line then None
      else if \<not> strncasecmp_eq line key (length key) then None
      else Some (drop (length key) line))"

definition parse_port :: "env \<Rightarrow> u32 \<Rightarrow> string \<Rightarrow> (u16 \<times> u32) result" where
  "parse_port env fl val =
     (if val = [] then Inl Empty_port
      else case getaddrinfo_passive env val of
        Gai_error e \<Rightarrow> Inl (Unresolved e val)
      | Resolved (SA_IN a p) \<Rightarrow> Inr (p, fl OR WGDEVICE_HAS_LISTEN_PORT)
      | Resolved (SA_IN6 a p f s) \<Rightarrow> Inr (p, fl OR WGDEVICE_HAS_LISTEN_PORT)
      | Resolved SA_UNSPEC \<Rightarrow> Inl (No_address val))"

definition parse_fwmark :: "u32 \<Rightarrow> string \<Rightarrow> (u32 \<times> u32) result" where
  "parse_fwmark fl val =
     (if strcasecmp_eq val ''off'' then Inr (0, fl OR WGDEVICE_HAS_FWMARK)
      else if \<not> char_is_digit (first_char val) then Inl (Bad_fwmark val)
      else let base = (if length val > 2 \<and> val ! 0 = CHR ''0'' \<and> val ! 1 = CHR ''x'' then 16 else 10);
               (ret, end) = strtoul base val
           in if end \<noteq> [] \<or> ret > 0xFFFFFFFF then Inl (Bad_fwmark val)
              else Inr (ucast ret, fl OR WGDEVICE_HAS_FWMARK))"

definition parse_key :: "u8 list \<Rightarrow> string \<Rightarrow> bool \<times> u8 list" where
  "parse_key key val =
     (case key_from_base64 key val of
        (True, key') \<Rightarrow> (True, key')
      | (False, _) \<Rightarrow> (False, replicate WG_KEY_LEN 0))"

definition key_result :: "string \<Rightarrow> bool \<times> u8 list \<Rightarrow> u8 list result" where
  "key_result val r = (if fst r then Inr (snd r) else Inl (Bad_key val))"

text \<open>\<open>dst\<close> holds the first 44 bytes and a NUL, so as a string it ends at the first NUL byte.\<close>

definition parse_keyfile :: "env \<Rightarrow> u8 list \<Rightarrow> string \<Rightarrow> u8 list result" where
  "parse_keyfile env key path =
     (case fopen env path of
        None \<Rightarrow> Inl (No_file path)
      | Some f \<Rightarrow>
          if length (bytes f) < WG_KEY_LEN_BASE64 - 1 then
            (if \<not> read_error f \<and> bytes f = [] \<and> seekable f then Inr (replicate WG_KEY_LEN 0)
             else Inl Keyfile_length)
          else let dst = takeWhile (\<lambda>c. c \<noteq> CHR 0x00) (take (WG_KEY_LEN_BASE64 - 1) (bytes f))
               in case dropWhile (\<lambda>c. char_is_space (uchar c)) (drop (WG_KEY_LEN_BASE64 - 1) (bytes f)) of
                    c # _ \<Rightarrow> Inl (Keyfile_trailing c)
                  | [] \<Rightarrow> if read_error f then Inl Keyfile_read
                          else key_result dst (parse_key key dst))"

definition parse_ip :: "env \<Rightarrow> wgallowedip \<Rightarrow> string \<Rightarrow> wgallowedip result" where
  "parse_ip env a val =
     (if strchr val CHR '':'' \<noteq> None then
        (case inet_pton6 env val of
           Some bs \<Rightarrow> Inr (a\<lparr>family := AF_INET6, ip := bs\<rparr>)
         | None \<Rightarrow> Inl (Bad_ip val))
      else
        (case inet_pton4 env val of
           Some bs \<Rightarrow> Inr (a\<lparr>family := AF_INET, ip := bs @ drop 4 (ip a)\<rparr>)
         | None \<Rightarrow> Inl (Bad_ip val)))"

subsection \<open>Endpoints\<close>

definition parse_dns_retries :: "env \<Rightarrow> int result" where
  "parse_dns_retries env =
     (case getenv env ''WG_ENDPOINT_RESOLUTION_RETRIES'' of
        None \<Rightarrow> Inr 15
      | Some retries \<Rightarrow>
          if retries = ''infinity'' then Inr (- 1)
          else let (ret, end) = strtoul 10 retries
               in if end \<noteq> [] \<or> ret > 0x7FFFFFFF then Inl (Exit retries) else Inr (uint ret))"

definition split_endpoint :: "string \<Rightarrow> (string \<times> string) result" where
  "split_endpoint val =
     (if hd val = CHR ''['' then
        (case strchr val CHR '']'' of
           None \<Rightarrow> Inl (No_brace val)
         | Some e \<Rightarrow>
             (case tl e of
                c # port \<Rightarrow> if c \<noteq> CHR '':'' \<or> port = [] then Inl (No_port val)
                            else Inr (takeWhile (\<lambda>c. c \<noteq> CHR '']'') (tl val), port)
              | [] \<Rightarrow> Inl (No_port val)))
      else
        (case strrchr val CHR '':'' of
           None \<Rightarrow> Inl (No_port val)
         | Some (host, e) \<Rightarrow> if tl e = [] then Inl (No_port val) else Inr (host, tl e)))"

text \<open>The retry loop: the number of retries left (negative: no limit), the number of the attempt,
  the next pause in microseconds, and the pauses made so far. It is \<open>None\<close> when it never returns.\<close>

partial_function (option) resolve_endpoint ::
  "env \<Rightarrow> string \<Rightarrow> string \<Rightarrow> int \<Rightarrow> nat \<Rightarrow> u32 \<Rightarrow> u32 list \<Rightarrow> (gai \<times> u32 list) option" where
  "resolve_endpoint env host serv retries n timeout slept =
     (case getaddrinfo env n host serv of
        Resolved a \<Rightarrow> Some (Resolved a, slept)
      | Gai_error e \<Rightarrow>
          if e = EAI_NONAME \<or> e = EAI_FAIL \<or> e = EAI_NODATA \<or> retries = 0
          then Some (Gai_error e, slept)
          else resolve_endpoint env host serv (if retries \<ge> 0 then retries - 1 else retries) (Suc n)
                 (min 20000000 (timeout * 6 div 5)) (slept @ [timeout]))"

definition resolved_endpoint :: "string \<Rightarrow> gai \<Rightarrow> sockaddr result" where
  "resolved_endpoint val g =
     (case g of
        Gai_error e \<Rightarrow> Inl (Unresolved e val)
      | Resolved a \<Rightarrow> if a = SA_UNSPEC then Inl (No_address val) else Inr a)"

definition parse_endpoint :: "env \<Rightarrow> string \<Rightarrow> sockaddr result" where
  "parse_endpoint env val =
     bind_result (parse_dns_retries env) (\<lambda>retries.
       if val = [] then Inl Empty_endpoint
       else bind_result (split_endpoint val) (\<lambda>(host, port).
         case resolve_endpoint env host port retries 0 1000000 [] of
           None \<Rightarrow> Inl Never_returns
         | Some (g, slept) \<Rightarrow> resolved_endpoint val g))"

definition parse_persistent_keepalive :: "u32 \<Rightarrow> string \<Rightarrow> (u16 \<times> u32) result" where
  "parse_persistent_keepalive fl val =
     (if strcasecmp_eq val ''off'' then Inr (0, fl OR WGPEER_HAS_PERSISTENT_KEEPALIVE_INTERVAL)
      else if \<not> char_is_digit (first_char val) then Inl (Bad_keepalive val)
      else let (ret, end) = strtoul 10 val
           in if end \<noteq> [] \<or> ret > 65535 then Inl (Bad_keepalive val)
              else Inr (ucast ret, fl OR WGPEER_HAS_PERSISTENT_KEEPALIVE_INTERVAL))"

subsection \<open>Allowed addresses\<close>

text \<open>\<open>ntohl(ip[i])\<close>.\<close>

definition be32 :: "u8 list \<Rightarrow> nat \<Rightarrow> u32" where
  "be32 bs i = push_bit 24 (ucast (bs ! (4 * i))) OR push_bit 16 (ucast (bs ! (4 * i + 1))) OR
     push_bit 8 (ucast (bs ! (4 * i + 2))) OR ucast (bs ! (4 * i + 3))"

fun validate_words :: "u8 list \<Rightarrow> nat \<Rightarrow> nat \<Rightarrow> bool" where
  "validate_words bs c 0 = True"
| "validate_words bs c (Suc i) =
     (if c \<ge> 32 * (i + 1) then True
      else let mask = (if c > 32 * i then drop_bit (c - 32 * i) (- 1) else - 1)
           in if be32 bs i AND mask \<noteq> 0 then False else validate_words bs c i)"

definition validate_netmask :: "wgallowedip \<Rightarrow> bool" where
  "validate_netmask a =
     (if family a = AF_INET then validate_words (ip a) (unat (cidr a)) 1
      else if family a = AF_INET6 then validate_words (ip a) (unat (cidr a)) 4
      else True)"

text \<open>The prefix length of an entry; \<open>msk\<close> is \<open>None\<close> where the pointer is null.\<close>

definition parse_cidr :: "u16 \<Rightarrow> string option \<Rightarrow> string \<Rightarrow> u64 result" where
  "parse_cidr fam msk saved_entry =
     (case msk of
        Some m \<Rightarrow>
          if \<not> char_is_digit (first_char m) then Inl (Bad_allowedip saved_entry)
          else let (cidr, end) = strtoul 10 m
               in if end \<noteq> [] \<or> (cidr > 32 \<and> fam = AF_INET) \<or> (cidr > 128 \<and> fam = AF_INET6)
                  then Inl (Bad_allowedip saved_entry) else Inr cidr
      | None \<Rightarrow>
          if fam = AF_INET then Inr 32
          else if fam = AF_INET6 then Inr 128
          else Inl (Bad_allowedip saved_entry))"

text \<open>One comma-separated entry: the new node, and the operands of the warning about a nonzero host
  part when it is printed.\<close>

definition parse_allowedip_entry ::
  "env \<Rightarrow> string \<Rightarrow> (wgallowedip \<times> (string \<times> string option) list) result" where
  "parse_allowedip_entry env saved_entry =
     (let (ip, mask) = strsep saved_entry CHR ''/''
      in bind_result (parse_ip env zero_allowedip ip) (\<lambda>a.
           map_result
             (\<lambda>cidr. let a' = a\<lparr>cidr := ucast cidr\<rparr>
                     in (a', if validate_netmask a' then [] else [(ip, mask)]))
             (parse_cidr (family a) mask saved_entry)))"

function parse_allowedip_entries ::
  "env \<Rightarrow> wgallowedip list \<Rightarrow> nat option \<Rightarrow> string option
     \<Rightarrow> (wgallowedip list \<times> nat option \<times> (string \<times> string option) list) result" where
  "parse_allowedip_entries env as cur None = Inr (as, cur, [])"
| "parse_allowedip_entries env as cur (Some s) =
     (let (entry, sep) = strsep s CHR '',''
      in bind_result (parse_allowedip_entry env entry) (\<lambda>(a, warning).
           map_result (\<lambda>(as', cur', warnings). (as', cur', warning @ warnings))
             (parse_allowedip_entries env (link_node as cur a) (linked_cursor cur) sep)))"
  by pat_completeness auto
termination
  by (relation "measure (\<lambda>(env, as, cur, s). case s of None \<Rightarrow> 0 | Some s \<Rightarrow> Suc (length s))")
     (auto dest: strsep_rest_less [OF sym] split: option.splits)

definition parse_allowedips ::
  "env \<Rightarrow> wgpeer \<Rightarrow> nat option \<Rightarrow> string
     \<Rightarrow> (wgpeer \<times> nat option \<times> (string \<times> string option) list) result" where
  "parse_allowedips env peer last_allowedip val =
     (let peer = peer\<lparr>flags := flags peer OR WGPEER_REPLACE_ALLOWEDIPS\<rparr>
      in if val = [] then Inr (peer, last_allowedip, [])
         else map_result (\<lambda>(as, cur, warnings). (peer\<lparr>allowedips := as\<rparr>, cur, warnings))
                (parse_allowedip_entries env (allowedips peer) last_allowedip (Some val)))"

subsection \<open>Obfuscation parameters\<close>

definition parse_awg_string :: "string \<Rightarrow> string \<Rightarrow> string option result" where
  "parse_awg_string name val =
     (if val = [] then Inr None
      else if length val \<ge> MAX_AWG_STRING_LEN then Inl (String_too_long name)
      else Inr (Some val))"

text \<open>The result of \<open>strtoul\<close> is stored into a \<open>uint32_t\<close> before it is compared.\<close>

definition parse_uint16 :: "string \<Rightarrow> string \<Rightarrow> u16 result" where
  "parse_uint16 name val =
     (if val = [] then Inl Empty_value
      else let (l, end) = strtoul 10 val; ret = ucast l :: u32
           in if end \<noteq> [] \<or> ret > 65535 then Inl (Exit val) else Inr (ucast ret))"

definition parse_bool :: "string \<Rightarrow> string \<Rightarrow> bool result" where
  "parse_bool name val =
     (if val = [] then Inl Empty_value
      else if strcasecmp_eq val ''off'' then Inr False
      else if strcasecmp_eq val ''on'' then Inr True
      else if \<not> char_is_digit (first_char val) then Inl (Bad_bool val)
      else let (l, end) = strtoul 10 val; ret = ucast l :: u32
           in if end \<noteq> [] then Inl (Exit val) else Inr (ret \<noteq> 0))"

subsection \<open>Lines of a configuration file\<close>

record config_ctx =
  device :: wgdevice
  last_peer :: "nat option"
  last_allowedip :: "nat option"
  is_peer_section :: bool
  is_device_section :: bool

text \<open>\<open>if (ret) device->flags |= fl\<close> after a parser stored its value with \<open>upd\<close>.\<close>

definition set_flagged ::
  "u32 \<Rightarrow> (('a \<Rightarrow> 'a) \<Rightarrow> wgdevice \<Rightarrow> wgdevice) \<Rightarrow> wgdevice \<Rightarrow> 'a result \<Rightarrow> wgdevice result" where
  "set_flagged fl upd d r = map_result (\<lambda>v. (upd (\<lambda>_. v) d)\<lparr>dev_flags := dev_flags d OR fl\<rparr>) r"

text \<open>The \<open>if (key_match(k)) \<dots> else if \<dots> else goto error\<close> chain.\<close>

fun key_match :: "(string \<times> (string \<Rightarrow> 'a result)) list \<Rightarrow> string \<Rightarrow> 'a result" where
  "key_match [] line = Inl (Unrecognized line)"
| "key_match ((key, handler) # rest) line =
     (case get_value line key of Some v \<Rightarrow> handler v | None \<Rightarrow> key_match rest line)"

definition process_device_line :: "env \<Rightarrow> wgdevice \<Rightarrow> string \<Rightarrow> wgdevice result" where
  "process_device_line env d line =
     key_match
     [(''ListenPort='', \<lambda>v. map_result (\<lambda>(p, f). d\<lparr>listen_port := p, dev_flags := f\<rparr>) (parse_port env (dev_flags d) v)),
      (''FwMark='', \<lambda>v. map_result (\<lambda>(m, f). d\<lparr>fwmark := m, dev_flags := f\<rparr>) (parse_fwmark (dev_flags d) v)),
      (''PrivateKey='', \<lambda>v. set_flagged WGDEVICE_HAS_PRIVATE_KEY private_key_update d
                   (key_result v (parse_key (private_key d) v))),
      (''Jc='', \<lambda>v. set_flagged WGDEVICE_HAS_JC junk_packet_count_update d (parse_uint16 ''Jc'' v)),
      (''Jmin='', \<lambda>v. set_flagged WGDEVICE_HAS_JMIN junk_packet_min_size_update d (parse_uint16 ''Jmin'' v)),
      (''Jmax='', \<lambda>v. set_flagged WGDEVICE_HAS_JMAX junk_packet_max_size_update d (parse_uint16 ''Jmax'' v)),
      (''S1='', \<lambda>v. set_flagged WGDEVICE_HAS_S1 init_packet_junk_size_update d (parse_uint16 ''S1'' v)),
      (''S2='', \<lambda>v. set_flagged WGDEVICE_HAS_S2 response_packet_junk_size_update d (parse_uint16 ''S2'' v)),
      (''S3='', \<lambda>v. set_flagged WGDEVICE_HAS_S3 cookie_reply_packet_junk_size_update d (parse_uint16 ''S3'' v)),
      (''S4='', \<lambda>v. set_flagged WGDEVICE_HAS_S4 transport_packet_junk_size_update d (parse_uint16 ''S4'' v)),
      (''H1='', \<lambda>v. set_flagged WGDEVICE_HAS_H1 init_packet_magic_header_update d (parse_awg_string ''H1'' v)),
      (''H2='', \<lambda>v. set_flagged WGDEVICE_HAS_H2 response_packet_magic_header_update d (parse_awg_string ''H2'' v)),
      (''H3='', \<lambda>v. set_flagged WGDEVICE_HAS_H3 underload_packet_magic_header_update d (parse_awg_string ''H3'' v)),
      (''H4='', \<lambda>v. set_flagged WGDEVICE_HAS_H4 transport_packet_magic_header_update d (parse_awg_string ''H4'' v)),
      (''I1='', \<lambda>v. set_flagged WGDEVICE_HAS_I1 i1_update d (parse_awg_string ''I1'' v)),
      (''I2='', \<lambda>v. set_flagged WGDEVICE_HAS_I2 i2_update d (parse_awg_string ''I2'' v)),
      (''I3='', \<lambda>v. set_flagged WGDEVICE_HAS_I3 i3_update d (parse_awg_string ''I3'' v)),
      (''I4='', \<lambda>v. set_flagged WGDEVICE_HAS_I4 i4_update d (parse_awg_string ''I4'' v)),
      (''I5='', \<lambda>v. set_flagged WGDEVICE_HAS_I5 i5_update d (parse_awg_string ''I5'' v))] line"

definition process_peer_line ::
  "env \<Rightarrow> wgpeer \<Rightarrow> nat option \<Rightarrow> string \<Rightarrow> (wgpeer \<times> nat option) result" where
  "process_peer_line env p cur line =
     key_match
     [(''Endpoint='', \<lambda>v. map_result (\<lambda>a. (p\<lparr>endpoint := a\<rparr>, cur)) (parse_endpoint env v)),
      (''PublicKey='', \<lambda>v. map_result (\<lambda>k. (p\<lparr>public_key := k, flags := flags p OR WGPEER_HAS_PUBLIC_KEY\<rparr>, cur))
                   (key_result v (parse_key (public_key p) v))),
      (''AllowedIPs='', \<lambda>v. map_result (\<lambda>(p', cur', warnings). (p', cur')) (parse_allowedips env p cur v)),
      (''PersistentKeepalive='', \<lambda>v. map_result (\<lambda>(i, f). (p\<lparr>persistent_keepalive_interval := i, flags := f\<rparr>, cur))
                   (parse_persistent_keepalive (flags p) v)),
      (''PresharedKey='', \<lambda>v. map_result (\<lambda>k. (p\<lparr>preshared_key := k, flags := flags p OR WGPEER_HAS_PRESHARED_KEY\<rparr>, cur))
                   (key_result v (parse_key (preshared_key p) v))),
      (''AdvancedSecurity='', \<lambda>v. map_result (\<lambda>b. (p\<lparr>awg := b, flags := flags p OR WGPEER_HAS_AWG\<rparr>, cur))
                   (parse_bool ''AdvancedSecurity'' v))] line"

text \<open>Running an operation on the peer the cursor points to; following a null cursor is the
  error \<open>Null_pointer\<close>.\<close>

definition with_peer ::
  "wgdevice \<Rightarrow> nat option \<Rightarrow> (wgpeer \<Rightarrow> (wgpeer \<times> 'a) result) \<Rightarrow> (wgdevice \<times> 'a) result" where
  "with_peer d cur f =
     (case cur of
        None \<Rightarrow> Inl Null_pointer
      | Some i \<Rightarrow> map_result (\<lambda>(p, x). (d\<lparr>peers := (peers d)[i := p]\<rparr>, x)) (f (peers d ! i)))"

definition process_line :: "env \<Rightarrow> config_ctx \<Rightarrow> string \<Rightarrow> config_ctx result" where
  "process_line env ctx line =
     (if strcasecmp_eq line ''[Interface]'' then
        Inr (ctx\<lparr>is_peer_section := False, is_device_section := True\<rparr>)
      else if strcasecmp_eq line ''[Peer]'' then
        let new_peer = zero_peer\<lparr>flags := flags zero_peer OR WGPEER_REPLACE_ALLOWEDIPS\<rparr>;
            d = device ctx
        in Inr (ctx\<lparr>last_allowedip := None,
                    device := d\<lparr>peers := link_node (peers d) (last_peer ctx) new_peer\<rparr>,
                    last_peer := linked_cursor (last_peer ctx),
                    is_peer_section := True, is_device_section := False\<rparr>)
      else if is_device_section ctx then
        map_result (\<lambda>d. ctx\<lparr>device := d\<rparr>) (process_device_line env (device ctx) line)
      else if is_peer_section ctx then
        map_result (\<lambda>(d, cur). ctx\<lparr>device := d, last_allowedip := cur\<rparr>)
          (with_peer (device ctx) (last_peer ctx)
             (\<lambda>p. process_peer_line env p (last_allowedip ctx) line))
      else Inl (Unrecognized line))"

definition awg_special_handshake_keys :: "string list" where
  "awg_special_handshake_keys = [''I1'', ''I2'', ''I3'', ''I4'', ''I5'']"

fun clean_key_value :: "bool \<Rightarrow> bool \<Rightarrow> string \<Rightarrow> string" where
  "clean_key_value found_equals found_value_start [] = []"
| "clean_key_value found_equals found_value_start (c # cs) =
     (if \<not> found_equals then
        if c = CHR ''='' then c # clean_key_value True found_value_start cs
        else if \<not> isspace_char c then c # clean_key_value found_equals found_value_start cs
        else clean_key_value found_equals found_value_start cs
      else if \<not> found_value_start then
        if \<not> isspace_char c then c # clean_key_value found_equals True cs
        else clean_key_value found_equals found_value_start cs
      else c # clean_key_value found_equals found_value_start cs)"

definition clean_special_handshake_line :: "string \<Rightarrow> nat \<Rightarrow> string" where
  "clean_special_handshake_line input len =
     (let trimmed = rev (dropWhile isspace_char (rev (take len input)))
      in clean_key_value False False trimmed)"

definition config_read_line :: "env \<Rightarrow> config_ctx \<Rightarrow> string \<Rightarrow> config_ctx result" where
  "config_read_line env ctx input =
     (let len = (case strchr input CHR ''#'' of
                   Some comment \<Rightarrow> length input - length comment
                 | None \<Rightarrow> length input);
          is_special = list_ex (\<lambda>k. strncasecmp_eq input k 2) awg_special_handshake_keys;
          line = (if is_special then clean_special_handshake_line input len
                  else filter (\<lambda>c. \<not> isspace_char c) (take len input))
      in if line = [] then Inr ctx else process_line env ctx line)"

definition config_read_init :: "bool \<Rightarrow> config_ctx" where
  "config_read_init app =
     (let d = zero_device
      in \<lparr>device = (if app then d
                    else d\<lparr>dev_flags := dev_flags d OR
                      (WGDEVICE_REPLACE_PEERS OR WGDEVICE_HAS_PRIVATE_KEY OR WGDEVICE_HAS_FWMARK)\<rparr>),
          last_peer = None, last_allowedip = None, is_peer_section = False, is_device_section = False\<rparr>)"

definition config_read_finish :: "config_ctx \<Rightarrow> wgdevice result" where
  "config_read_finish ctx =
     (if list_all (\<lambda>p. flags p AND WGPEER_HAS_PUBLIC_KEY \<noteq> 0) (peers (device ctx))
      then Inr (device ctx) else Inl Missing_public_key)"

subsection \<open>Arguments of the set command\<close>

definition strip_spaces :: "string \<Rightarrow> string" where
  "strip_spaces s = filter (\<lambda>c. \<not> isspace_char c) s"

record cmd_state =
  cmd_device :: wgdevice
  cmd_peer :: "nat option"
  cmd_allowedip :: "nat option"

text \<open>The arguments that take a value: before the first \<open>peer\<close>, and after it.\<close>

definition cmd_device_args :: "env \<Rightarrow> wgdevice \<Rightarrow> (string \<times> (string \<Rightarrow> wgdevice result)) list" where
  "cmd_device_args env d =
     [(''listen-port'', \<lambda>v. map_result (\<lambda>(p, f). d\<lparr>listen_port := p, dev_flags := f\<rparr>) (parse_port env (dev_flags d) v)),
      (''fwmark'', \<lambda>v. map_result (\<lambda>(m, f). d\<lparr>fwmark := m, dev_flags := f\<rparr>) (parse_fwmark (dev_flags d) v)),
      (''private-key'', \<lambda>v. set_flagged WGDEVICE_HAS_PRIVATE_KEY private_key_update d
         (parse_keyfile env (private_key d) v)),
      (''jc'', \<lambda>v. set_flagged WGDEVICE_HAS_JC junk_packet_count_update d (parse_uint16 ''jc'' v)),
      (''jmin'', \<lambda>v. set_flagged WGDEVICE_HAS_JMIN junk_packet_min_size_update d (parse_uint16 ''jmin'' v)),
      (''jmax'', \<lambda>v. set_flagged WGDEVICE_HAS_JMAX junk_packet_max_size_update d (parse_uint16 ''jmax'' v)),
      (''s1'', \<lambda>v. set_flagged WGDEVICE_HAS_S1 init_packet_junk_size_update d (parse_uint16 ''s1'' v)),
      (''s2'', \<lambda>v. set_flagged WGDEVICE_HAS_S2 response_packet_junk_size_update d (parse_uint16 ''s2'' v)),
      (''s3'', \<lambda>v. set_flagged WGDEVICE_HAS_S3 cookie_reply_packet_junk_size_update d (parse_uint16 ''s3'' v)),
      (''s4'', \<lambda>v. set_flagged WGDEVICE_HAS_S4 transport_packet_junk_size_update d (parse_uint16 ''s4'' v)),
      (''h1'', \<lambda>v. set_flagged WGDEVICE_HAS_H1 init_packet_magic_header_update d (parse_awg_string ''h1'' v)),
      (''h2'', \<lambda>v. set_flagged WGDEVICE_HAS_H2 response_packet_magic_header_update d (parse_awg_string ''h2'' v)),
      (''h3'', \<lambda>v. set_flagged WGDEVICE_HAS_H3 underload_packet_magic_header_update d (parse_awg_string ''h3'' v)),
      (''h4'', \<lambda>v. set_flagged WGDEVICE_HAS_H4 transport_packet_magic_header_update d (parse_awg_string ''h4'' v)),
      (''i1'', \<lambda>v. set_flagged WGDEVICE_HAS_I1 i1_update d (parse_awg_string ''i1'' v)),
      (''i2'', \<lambda>v. set_flagged WGDEVICE_HAS_I2 i2_update d (parse_awg_string ''i2'' v)),
      (''i3'', \<lambda>v. set_flagged WGDEVICE_HAS_I3 i3_update d (parse_awg_string ''i3'' v)),
      (''i4'', \<lambda>v. set_flagged WGDEVICE_HAS_I4 i4_update d (parse_awg_string ''i4'' v)),
      (''i5'', \<lambda>v. set_flagged WGDEVICE_HAS_I5 i5_update d (parse_awg_string ''i5'' v))]"

definition cmd_peer_args ::
  "env \<Rightarrow> (string \<times> (string \<Rightarrow> wgpeer \<Rightarrow> nat option \<Rightarrow> (wgpeer \<times> nat option) result)) list" where
  "cmd_peer_args env =
     [(''endpoint'', \<lambda>v p cur. map_result (\<lambda>a. (p\<lparr>endpoint := a\<rparr>, cur)) (parse_endpoint env v)),
      (''allowed-ips'', \<lambda>v p cur. map_result (\<lambda>(p', cur', warnings). (p', cur'))
         (parse_allowedips env p cur (strip_spaces v))),
      (''persistent-keepalive'', \<lambda>v p cur. map_result
         (\<lambda>(i, f). (p\<lparr>persistent_keepalive_interval := i, flags := f\<rparr>, cur))
         (parse_persistent_keepalive (flags p) v)),
      (''preshared-key'', \<lambda>v p cur. map_result
         (\<lambda>k. (p\<lparr>preshared_key := k, flags := flags p OR WGPEER_HAS_PRESHARED_KEY\<rparr>, cur))
         (parse_keyfile env (preshared_key p) v)),
      (''advanced-security'', \<lambda>v p cur. map_result
         (\<lambda>b. (p\<lparr>awg := b, flags := flags p OR WGPEER_HAS_AWG\<rparr>, cur))
         (parse_bool ''AdvancedSecurity'' v))]"

text \<open>\<open>peer\<close> links a new peer and reads its public key; \<open>remove\<close> marks the current peer.\<close>

definition cmd_new_peer :: "cmd_state \<Rightarrow> string \<Rightarrow> cmd_state result" where
  "cmd_new_peer st v =
     (let d = (cmd_device st)\<lparr>peers := link_node (peers (cmd_device st)) (cmd_peer st) zero_peer\<rparr>;
          cur = linked_cursor (cmd_peer st)
      in map_result (\<lambda>(d, a). st\<lparr>cmd_device := d, cmd_peer := cur, cmd_allowedip := a\<rparr>)
           (with_peer d cur (\<lambda>p. map_result
              (\<lambda>k. (p\<lparr>public_key := k, flags := flags p OR WGPEER_HAS_PUBLIC_KEY\<rparr>, None))
              (key_result v (parse_key (public_key p) v)))))"

definition cmd_at_peer ::
  "cmd_state \<Rightarrow> (wgpeer \<Rightarrow> nat option \<Rightarrow> (wgpeer \<times> nat option) result) \<Rightarrow> cmd_state result" where
  "cmd_at_peer st f =
     map_result (\<lambda>(d, a). st\<lparr>cmd_device := d, cmd_allowedip := a\<rparr>)
       (with_peer (cmd_device st) (cmd_peer st) (\<lambda>p. f p (cmd_allowedip st)))"

text \<open>One turn of the loop: the new state and the number of arguments used up after the first.\<close>

definition config_read_cmd_step ::
  "env \<Rightarrow> cmd_state \<Rightarrow> string \<Rightarrow> string list \<Rightarrow> (cmd_state \<times> nat) result" where
  "config_read_cmd_step env st arg rest =
     (case (if rest \<noteq> [] \<and> cmd_peer st = None then map_of (cmd_device_args env (cmd_device st)) arg else None) of
        Some handler \<Rightarrow> map_result (\<lambda>d. (st\<lparr>cmd_device := d\<rparr>, 1)) (handler (hd rest))
      | None \<Rightarrow>
          if arg = ''peer'' \<and> rest \<noteq> [] then map_result (\<lambda>st. (st, 1)) (cmd_new_peer st (hd rest))
          else if arg = ''remove'' \<and> cmd_peer st \<noteq> None then
            map_result (\<lambda>st. (st, 0))
              (cmd_at_peer st (\<lambda>p a. Inr (p\<lparr>flags := flags p OR WGPEER_REMOVE_ME\<rparr>, a)))
          else (case (if rest \<noteq> [] \<and> cmd_peer st \<noteq> None then map_of (cmd_peer_args env) arg else None) of
                  Some handler \<Rightarrow> map_result (\<lambda>st. (st, 1)) (cmd_at_peer st (handler (hd rest)))
                | None \<Rightarrow> Inl (Invalid_argument arg)))"

function config_read_cmd_loop :: "env \<Rightarrow> cmd_state \<Rightarrow> string list \<Rightarrow> wgdevice result" where
  "config_read_cmd_loop env st [] = Inr (cmd_device st)"
| "config_read_cmd_loop env st (arg # rest) =
     (case config_read_cmd_step env st arg rest of
        Inl e \<Rightarrow> Inl e
      | Inr (st', n) \<Rightarrow> config_read_cmd_loop env st' (drop n rest))"
  by pat_completeness auto
termination
  by (relation "measure (\<lambda>(env, st, argv). length argv)") auto

definition config_read_cmd :: "env \<Rightarrow> string list \<Rightarrow> wgdevice result" where
  "config_read_cmd env argv =
     config_read_cmd_loop env \<lparr>cmd_device = zero_device, cmd_peer = None, cmd_allowedip = None\<rparr> argv"

subsection \<open>Results\<close>

lemma map_result_eq_Inr [simp]: "map_result f r = Inr y \<longleftrightarrow> (\<exists>x. r = Inr x \<and> y = f x)"
  by (auto simp: map_result_def split: sum.splits)

lemma map_result_eq_Inl [simp]: "map_result f r = Inl e \<longleftrightarrow> r = Inl e"
  by (auto simp: map_result_def split: sum.splits)

lemma bind_result_eq_Inr [simp]: "bind_result r f = Inr y \<longleftrightarrow> (\<exists>x. r = Inr x \<and> f x = Inr y)"
  by (auto simp: bind_result_def split: sum.splits)

lemma bind_result_eq_Inl: "bind_result r f = Inl e \<longleftrightarrow> r = Inl e \<or> (\<exists>x. r = Inr x \<and> f x = Inl e)"
  by (auto simp: bind_result_def split: sum.splits)

lemma result_simps [simp]:
  "map_result f (Inr x) = Inr (f x)" "map_result f (Inl e) = Inl e"
  "bind_result (Inr x) g = g x" "bind_result (Inl e) g = Inl e"
  by (simp_all add: map_result_def bind_result_def)

subsection \<open>Numbers and flags\<close>

text \<open>What a bounded decimal option accepts.\<close>

lemma bounded_decimal:
  assumes "char_is_digit (first_char s)" and "m < 2 ^ 64 - 1"
  shows "(let (ret, end) = strtoul 10 s in if end \<noteq> [] \<or> ret > of_nat m then Inl e else Inr (g ret))
    = (if dec_numeral s \<and> dec_value s \<le> m then Inr (g (of_nat (dec_value s))) else Inl e)"
proof (cases "list_all isdigit_char s")
  case True
  obtain r where r: "strtoul 10 s = (r, [])"
    using True strtoul_dec_all(1) [OF assms(1)] by (metis prod.collapse)
  then have "r = u64_sat (dec_value s)"
    using strtoul_dec_all(2) [OF assms(1) True] by simp
  then show ?thesis
    using True assms u64_sat_gt [OF assms(2), of "dec_value s"] u64_sat_eq [of "dec_value s"]
    by (auto simp: r dec_numeral_first)
next
  case False
  then show ?thesis
    using strtoul_dec_all(1) [OF assms(1)] by (auto simp: dec_numeral_first split: prod.split)
qed

lemma off_not_numeral: "strcasecmp_eq s ''off'' \<Longrightarrow> \<not> dec_numeral s"
proof
  assume "strcasecmp_eq s ''off''" "dec_numeral s"
  then obtain c where c: "tolower_char c = CHR ''o''" "isdigit_char c"
    by (cases s) (auto simp: strcasecmp_eq_def dec_numeral_def tolower_char_def)
  then have "tolower_char c = c"
    by (simp add: tolower_char_def isdigit_char_iff Let_def)
  with c show False
    by (auto simp: isdigit_char_iff)
qed

lemma parse_persistent_keepalive_iff:
  "parse_persistent_keepalive fl s =
     (if strcasecmp_eq s ''off'' then Inr (0, fl OR WGPEER_HAS_PERSISTENT_KEEPALIVE_INTERVAL)
      else if dec_numeral s \<and> dec_value s \<le> 65535
      then Inr (of_nat (dec_value s), fl OR WGPEER_HAS_PERSISTENT_KEEPALIVE_INTERVAL)
      else Inl (Bad_keepalive s))"
proof (cases "char_is_digit (first_char s)")
  case True
  show ?thesis
    using bounded_decimal [OF True, of 65535 "Bad_keepalive s"
        "\<lambda>r. (ucast r :: u16, fl OR WGPEER_HAS_PERSISTENT_KEEPALIVE_INTERVAL)"] True
    by (simp add: parse_persistent_keepalive_def)
next
  case False
  then show ?thesis
    by (simp add: parse_persistent_keepalive_def dec_numeral_first)
qed

text \<open>The marks \<open>setconf\<close> accepts: decimal, or \<open>0x\<close> and hexadecimal.\<close>

lemma strtoul_10_prefix: 
  assumes "char_is_digit (first_char s)" 
  shows "(let (ret, end) = strtoul 10 s in if end \<noteq> [] \<or> ret > 0xFFFFFFFF then Inl (Bad_fwmark s)
      else Inr (ucast ret :: u32, f :: u32))
    = (if dec_numeral s \<and> dec_value s < 2 ^ 32 then Inr (of_nat (dec_value s), f) else Inl (Bad_fwmark s))"
proof -
  have "dec_value s < 2 ^ 32 \<longleftrightarrow> dec_value s \<le> 4294967295"
    by simp linarith
  then show ?thesis
    using bounded_decimal [OF assms, of 4294967295 "Bad_fwmark s" "\<lambda>r. (ucast r :: u32, f)"]
    by simp
qed

lemma parse_fwmark_dec:
  assumes "\<not> (length s > 2 \<and> s ! 0 = CHR ''0'' \<and> s ! 1 = CHR ''x'')"
  shows "parse_fwmark fl s =
     (if strcasecmp_eq s ''off'' then Inr (0, fl OR WGDEVICE_HAS_FWMARK)
      else if dec_numeral s \<and> dec_value s < 2 ^ 32 then Inr (of_nat (dec_value s), fl OR WGDEVICE_HAS_FWMARK)
      else Inl (Bad_fwmark s))"
proof (cases "char_is_digit (first_char s)")
  case True
  have b: "(if length s > 2 \<and> s ! 0 = CHR ''0'' \<and> s ! 1 = CHR ''x'' then 16 else 10 :: nat) = 10"
    using assms by (simp only: if_False)
  show ?thesis
    using True strtoul_10_prefix [OF True, of "fl OR WGDEVICE_HAS_FWMARK"]
    by (simp only: parse_fwmark_def b Let_def) simp
next
  case False
  then show ?thesis
    by (simp add: parse_fwmark_def dec_numeral_first)
qed

lemma parse_fwmark_hex:
  assumes "n < 2 ^ 32"
  shows "parse_fwmark fl (CHR ''0'' # CHR ''x'' # show_hex n) = Inr (of_nat n, fl OR WGDEVICE_HAS_FWMARK)"
proof -
  have "(of_nat n :: u64) \<le> 0xFFFFFFFF"
    using assms by (simp add: word_le_nat_alt unat_of_nat take_bit_nat_eq_self)
  moreover have "char_is_digit (first_char (CHR ''0'' # CHR ''x'' # show_hex n))"
    by (simp add: isdigit_first_char isdigit_char_iff)
  ultimately show ?thesis
    using assms strtoul_hex_prefixed [of n] show_base_not_Nil [of 16 n]
    by (simp add: parse_fwmark_def strcasecmp_eq_def tolower_char_def length_greater_0_conv [symmetric]
        del: length_greater_0_conv)
qed

text \<open>The obfuscation counts: any string \<open>strtoul\<close> uses up is accepted when the low 32 bits of its value
  are below \<open>2 ^ 16\<close>.\<close>

lemma parse_uint16_dec:
  assumes "dec_numeral s"
  shows "parse_uint16 name s =
     (let n = min (dec_value s) (2 ^ 64 - 1) mod 2 ^ 32 in if n < 2 ^ 16 then Inr (of_nat n) else Inl (Exit s))"
proof -
  have d: "char_is_digit (first_char s)" "list_all isdigit_char s"
    using assms by (simp_all add: dec_numeral_first)
  obtain r where r: "strtoul 10 s = (r, [])"
    using d strtoul_dec_all(1) [OF d(1)] by (metis prod.collapse)
  then have rv: "r = u64_sat (dec_value s)"
    using strtoul_dec_all(2) [OF d] by simp
  define n where "n = min (dec_value s) (2 ^ 64 - 1) mod 2 ^ 32"
  have u: "ucast r = (of_nat n :: u32)"
    by (rule word_unat_eq_iff [THEN iffD2])
       (simp add: rv n_def unsigned_ucast_eq unat_of_nat take_bit_eq_mod unat_u64_sat)
  have "(of_nat n :: u32) > 65535 \<longleftrightarrow> \<not> n < 2 ^ 16"
    by (simp add: n_def word_less_nat_alt unat_of_nat take_bit_eq_mod) linarith
  then show ?thesis
    using assms unfolding n_def [symmetric]
    by (simp add: parse_uint16_def r u dec_numeral_def Let_def)
qed

subsection \<open>Network masks\<close>

text \<open>Bit \<open>k\<close> of an address, counted from the most significant bit of its first byte.\<close>

definition address_bit :: "u8 list \<Rightarrow> nat \<Rightarrow> bool" where
  "address_bit bs k = bit (bs ! (k div 8)) (7 - k mod 8)"

lemma bit_u8_out: "8 \<le> n \<Longrightarrow> \<not> bit (b :: u8) n"
  using bit_imp_le_length [of b n] by auto

lemma be32_bit:
  assumes "m < 32"
  shows "bit (be32 bs i) (31 - m) = address_bit bs (32 * i + m)"
proof -
  obtain q r where m: "m = 8 * q + r" "r < 8"
    using div_mult_mod_eq [of m 8] mod_less_divisor [of 8 m] by (metis mult.commute zero_less_numeral)
  have a: "address_bit bs (32 * i + m) = bit (bs ! (4 * i + q)) (7 - r)"
  proof -
    have "(32 * i + m) div 8 = 4 * i + q" "(32 * i + m) mod 8 = r"
      using m by presburger+
    then show ?thesis
      by (simp only: address_bit_def)
  qed
  have "q = 0 \<or> q = 1 \<or> q = 2 \<or> q = 3"
    using assms m by linarith
  then have "bit (be32 bs i) (31 - (8 * q + r)) = bit (bs ! (4 * i + q)) (7 - r)"
    unfolding be32_def using m(2) by (elim disjE; simp add: bit_simps bit_u8_out; linarith)
  then show ?thesis
    unfolding a by (simp only: m(1))
qed

lemma u32_and_eq_0_iff:
  "(w AND msk :: u32) = 0 \<longleftrightarrow> (\<forall>m < 32. bit msk (31 - m) \<longrightarrow> \<not> bit w (31 - m))"
proof -
  have "(w AND msk) = 0 \<longleftrightarrow> (\<forall>b < 32. bit msk b \<longrightarrow> \<not> bit w b)"
    by (auto simp: bit_eq_iff bit_simps)
  also have "\<dots> \<longleftrightarrow> (\<forall>m < 32. bit msk (31 - m) \<longrightarrow> \<not> bit w (31 - m))"
  proof (intro iffI allI impI)
    fix b :: nat
    assume a: "\<forall>m < 32. bit msk (31 - m) \<longrightarrow> \<not> bit w (31 - m)" "b < 32" "bit msk b"
    then show "\<not> bit w b"
      using a(1) [rule_format, of "31 - b"] by simp
  qed simp
  finally show ?thesis .
qed

lemma shift_all:
  "(\<forall>m < 32. c \<le> a + m \<longrightarrow> P (a + m)) \<longleftrightarrow> (\<forall>k. c \<le> k \<and> a \<le> k \<and> k < a + 32 \<longrightarrow> P k)"
  for a :: nat
  by (metis add_less_cancel_left le_add1 le_add_diff_inverse)

lemma validate_words_iff:
  "validate_words bs c n \<longleftrightarrow> (\<forall>k. c \<le> k \<and> k < 32 * n \<longrightarrow> \<not> address_bit bs k)"
proof (induction n)
  case (Suc i)
  show ?case
  proof (cases "c \<ge> 32 * (i + 1)")
    case False
    define msk :: u32 where "msk = (if c > 32 * i then drop_bit (c - 32 * i) (- 1) else - 1)"
    have msk: "bit msk (31 - m) \<longleftrightarrow> c \<le> 32 * i + m" if "m < 32" for m
      using that False by (auto simp: msk_def bit_simps)
    have "be32 bs i AND msk = 0 \<longleftrightarrow> (\<forall>m < 32. c \<le> 32 * i + m \<longrightarrow> \<not> address_bit bs (32 * i + m))"
      unfolding u32_and_eq_0_iff by (simp add: msk be32_bit)
    also have "\<dots> \<longleftrightarrow> (\<forall>k. c \<le> k \<and> 32 * i \<le> k \<and> k < 32 * i + 32 \<longrightarrow> \<not> address_bit bs k)"
      by (rule shift_all)
    finally have "validate_words bs c (Suc i) \<longleftrightarrow>
        (\<forall>k. c \<le> k \<and> 32 * i \<le> k \<and> k < 32 * i + 32 \<longrightarrow> \<not> address_bit bs k) \<and> validate_words bs c i"
      using False by (simp add: msk_def Let_def)
    also have "\<dots> \<longleftrightarrow> (\<forall>k. c \<le> k \<and> k < 32 * Suc i \<longrightarrow> \<not> address_bit bs k)"
      unfolding Suc.IH by (auto simp: not_le [symmetric] dest: leI)
    finally show ?thesis .
  qed auto
qed simp

definition address_width :: "wgallowedip \<Rightarrow> nat" where
  "address_width a = (if family a = AF_INET then 32 else 128)"

lemma validate_netmask_spec:
  assumes "allowedip_wf a"
  shows "validate_netmask a \<longleftrightarrow>
    (\<forall>k. unat (cidr a) \<le> k \<and> k < address_width a \<longrightarrow> \<not> address_bit (ip a) k)"
  using assms
  by (auto simp: allowedip_wf_def validate_netmask_def address_width_def validate_words_iff
      simp del: validate_words.simps)

subsection \<open>Allowed addresses\<close>

lemma parse_ip_wf:
  assumes "env_sizes env" and "parse_ip env zero_allowedip s = Inr a"
  shows "length (ip a) = 16" "family a = AF_INET \<or> family a = AF_INET6"
  using assms env_sizesD [OF assms(1)]
  by (auto simp: parse_ip_def zero_allowedip_def split: if_splits option.splits)

lemma full_mask_valid:
  assumes "family a = AF_INET \<and> cidr a = 32 \<or> family a = AF_INET6 \<and> cidr a = 128"
  shows "validate_netmask a"
  using assms by (auto simp: validate_netmask_def validate_words_iff simp del: validate_words.simps)

lemma parse_cidr_bounds:
  assumes "parse_cidr fam m s = Inr c" and "fam = AF_INET \<or> fam = AF_INET6"
  shows "c \<le> (if fam = AF_INET then 32 else 128)"
    and "m = None \<Longrightarrow> c = (if fam = AF_INET then 32 else 128)"
  using assms by (auto simp: parse_cidr_def not_less split: option.splits if_splits prod.splits)

lemma parse_allowedip_entry_wf:
  assumes "env_sizes env" and "parse_allowedip_entry env s = Inr (a, ws)"
  shows "allowedip_wf a" "\<forall>(i, m) \<in> set ws. m \<noteq> None"
proof -
  obtain i m where sep: "strsep s CHR ''/'' = (i, m)"
    by force
  obtain a0 c where a0: "parse_ip env zero_allowedip i = Inr a0"
    and c: "parse_cidr (family a0) m s = Inr c"
    and a: "a = a0\<lparr>cidr := ucast c\<rparr>"
    and ws: "ws = (if validate_netmask a then [] else [(i, m)])"
    using assms(2) by (auto simp: parse_allowedip_entry_def sep Let_def)
  note p = parse_ip_wf [OF assms(1) a0]
  note bound = parse_cidr_bounds [OF c p(2)]
  have "ucast c \<le> (if family a0 = AF_INET then 32 else 128 :: u8)"
    using bound(1) by (auto simp: word_le_nat_alt unsigned_ucast_eq take_bit_nat_eq_self split: if_splits)
  then show "allowedip_wf a"
    using p by (auto simp: allowedip_wf_def a)
  have "validate_netmask a" if "m = None"
    using bound(2) [OF that] p by (intro full_mask_valid) (auto simp: a)
  then show "\<forall>(i, m) \<in> set ws. m \<noteq> None"
    unfolding ws by auto
qed

lemma parse_allowedip_entries_wf:
  assumes "env_sizes env" and "parse_allowedip_entries env as cur s = Inr (as', cur', ws)"
    and "at_end as cur"
  shows "at_end as' cur'" "\<exists>new. as' = as @ new \<and> list_all allowedip_wf new"
    "\<forall>(i, m) \<in> set ws. m \<noteq> None"
proof -
  have "at_end as' cur' \<and> (\<exists>new. as' = as @ new \<and> list_all allowedip_wf new) \<and>
      (\<forall>(i, m) \<in> set ws. m \<noteq> None)"
    using assms
  proof (induction env as cur s arbitrary: as' cur' ws rule: parse_allowedip_entries.induct)
    case (2 env as cur s)
    obtain entry sep where sep: "strsep s CHR '','' = (entry, sep)"
      by force
    obtain a w ws' where a: "parse_allowedip_entry env entry = Inr (a, w)" and ws: "ws = w @ ws'"
      and r: "parse_allowedip_entries env (link_node as cur a) (linked_cursor cur) sep = Inr (as', cur', ws')"
      using "2.prems"(2) by (auto simp: sep)
    note e = parse_allowedip_entry_wf [OF "2.prems"(1) a]
    have "at_end (link_node as cur a) (linked_cursor cur)"
      using "2.prems"(3) by simp
    from "2.IH" [OF sep [symmetric] refl "2.prems"(1) r this]
    show ?case
      using e "2.prems"(3) unfolding ws by auto
  qed simp
  then show "at_end as' cur'" "\<exists>new. as' = as @ new \<and> list_all allowedip_wf new"
    "\<forall>(i, m) \<in> set ws. m \<noteq> None"
    by blast+
qed

subsection \<open>Resolving an endpoint\<close>

definition transient :: "gai \<Rightarrow> bool" where
  "transient g = (case g of Resolved _ \<Rightarrow> False | Gai_error e \<Rightarrow> e \<notin> {EAI_NONAME, EAI_FAIL, EAI_NODATA})"

lemma resolve_endpoint_step:
  "resolve_endpoint env host serv retries n timeout slept =
     (if \<not> transient (getaddrinfo env n host serv) \<or> retries = 0
      then Some (getaddrinfo env n host serv, slept)
      else resolve_endpoint env host serv (if retries \<ge> 0 then retries - 1 else retries) (Suc n)
             (min 20000000 (timeout * 6 div 5)) (slept @ [timeout]))"
  by (subst resolve_endpoint.simps) (auto simp: transient_def split: gai.split)

text \<open>With a limit the loop returns: it asks at most \<open>retries + 1\<close> times, and pauses at most 20
  seconds each time.\<close>

lemma resolve_endpoint_limited:
  assumes "timeout \<le> 20000000"
  shows "\<exists>k \<le> r. \<exists>pauses. resolve_endpoint env host serv (int r) n timeout slept
      = Some (getaddrinfo env (n + k) host serv, slept @ pauses) \<and>
      length pauses = k \<and> (\<forall>t \<in> set pauses. t \<le> 20000000) \<and>
      (\<forall>j < k. transient (getaddrinfo env (n + j) host serv)) \<and>
      (transient (getaddrinfo env (n + k) host serv) \<longrightarrow> k = r)"
  using assms
proof (induction r arbitrary: n timeout slept)
  case 0
  then show ?case
    by (subst resolve_endpoint_step) simp
next
  case (Suc r)
  show ?case
  proof (cases "transient (getaddrinfo env n host serv)")
    case False
    then show ?thesis
      by (intro exI [of _ 0]) (simp add: resolve_endpoint_step [of _ _ _ _ n])
  next
    case True
    obtain k pauses where k: "k \<le> r" and eq: "resolve_endpoint env host serv (int r) (Suc n)
        (min 20000000 (timeout * 6 div 5)) (slept @ [timeout])
        = Some (getaddrinfo env (Suc n + k) host serv, (slept @ [timeout]) @ pauses)"
      and pauses: "length pauses = k" "\<forall>t \<in> set pauses. t \<le> 20000000"
      and before: "\<forall>j < k. transient (getaddrinfo env (Suc n + j) host serv)"
      and last: "transient (getaddrinfo env (Suc n + k) host serv) \<longrightarrow> k = r"
      using Suc.IH [of "min 20000000 (timeout * 6 div 5)" "Suc n" "slept @ [timeout]"] by auto
    have "resolve_endpoint env host serv (int (Suc r)) n timeout slept
        = Some (getaddrinfo env (n + Suc k) host serv, slept @ (timeout # pauses))"
      using True eq by (simp add: resolve_endpoint_step [of _ _ _ _ n])
    moreover have "\<forall>j < Suc k. transient (getaddrinfo env (n + j) host serv)"
      using before True by (auto simp: less_Suc_eq_0_disj)
    ultimately show ?thesis
      using k pauses last Suc.prems by (intro exI [of _ "Suc k"] conjI exI [of _ "timeout # pauses"]) auto
  qed
qed

text \<open>Without a limit the loop returns exactly when some attempt does not fail transiently.\<close>

lemma resolve_endpoint_unlimited_returns:
  assumes "\<not> transient (getaddrinfo env (n + k) host serv)"
  shows "resolve_endpoint env host serv (- 1) n timeout slept \<noteq> None"
  using assms
proof (induction k arbitrary: n timeout slept)
  case (Suc k)
  have "resolve_endpoint env host serv (- 1) (Suc n) (min 20000000 (timeout * 6 div 5)) (slept @ [timeout]) \<noteq> None"
    using Suc.prems by (intro Suc.IH) simp
  then show ?case
    by (subst resolve_endpoint_step) simp
qed (subst resolve_endpoint_step; simp)

lemma resolve_endpoint_unlimited_answer:
  assumes "resolve_endpoint env host serv (- 1) n timeout slept = Some y"
  shows "\<exists>k. \<not> transient (getaddrinfo env (n + k) host serv)"
proof -
  have "(- 1 :: int) = - 1 \<longrightarrow> (\<exists>k \<ge> n. \<not> transient (getaddrinfo env k host serv))"
  proof (rule resolve_endpoint.raw_induct [rotated, OF assms, where P = "\<lambda>env host serv retries n timeout slept y.
      retries = - 1 \<longrightarrow> (\<exists>k \<ge> n. \<not> transient (getaddrinfo env k host serv))"], goal_cases)
    case (1 f env host serv retries n timeout slept y)
    show ?case
    proof (cases "transient (getaddrinfo env n host serv)")
      case True
      then obtain e where "getaddrinfo env n host serv = Gai_error e" "e \<notin> {EAI_NONAME, EAI_FAIL, EAI_NODATA}"
        by (auto simp: transient_def split: gai.splits)
      with 1(2) show ?thesis
        by (auto dest!: 1(1)) (meson Suc_leD)
    qed auto
  qed
  then show ?thesis
    by (auto simp: le_iff_add)
qed

lemma resolve_endpoint_source:
  assumes "resolve_endpoint env host serv retries n timeout slept = Some (g, s)"
  shows "\<exists>k. g = getaddrinfo env k host serv"
proof -
  have "\<exists>k. fst (g, s) = getaddrinfo env k host serv"
  proof (rule resolve_endpoint.raw_induct [rotated, OF assms, where P = "\<lambda>env host serv retries n timeout slept y.
      \<exists>k. fst y = getaddrinfo env k host serv"], goal_cases)
    case (1 f env host serv retries n timeout slept y)
    then show ?case
    proof (cases "getaddrinfo env n host serv")
      case (Gai_error e)
      with 1(2) show ?thesis
        by (auto split: if_splits dest!: 1(1)) (metis fst_conv)+
    qed (auto intro!: exI [of _ n])
  qed
  then show ?thesis
    by simp
qed

lemma resolved_endpoint_eq_Inr [simp]: "resolved_endpoint s g = Inr a \<longleftrightarrow> g = Resolved a \<and> a \<noteq> SA_UNSPEC"
  by (auto simp: resolved_endpoint_def split: gai.splits)

lemma parse_endpoint_wf:
  assumes "env_sizes env" and "parse_endpoint env s = Inr a"
  shows "sockaddr_wf a"
proof -
  from assms(2) obtain host serv retries sl
    where "resolve_endpoint env host serv retries 0 1000000 [] = Some (Resolved a, sl)"
    by (auto simp: parse_endpoint_def split: if_splits option.splits)
  from resolve_endpoint_source [OF this] show ?thesis
    using env_sizesD(3) [OF assms(1)] by metis
qed

subsection \<open>The invariant of a configuration context\<close>

text \<open>The cursors point to the last peer and to its last address, so nothing already read is ever
  unlinked; inside a peer section there is a peer.\<close>

definition cursors_wf :: "wgdevice \<Rightarrow> nat option \<Rightarrow> nat option \<Rightarrow> bool" where
  "cursors_wf d pc ac = (at_end (peers d) pc \<and> (pc \<noteq> None \<longrightarrow> at_end (allowedips (last (peers d))) ac))"

definition ctx_wf :: "config_ctx \<Rightarrow> bool" where
  "ctx_wf ctx = (device_wf (device ctx) \<and> strings_wf (device ctx) \<and>
     cursors_wf (device ctx) (last_peer ctx) (last_allowedip ctx) \<and>
     (is_peer_section ctx \<longrightarrow> last_peer ctx \<noteq> None))"

lemma get_value_not_Nil: "get_value line key = Some v \<Longrightarrow> v \<noteq> []"
  by (auto simp: get_value_def split: if_splits)

lemma key_match_inv:
  assumes "key_match hs line = Inr r" and "\<forall>(key, h) \<in> set hs. \<forall>v. v \<noteq> [] \<longrightarrow> (\<forall>r. h v = Inr r \<longrightarrow> P r)"
  shows "P r"
  using assms
proof (induction hs)
  case (Cons kh hs)
  then show ?case
    using get_value_not_Nil [of line "fst kh"] by (cases kh) (auto split: option.splits)
qed simp

lemma parse_key_length:
  assumes "length key = WG_KEY_LEN"
  shows "length (snd (parse_key key s)) = WG_KEY_LEN"
proof -
  obtain b k where "key_from_base64 key s = (b, k)"
    by force
  then show ?thesis
    using length_snd_decoders(1) [of key s] assms by (cases b) (simp_all add: parse_key_def)
qed

lemma key_result_length:
  "key_result s (parse_key key s) = Inr k \<Longrightarrow> length key = WG_KEY_LEN \<Longrightarrow> length k = WG_KEY_LEN"
  using parse_key_length [of key s] by (auto simp: key_result_def split: if_splits)

lemma parse_awg_string_eq_Inr:
  "v \<noteq> [] \<Longrightarrow> parse_awg_string name v = Inr s \<longleftrightarrow> length v < MAX_AWG_STRING_LEN \<and> s = Some v"
  by (auto simp: parse_awg_string_def)

lemma set_flagged_eq_Inr [simp]:
  "set_flagged fl upd d r = Inr d' \<longleftrightarrow>
     (\<exists>v. r = Inr v \<and> d' = (upd (\<lambda>_. v) d)\<lparr>dev_flags := dev_flags d OR fl\<rparr>)"
  by (auto simp: set_flagged_def)

lemma parse_port_flags: "parse_port env f v = Inr (p, f') \<Longrightarrow> f' = f OR WGDEVICE_HAS_LISTEN_PORT"
  by (auto simp: parse_port_def split: if_splits gai.splits sockaddr.splits)

lemma parse_fwmark_flags: "parse_fwmark f v = Inr (p, f') \<Longrightarrow> f' = f OR WGDEVICE_HAS_FWMARK"
  by (auto simp: parse_fwmark_def Let_def split: if_splits prod.splits)

lemma parse_persistent_keepalive_flags:
  "parse_persistent_keepalive f v = Inr (p, f') \<Longrightarrow> f' = f OR WGPEER_HAS_PERSISTENT_KEEPALIVE_INTERVAL"
  by (auto simp: parse_persistent_keepalive_def split: if_splits prod.splits)

definition device_step :: "wgdevice \<Rightarrow> wgdevice \<Rightarrow> bool" where
  "device_step d d' = (peers d' = peers d \<and> (device_wf d \<longrightarrow> device_wf d') \<and> (strings_wf d \<longrightarrow> strings_wf d'))"

lemmas device_step_simps = device_step_def device_wf_def strings_wf_def string_wf_def Let_def c_flags

lemma device_step_flags:
  "f = dev_flags d OR WGDEVICE_HAS_LISTEN_PORT \<Longrightarrow> device_step d (d\<lparr>listen_port := p, dev_flags := f\<rparr>)"
  "f = dev_flags d OR WGDEVICE_HAS_FWMARK \<Longrightarrow> device_step d (d\<lparr>fwmark := m, dev_flags := f\<rparr>)"
  by (simp_all add: device_step_simps)

lemma device_step_key:
  "(length (private_key d) = WG_KEY_LEN \<Longrightarrow> length k = WG_KEY_LEN) \<Longrightarrow>
    device_step d (d\<lparr>private_key := k, dev_flags := dev_flags d OR WGDEVICE_HAS_PRIVATE_KEY\<rparr>)"
  by (simp add: device_step_simps)

lemma process_device_line_step:
  assumes "process_device_line env d line = Inr d'"
  shows "device_step d d'"
  using assms unfolding process_device_line_def
proof (rule key_match_inv, simp only: list.set ball_simps prod.case, intro conjI TrueI allI impI;
    unfold set_flagged_eq_Inr map_result_eq_Inr; elim exE conjE)
qed (simp add: device_step_simps parse_awg_string_eq_Inr; fail |
  auto intro!: device_step_flags device_step_key dest: parse_port_flags parse_fwmark_flags key_result_length; fail)+

definition peer_step :: "wgpeer \<times> nat option \<Rightarrow> wgpeer \<times> nat option \<Rightarrow> bool" where
  "peer_step = (\<lambda>(p, cur) (p', cur'). (peer_wf p \<longrightarrow> peer_wf p') \<and>
     (at_end (allowedips p) cur \<longrightarrow> at_end (allowedips p') cur' \<and> take (length (allowedips p)) (allowedips p') = allowedips p))"

lemma parse_allowedips_step:
  assumes "env_sizes env" and "parse_allowedips env p cur v = Inr (p', cur', ws)" and "at_end (allowedips p) cur"
  shows "peer_step (p, cur) (p', cur')" "\<forall>(i, m) \<in> set ws. m \<noteq> None"
proof -
  have "peer_step (p, cur) (p', cur') \<and> (\<forall>(i, m) \<in> set ws. m \<noteq> None)"
  proof (cases "v = []")
    case True
    then show ?thesis
      using assms(2) by (auto simp: parse_allowedips_def peer_step_def peer_wf_def)
  next
    case False
    then obtain as where as: "parse_allowedip_entries env (allowedips p) cur (Some v) = Inr (as, cur', ws)"
      and p': "p' = p\<lparr>flags := flags p OR WGPEER_REPLACE_ALLOWEDIPS, allowedips := as\<rparr>"
      using assms(2) by (auto simp: parse_allowedips_def)
    show ?thesis
      using parse_allowedip_entries_wf [OF assms(1) as assms(3)]
      by (auto simp: peer_step_def peer_wf_def p')
  qed
  then show "peer_step (p, cur) (p', cur')" "\<forall>(i, m) \<in> set ws. m \<noteq> None"
    by blast+
qed

lemma peer_step_fields:
  "sockaddr_wf a \<Longrightarrow> peer_step (p, cur) (p\<lparr>endpoint := a\<rparr>, cur)"
  "(length (public_key p) = WG_KEY_LEN \<Longrightarrow> length k = WG_KEY_LEN) \<Longrightarrow>
    peer_step (p, cur) (p\<lparr>public_key := k, flags := f\<rparr>, cur)"
  "(length (preshared_key p) = WG_KEY_LEN \<Longrightarrow> length k = WG_KEY_LEN) \<Longrightarrow>
    peer_step (p, cur) (p\<lparr>preshared_key := k, flags := f\<rparr>, cur)"
  "peer_step (p, cur) (p\<lparr>persistent_keepalive_interval := i, flags := f\<rparr>, cur)"
  "peer_step (p, cur) (p\<lparr>awg := b, flags := f\<rparr>, cur)"
  "peer_step (p, cur) (p\<lparr>flags := f\<rparr>, cur)"
  by (simp_all add: peer_step_def peer_wf_def)

lemma process_peer_line_step:
  assumes "process_peer_line env p cur line = Inr r" and "env_sizes env" and "at_end (allowedips p) cur"
  shows "peer_step (p, cur) r"
  using assms(1) unfolding process_peer_line_def
proof (rule key_match_inv, simp only: list.set ball_simps prod.case, intro conjI TrueI allI impI;
    unfold map_result_eq_Inr; elim exE conjE)
qed (auto intro!: peer_step_fields dest: parse_endpoint_wf [OF assms(2)] key_result_length
  parse_allowedips_step(1) [OF assms(2) _ assms(3)])

text \<open>Running an operation at the cursor keeps the invariant.\<close>

lemma with_peer_wf:
  assumes "with_peer d pc f = Inr (d', ac')" and "cursors_wf d pc ac" and "device_wf d"
    and "\<And>p p' x. f p = Inr (p', x) \<Longrightarrow> at_end (allowedips p) ac \<Longrightarrow> peer_step (p, ac) (p', x)"
  shows "cursors_wf d' pc ac'" "device_wf d'" "strings_wf d' = strings_wf d"
proof -
  obtain i p' where i: "pc = Some i" and f: "f (peers d ! i) = Inr (p', ac')"
    and d': "d' = d\<lparr>peers := (peers d)[i := p']\<rparr>"
    using assms(1) by (auto simp: with_peer_def split: option.splits)
  have e: "peers d \<noteq> []" "i = length (peers d) - 1" "at_end (allowedips (last (peers d))) ac"
    using assms(2) by (auto simp: cursors_wf_def i at_end_Some)
  then have l: "peers d ! i = last (peers d)" "i < length (peers d)"
    by (simp_all add: last_conv_nth)
  then have st: "peer_step (last (peers d), ac) (p', ac')"
    using assms(4) [OF f] e by simp
  have wf: "peer_wf (last (peers d))"
    using assms(3) e(1) by (auto simp: device_wf_def list_all_iff)
  show "cursors_wf d' pc ac'"
    using e st by (simp add: cursors_wf_def d' i at_end_Some last_list_update peer_step_def)
  show "device_wf d'"
    using assms(3) st wf by (auto simp: device_wf_def d' peer_step_def list_all_iff dest!: subsetD [OF set_update_subset_insert])
  show "strings_wf d' = strings_wf d"
    by (simp add: strings_wf_def d')
qed

lemma link_peer_wf:
  assumes "cursors_wf d pc ac" and "device_wf d" and "peer_wf p" and "allowedips p = []"
  shows "cursors_wf (d\<lparr>peers := link_node (peers d) pc p\<rparr>) (linked_cursor pc) None"
    "device_wf (d\<lparr>peers := link_node (peers d) pc p\<rparr>)"
    "strings_wf (d\<lparr>peers := link_node (peers d) pc p\<rparr>) = strings_wf d"
  using assms by (simp_all add: cursors_wf_def device_wf_def strings_wf_def)

lemma process_line_wf:
  assumes "env_sizes env" and "ctx_wf ctx" and "process_line env ctx line = Inr ctx'"
  shows "ctx_wf ctx'"
proof -
  have wf: "device_wf (device ctx)" "strings_wf (device ctx)"
      "cursors_wf (device ctx) (last_peer ctx) (last_allowedip ctx)"
    using assms(2) by (simp_all add: ctx_wf_def)
  consider (interface) "strcasecmp_eq line ''[Interface]''"
    | (peer) "\<not> strcasecmp_eq line ''[Interface]''" "strcasecmp_eq line ''[Peer]''"
    | (device) d' where "process_device_line env (device ctx) line = Inr d'" "ctx' = ctx\<lparr>device := d'\<rparr>"
    | (in_peer) d' ac where "with_peer (device ctx) (last_peer ctx)
        (\<lambda>p. process_peer_line env p (last_allowedip ctx) line) = Inr (d', ac)"
        "ctx' = ctx\<lparr>device := d', last_allowedip := ac\<rparr>"
    using assms(3) by (auto simp: process_line_def split: if_splits)
  then show ?thesis
  proof cases
    case interface
    then show ?thesis
      using assms(2,3) by (auto simp: process_line_def ctx_wf_def)
  next
    case peer
    have "peer_wf (zero_peer\<lparr>flags := flags zero_peer OR WGPEER_REPLACE_ALLOWEDIPS\<rparr>)"
      "allowedips (zero_peer\<lparr>flags := flags zero_peer OR WGPEER_REPLACE_ALLOWEDIPS\<rparr>) = []"
      by (simp_all add: peer_wf_def zero_peer_def)
    from link_peer_wf [OF wf(3,1) this] show ?thesis
      using assms(3) peer wf by (auto simp: process_line_def ctx_wf_def Let_def linked_cursor_def)
  next
    case device
    then show ?thesis
      using process_device_line_step [OF device(1)] assms(2)
      by (simp add: ctx_wf_def device_step_def cursors_wf_def)
  next
    case in_peer
    have "peer_step (p, last_allowedip ctx) (p', x)"
      if "process_peer_line env p (last_allowedip ctx) line = Inr (p', x)"
        and "at_end (allowedips p) (last_allowedip ctx)" for p p' x
      using process_peer_line_step [OF that(1) assms(1) that(2)] .
    from with_peer_wf [OF in_peer(1) wf(3,1) this] show ?thesis
      using assms(2) in_peer(2) by (simp add: ctx_wf_def)
  qed
qed

subsection \<open>No null cursor is followed\<close>

lemma value_parsers_not_null [simp]:
  "parse_port env f v \<noteq> Inl Null_pointer" "parse_fwmark f v \<noteq> Inl Null_pointer"
  "key_result v r \<noteq> Inl Null_pointer" "parse_uint16 n v \<noteq> Inl Null_pointer"
  "parse_awg_string n v \<noteq> Inl Null_pointer" "parse_bool n v \<noteq> Inl Null_pointer"
  "parse_persistent_keepalive f v \<noteq> Inl Null_pointer" "parse_keyfile env key v \<noteq> Inl Null_pointer"
  "parse_ip env a v \<noteq> Inl Null_pointer" "parse_cidr fam m v \<noteq> Inl Null_pointer"
  "parse_dns_retries env \<noteq> Inl Null_pointer" "split_endpoint v \<noteq> Inl Null_pointer"
  "resolved_endpoint v g \<noteq> Inl Null_pointer"
  by (auto simp: parse_port_def parse_fwmark_def key_result_def parse_uint16_def parse_awg_string_def
      parse_bool_def parse_persistent_keepalive_def parse_keyfile_def parse_ip_def parse_cidr_def
      parse_dns_retries_def split_endpoint_def resolved_endpoint_def Let_def
      split: gai.split sockaddr.split option.split list.split prod.split)

lemma parse_endpoint_not_null [simp]: "parse_endpoint env v \<noteq> Inl Null_pointer"
  by (auto simp: parse_endpoint_def bind_result_eq_Inl split: option.split)

lemma parse_allowedip_entry_not_null [simp]: "parse_allowedip_entry env e \<noteq> Inl Null_pointer"
  by (auto simp: parse_allowedip_entry_def bind_result_eq_Inl split: prod.split)

lemma parse_allowedip_entries_not_null [simp]: "parse_allowedip_entries env as cur s \<noteq> Inl Null_pointer"
  by (induction env as cur s rule: parse_allowedip_entries.induct)
     (auto simp: bind_result_eq_Inl split: prod.split)

lemma parse_allowedips_not_null [simp]: "parse_allowedips env p cur v \<noteq> Inl Null_pointer"
  by (simp add: parse_allowedips_def Let_def del: parse_allowedip_entries.simps)

lemma set_flagged_eq_Inl [simp]: "set_flagged fl upd d r = Inl e \<longleftrightarrow> r = Inl e"
  by (simp add: set_flagged_def)

lemma key_match_not_null:
  assumes "\<forall>(key, h) \<in> set hs. \<forall>v. h v \<noteq> Inl Null_pointer"
  shows "key_match hs line \<noteq> Inl Null_pointer"
  using assms by (induction hs) (auto split: option.splits)

lemma process_device_line_not_null [simp]: "process_device_line env d line \<noteq> Inl Null_pointer"
  unfolding process_device_line_def by (rule key_match_not_null) simp

lemma process_peer_line_not_null [simp]: "process_peer_line env p cur line \<noteq> Inl Null_pointer"
  unfolding process_peer_line_def by (rule key_match_not_null) simp

lemma process_line_not_null:
  assumes "ctx_wf ctx"
  shows "process_line env ctx line \<noteq> Inl Null_pointer"
  using assms by (auto simp: process_line_def Let_def ctx_wf_def with_peer_def)

subsection \<open>Cleaning a line\<close>

definition trim :: "string \<Rightarrow> string" where
  "trim s = rev (dropWhile isspace_char (rev (dropWhile isspace_char s)))"

lemma clean_key_value_value: "clean_key_value True True s = s"
  by (induction s) simp_all

lemma clean_key_value_skip: "clean_key_value True False s = dropWhile isspace_char s"
  by (induction s) (simp_all add: clean_key_value_value)

lemma clean_key_value_key:
  "CHR ''='' \<notin> set k \<Longrightarrow> clean_key_value False b (k @ r) = filter (\<lambda>c. \<not> isspace_char c) k @ clean_key_value False b r"
  by (induction k) auto

lemma dropWhile_rev_comm:
  "rev (dropWhile P (rev (dropWhile P s))) = dropWhile P (rev (dropWhile P (rev s)))"
proof (induction s)
  case (Cons x s)
  show ?case
  proof (cases "\<forall>y \<in> set s. P y")
    case True
    then have "dropWhile P s = []" "dropWhile P (rev s) = []"
      by (simp_all add: dropWhile_eq_Nil_conv)
    then show ?thesis
      using True by (auto simp: dropWhile_append dest: set_dropWhileD)
  next
    case False
    then show ?thesis
      using Cons.IH by (auto simp: dropWhile_append)
  qed
qed simp

lemma clean_special_handshake_line_value:
  assumes "CHR ''='' \<notin> set k"
  shows "clean_special_handshake_line (k @ CHR ''='' # v) (length (k @ CHR ''='' # v))
    = filter (\<lambda>c. \<not> isspace_char c) k @ CHR ''='' # trim v"
proof -
  have eq: "\<not> isspace_char CHR ''=''"
    by (simp add: c_char)
  have "rev (dropWhile isspace_char (rev (k @ CHR ''='' # v)))
      = k @ CHR ''='' # rev (dropWhile isspace_char (rev v))"
    using eq by (cases "\<forall>c \<in> set v. isspace_char c") (auto simp: dropWhile_append)
  then show ?thesis
    using assms eq by (simp add: clean_special_handshake_line_def clean_key_value_key
      clean_key_value_skip trim_def dropWhile_rev_comm)
qed

lemma strchr_length:
  "(case strchr s c of Some r \<Rightarrow> length s - length r | None \<Rightarrow> length s) = length (takeWhile (\<lambda>x. x \<noteq> c) s)"
proof -
  have "length (takeWhile (\<lambda>x. x \<noteq> c) s) + length (dropWhile (\<lambda>x. x \<noteq> c) s) = length s"
    by (metis length_append takeWhile_dropWhile_id)
  then show ?thesis
    by (cases "dropWhile (\<lambda>x. x \<noteq> c) s") (simp_all only: strchr_def list.case option.case, simp_all)
qed

definition uncomment :: "string \<Rightarrow> string" where
  "uncomment s = takeWhile (\<lambda>c. c \<noteq> CHR ''#'') s"

definition special_line :: "string \<Rightarrow> bool" where
  "special_line s = list_ex (\<lambda>k. strncasecmp_eq s k 2) awg_special_handshake_keys"

definition cleaned_line :: "string \<Rightarrow> string" where
  "cleaned_line s = (if special_line s then clean_special_handshake_line (uncomment s) (length (uncomment s))
     else strip_spaces (uncomment s))"

lemma config_read_line_cleaned:
  "config_read_line env ctx s = (if cleaned_line s = [] then Inr ctx else process_line env ctx (cleaned_line s))"
proof -
  have "take (length (uncomment s)) s = uncomment s"
    unfolding uncomment_def by (metis takeWhile_eq_take)
  then show ?thesis
    by (simp add: config_read_line_def cleaned_line_def special_line_def strchr_length Let_def
        uncomment_def [symmetric] clean_special_handshake_line_def strip_spaces_def)
qed

lemma uncomment_comment [simp]: "uncomment (s @ CHR ''#'' # t) = uncomment s"
  by (induction s) (simp_all add: uncomment_def)

lemma special_line_comment: "special_line (s @ CHR ''#'' # t) = special_line s"
proof -
  consider "s = []" | c where "s = [c]" | c d r where "s = c # d # r"
    by (metis list.exhaust)
  then show ?thesis
    by cases (auto simp: special_line_def awg_special_handshake_keys_def strncasecmp_eq_def numeral_2_eq_2)
qed

lemma config_read_line_comment:
  "config_read_line env ctx (s @ CHR ''#'' # t) = config_read_line env ctx s"
  by (simp add: config_read_line_cleaned cleaned_line_def special_line_comment)

lemma clean_key_value_no_space: "\<forall>c \<in> set s. \<not> isspace_char c \<Longrightarrow> clean_key_value b1 b2 s = s"
  by (induction s arbitrary: b1 b2) simp_all

lemma clean_special_handshake_line_no_space:
  "\<forall>c \<in> set s. \<not> isspace_char c \<Longrightarrow> clean_special_handshake_line s (length s) = s"
proof -
  assume a: "\<forall>c \<in> set s. \<not> isspace_char c"
  then have "dropWhile isspace_char (rev s) = rev s"
    by (cases "rev s") (auto simp: in_set_conv_decomp rev_eq_Cons_iff)
  then show ?thesis
    using a by (simp add: clean_special_handshake_line_def clean_key_value_no_space)
qed

lemma uncomment_strip: "uncomment (strip_spaces s) = strip_spaces (uncomment s)"
  by (induction s) (auto simp: uncomment_def strip_spaces_def c_char)

lemma cleaned_line_strip:
  assumes "\<not> special_line s"
  shows "cleaned_line (strip_spaces s) = cleaned_line s"
proof -
  have "\<forall>c \<in> set (strip_spaces (uncomment s)). \<not> isspace_char c"
    by (simp add: strip_spaces_def)
  moreover have "strip_spaces (strip_spaces (uncomment s)) = strip_spaces (uncomment s)"
    by (simp add: strip_spaces_def)
  ultimately show ?thesis
    using assms by (simp add: cleaned_line_def uncomment_strip clean_special_handshake_line_no_space)
qed

lemma config_read_line_spaces:
  "\<not> special_line s \<Longrightarrow> config_read_line env ctx s = config_read_line env ctx (strip_spaces s)"
  by (simp add: config_read_line_cleaned cleaned_line_strip)

lemma tolower_space: "isspace_char c \<Longrightarrow> tolower_char c = c"
  by (auto simp: char_is_space_class tolower_char_def)

text \<open>The keys of packet templates, in either case.\<close>

definition template_key :: "string \<Rightarrow> bool" where
  "template_key key \<longleftrightarrow> length key = 2 \<and> special_line key"

lemma template_key_chars:
  assumes "template_key key"
  shows "CHR ''='' \<notin> set key" "CHR ''#'' \<notin> set key" "\<forall>c \<in> set key. \<not> isspace_char c"
proof -
  have "map tolower_char key \<in> {''i1'', ''i2'', ''i3'', ''i4'', ''i5''}"
    using assms by (auto simp: template_key_def special_line_def strncasecmp_eq_def awg_special_handshake_keys_def)
  then have s: "tolower_char c \<in> {CHR ''i'', CHR ''1'', CHR ''2'', CHR ''3'', CHR ''4'', CHR ''5''}" if "c \<in> set key" for c
    using imageI [OF that, of tolower_char] by (auto simp flip: set_map)
  have "tolower_char CHR ''='' = CHR ''=''" "tolower_char CHR ''#'' = CHR ''#''"
    by code_simp+
  then show "CHR ''='' \<notin> set key" "CHR ''#'' \<notin> set key"
    using s by fastforce+
  show "\<forall>c \<in> set key. \<not> isspace_char c"
  proof (intro ballI notI)
    fix c
    assume "c \<in> set key" "isspace_char c"
    then have "c \<in> {CHR ''i'', CHR ''1'', CHR ''2'', CHR ''3'', CHR ''4'', CHR ''5''}" "isspace_char c"
      using s [of c] by (simp_all add: tolower_space)
    then show False
      by (auto simp: c_char)
  qed
qed

text \<open>A packet template keeps the spaces inside its value.\<close>

lemma config_read_line_template:
  assumes "template_key key" and "\<forall>c \<in> set sp. isspace_char c" and "CHR ''#'' \<notin> set v"
  shows "config_read_line env ctx (key @ sp @ CHR ''='' # v) = process_line env ctx (key @ CHR ''='' # trim v)"
proof -
  let ?s = "key @ sp @ CHR ''='' # v"
  have n: "\<not> isspace_char CHR ''=''" "\<not> isspace_char CHR ''#''"
    by (simp_all add: c_char)
  then have sp: "CHR ''='' \<notin> set sp" "CHR ''#'' \<notin> set sp"
    using assms(2) by blast+
  have "special_line ?s"
    using assms(1) by (auto simp: template_key_def special_line_def list_ex_iff strncasecmp_eq_def)
  moreover have "uncomment ?s = ?s"
    using assms(3) sp template_key_chars [OF assms(1)] by (auto simp: uncomment_def takeWhile_eq_all_conv)
  moreover have "clean_special_handshake_line ?s (length ?s) = key @ CHR ''='' # trim v"
    using clean_special_handshake_line_value [of "key @ sp" v] assms(2) sp template_key_chars [OF assms(1)] by simp
  ultimately show ?thesis
    by (simp add: config_read_line_cleaned cleaned_line_def)
qed

text \<open>A line that is indented is no packet template for the test.\<close>

lemma indented_not_special:
  assumes "isspace_char c"
  shows "\<not> special_line (c # s)"
proof -
  have "\<not> isspace_char CHR ''i''"
    by (simp add: c_char)
  then have "c \<noteq> CHR ''i''"
    using assms by auto
  then show ?thesis
    using tolower_space [OF assms] by (simp add: special_line_def strncasecmp_eq_def awg_special_handshake_keys_def numeral_2_eq_2)
qed

lemma config_read_line_indented:
  assumes "template_key key" and "ind \<noteq> []" and "\<forall>c \<in> set ind. isspace_char c" and "\<forall>c \<in> set sp. isspace_char c" and "CHR ''#'' \<notin> set v"
  shows "config_read_line env ctx (ind @ key @ sp @ CHR ''='' # v) = process_line env ctx (key @ CHR ''='' # strip_spaces v)"
proof -
  let ?s = "ind @ key @ sp @ CHR ''='' # v"
  have n: "\<not> isspace_char CHR ''#''" "\<not> isspace_char CHR ''=''"
    by (simp_all add: c_char)
  then have "CHR ''#'' \<notin> set (ind @ sp)"
    using assms(3,4) by auto
  then have "uncomment ?s = ?s"
    using assms(5) template_key_chars [OF assms(1)] by (auto simp: uncomment_def takeWhile_eq_all_conv)
  moreover have "filter (\<lambda>c. \<not> isspace_char c) key = key" "filter (\<lambda>c. \<not> isspace_char c) ind = []" "filter (\<lambda>c. \<not> isspace_char c) sp = []"
    using template_key_chars(3) [OF assms(1)] assms(3,4) by (auto simp: filter_id_conv filter_empty_conv)
  moreover have "\<not> special_line ?s"
    using assms(2,3) indented_not_special by (cases ind) auto
  ultimately show ?thesis
    using n by (simp add: config_read_line_cleaned cleaned_line_def strip_spaces_def)
qed

lemma config_read_line_special:
  assumes "key \<in> set awg_special_handshake_keys" and "CHR ''#'' \<notin> set v" and "\<forall>c \<in> set sp. isspace_char c"
  shows "config_read_line env ctx (key @ sp @ CHR ''='' # v) = process_line env ctx (key @ CHR ''='' # trim v)"
proof (rule config_read_line_template [OF _ assms(3,2)])
  show "template_key key"
    using assms(1) by (auto simp: template_key_def special_line_def strncasecmp_eq_def awg_special_handshake_keys_def)
qed

subsection \<open>Reading the arguments of set\<close>

text \<open>Every peer \<open>set\<close> names has a public key; an empty template argument stores a null pointer and
  still sets its flag, so the string invariant needs nonempty arguments.\<close>

definition cmd_wf :: "cmd_state \<Rightarrow> bool" where
  "cmd_wf st = (device_wf (cmd_device st) \<and> cursors_wf (cmd_device st) (cmd_peer st) (cmd_allowedip st))"

lemma parse_keyfile_length:
  "parse_keyfile env key path = Inr k \<Longrightarrow> length key = WG_KEY_LEN \<Longrightarrow> length k = WG_KEY_LEN"
  using key_result_length
  by (auto simp: parse_keyfile_def Let_def split: option.splits if_splits list.splits)

definition arg_step :: "string \<Rightarrow> wgdevice \<Rightarrow> wgdevice \<Rightarrow> bool" where
  "arg_step v d d' = (peers d' = peers d \<and> (device_wf d \<longrightarrow> device_wf d') \<and>
     (v \<noteq> [] \<longrightarrow> strings_wf d \<longrightarrow> strings_wf d'))"

lemma device_step_arg: "device_step d d' \<Longrightarrow> arg_step v d d'"
  by (simp add: device_step_def arg_step_def)

lemma cmd_device_args_step:
  assumes "(k, h) \<in> set (cmd_device_args env d)"
  shows "\<forall>d'. h v = Inr d' \<longrightarrow> arg_step v d d'"
proof -
  have "\<forall>(k, h) \<in> set (cmd_device_args env d). \<forall>d'. h v = Inr d' \<longrightarrow> arg_step v d d'"
    unfolding cmd_device_args_def
  proof (simp only: list.set ball_simps prod.case, intro conjI TrueI allI impI;
      unfold set_flagged_eq_Inr map_result_eq_Inr; elim exE conjE)
  qed (cases "v = []"; simp add: arg_step_def device_step_simps parse_awg_string_eq_Inr; fail |
    auto intro!: device_step_arg device_step_flags device_step_key
      dest: parse_port_flags parse_fwmark_flags parse_keyfile_length; fail)+
  with assms show ?thesis by blast
qed

lemma cmd_device_args_not_null: "(k, h) \<in> set (cmd_device_args env d) \<Longrightarrow> h v \<noteq> Inl Null_pointer"
proof -
  have "\<forall>(k, h) \<in> set (cmd_device_args env d). \<forall>v. h v \<noteq> Inl Null_pointer"
    unfolding cmd_device_args_def by simp
  then show "(k, h) \<in> set (cmd_device_args env d) \<Longrightarrow> h v \<noteq> Inl Null_pointer"
    by blast
qed

lemma cmd_peer_args_step:
  assumes "(k, h) \<in> set (cmd_peer_args env)" and "env_sizes env" and "at_end (allowedips p) cur"
    and "h v p cur = Inr r"
  shows "peer_step (p, cur) r"
proof -
  have "\<forall>(k, h) \<in> set (cmd_peer_args env). h v p cur = Inr r \<longrightarrow> peer_step (p, cur) r"
    unfolding cmd_peer_args_def
  proof (simp only: list.set ball_simps prod.case, intro conjI TrueI impI;
      unfold map_result_eq_Inr; elim exE conjE)
  qed (auto intro!: peer_step_fields dest: parse_endpoint_wf [OF assms(2)] parse_keyfile_length
    parse_allowedips_step(1) [OF assms(2) _ assms(3)])
  with assms show ?thesis by blast
qed

lemma cmd_peer_args_not_null: "(k, h) \<in> set (cmd_peer_args env) \<Longrightarrow> h v p cur \<noteq> Inl Null_pointer"
proof -
  have "\<forall>(k, h) \<in> set (cmd_peer_args env). \<forall>v p cur. h v p cur \<noteq> Inl Null_pointer"
    unfolding cmd_peer_args_def by simp
  then show "(k, h) \<in> set (cmd_peer_args env) \<Longrightarrow> h v p cur \<noteq> Inl Null_pointer"
    by blast
qed

lemma cmd_at_peer_wf:
  assumes "cmd_at_peer st f = Inr st'" and "cmd_wf st"
    and "\<And>p p' x. f p (cmd_allowedip st) = Inr (p', x) \<Longrightarrow> at_end (allowedips p) (cmd_allowedip st)
      \<Longrightarrow> peer_step (p, cmd_allowedip st) (p', x)"
  shows "cmd_wf st'" "strings_wf (cmd_device st') = strings_wf (cmd_device st)" 
proof -
  obtain d' a where w: "with_peer (cmd_device st) (cmd_peer st) (\<lambda>p. f p (cmd_allowedip st)) = Inr (d', a)"
    and st': "st' = st\<lparr>cmd_device := d', cmd_allowedip := a\<rparr>"
    using assms(1) by (auto simp: cmd_at_peer_def)
  note r = with_peer_wf [where ac = "cmd_allowedip st", OF w _ _ assms(3)]
  show "cmd_wf st'" "strings_wf (cmd_device st') = strings_wf (cmd_device st)"
    using r assms(2) by (auto simp: cmd_wf_def st')
qed

lemma cmd_new_peer_wf:
  assumes "cmd_new_peer st v = Inr st'" and "cmd_wf st"
  shows "cmd_wf st'" "strings_wf (cmd_device st') = strings_wf (cmd_device st)"
proof -
  let ?d = "(cmd_device st)\<lparr>peers := link_node (peers (cmd_device st)) (cmd_peer st) zero_peer\<rparr>"
  have c: "cursors_wf (cmd_device st) (cmd_peer st) (cmd_allowedip st)" "device_wf (cmd_device st)"
    using assms(2) by (simp_all add: cmd_wf_def)
  have "allowedips zero_peer = []"
    by (simp add: zero_peer_def)
  note l = link_peer_wf [OF c zero_wf(1) this]
  let ?f = "\<lambda>p. map_result (\<lambda>k. (p\<lparr>public_key := k, flags := flags p OR WGPEER_HAS_PUBLIC_KEY\<rparr>, None))
      (key_result v (parse_key (public_key p) v))"
  obtain d' a where w: "with_peer ?d (linked_cursor (cmd_peer st)) ?f = Inr (d', a)"
    and st': "st' = st\<lparr>cmd_device := d', cmd_peer := linked_cursor (cmd_peer st), cmd_allowedip := a\<rparr>"
    using assms(1) by (auto simp: cmd_new_peer_def Let_def)
  have "peer_step (p, None) (p', x)" if "?f p = Inr (p', x)" for p p' x
    using that by (auto intro!: peer_step_fields dest: key_result_length)
  note r = with_peer_wf [OF w l(1,2) this]
  show "cmd_wf st'" "strings_wf (cmd_device st') = strings_wf (cmd_device st)"
    using r l(3) by (auto simp: cmd_wf_def st')
qed

lemma config_read_cmd_step_wf:
  assumes "config_read_cmd_step env st arg rest = Inr (st', n)" and "env_sizes env" and "cmd_wf st"
  shows "cmd_wf st'"
    and "[] \<notin> set rest \<Longrightarrow> strings_wf (cmd_device st) \<Longrightarrow> strings_wf (cmd_device st')"
proof -
  consider (dev) h d' where "rest \<noteq> []" "(arg, h) \<in> set (cmd_device_args env (cmd_device st))"
      "h (hd rest) = Inr d'" "st' = st\<lparr>cmd_device := d'\<rparr>"
    | (new) "cmd_new_peer st (hd rest) = Inr st'"
    | (rem) "cmd_at_peer st (\<lambda>p a. Inr (p\<lparr>flags := flags p OR WGPEER_REMOVE_ME\<rparr>, a)) = Inr st'"
    | (at) h where "(arg, h) \<in> set (cmd_peer_args env)" "cmd_at_peer st (h (hd rest)) = Inr st'"
    using assms(1)
    by (auto simp: config_read_cmd_step_def split: option.splits if_splits dest!: map_of_SomeD)
  then have "cmd_wf st' \<and> ([] \<notin> set rest \<longrightarrow> strings_wf (cmd_device st) \<longrightarrow> strings_wf (cmd_device st'))"
  proof cases
    case dev
    have "arg_step (hd rest) (cmd_device st) d'"
      using cmd_device_args_step [OF dev(2)] dev(3) by blast
    then show ?thesis
      using assms(3) dev(1,4) by (cases rest) (auto simp: arg_step_def cmd_wf_def cursors_wf_def)
  next
    case new
    then show ?thesis
      using cmd_new_peer_wf [OF new assms(3)] by blast
  next
    case rem
    show ?thesis
      using cmd_at_peer_wf [OF rem assms(3)] by (auto intro: peer_step_fields)
  next
    case at
    show ?thesis
      using cmd_at_peer_wf [OF at(2) assms(3)] cmd_peer_args_step [OF at(1) assms(2)] by blast
  qed
  then show "cmd_wf st'" "[] \<notin> set rest \<Longrightarrow> strings_wf (cmd_device st) \<Longrightarrow> strings_wf (cmd_device st')"
    by blast+
qed

lemma config_read_cmd_loop_wf:
  assumes "config_read_cmd_loop env st argv = Inr d" and "env_sizes env" and "cmd_wf st"
  shows "device_wf d \<and> ([] \<notin> set argv \<longrightarrow> strings_wf (cmd_device st) \<longrightarrow> strings_wf d)"
  using assms
proof (induction env st argv rule: config_read_cmd_loop.induct)
  case (2 env st arg rest)
  obtain st' n where s: "config_read_cmd_step env st arg rest = Inr (st', n)"
    and r: "config_read_cmd_loop env st' (drop n rest) = Inr d"
    using "2.prems"(1) by (auto split: sum.splits)
  note wf = config_read_cmd_step_wf [OF s "2.prems"(2,3)]
  show ?case
    using "2.IH" [OF s refl r "2.prems"(2) wf(1)] wf(2) by (auto dest: in_set_dropD)
qed (simp add: cmd_wf_def)

lemma config_read_cmd_step_not_null: "config_read_cmd_step env st arg rest \<noteq> Inl Null_pointer"
proof
  assume "config_read_cmd_step env st arg rest = Inl Null_pointer"
  then show False
    using cmd_device_args_not_null [of arg _ env "cmd_device st"] cmd_peer_args_not_null [of arg _ env]
    by (auto simp: config_read_cmd_step_def cmd_new_peer_def cmd_at_peer_def with_peer_def linked_cursor_def
        Let_def split: option.splits if_splits dest!: map_of_SomeD)
qed

lemma config_read_cmd_loop_not_null: "config_read_cmd_loop env st argv \<noteq> Inl Null_pointer"
  using config_read_cmd_step_not_null
  by (induction env st argv rule: config_read_cmd_loop.induct) (auto split: sum.split)

subsection \<open>Properties of the parser\<close>

text \<open>C18. A network mask is reported as clean exactly when every host bit of the address, from the
  prefix length up to the width of its family, is zero.\<close>

theorem validate_netmask_host_bits:
  assumes "allowedip_wf a"
  shows "validate_netmask a \<longleftrightarrow>
    (\<forall>k. unat (cidr a) \<le> k \<and> k < address_width a \<longrightarrow> \<not> address_bit (ip a) k)"
  by (rule validate_netmask_spec [OF assms])

theorem validate_netmask_host_bits_witness:
  "validate_netmask \<lparr>family = AF_INET, ip = [10, 0, 0, 0] @ replicate 12 0, cidr = 8\<rparr> \<longleftrightarrow>
    (\<forall>k. 8 \<le> k \<and> k < 32 \<longrightarrow> \<not> address_bit ([10, 0, 0, 0] @ replicate 12 0) k)"
  using validate_netmask_host_bits [of "\<lparr>family = AF_INET, ip = [10, 0, 0, 0] @ replicate 12 0, cidr = 8\<rparr>"]
  by (simp add: allowedip_wf_def address_width_def)

text \<open>C17. Reading a line keeps the invariant of the context: keys and addresses have their sizes,
  prefix lengths fit their family, every string whose flag is set is present, nonempty and below the
  limit, and the cursors point to the last peer and its last address. No line makes the code follow
  a null cursor.\<close>

theorem config_read_line_safe:
  assumes "env_sizes env" and "ctx_wf ctx"
  shows "case config_read_line env ctx line of
      Inl e \<Rightarrow> e \<noteq> Null_pointer
    | Inr ctx' \<Rightarrow> ctx_wf ctx'"
proof (cases "cleaned_line line = []")
  case False
  then show ?thesis
    using process_line_wf [OF assms] process_line_not_null [OF assms(2)]
    by (auto simp: config_read_line_cleaned split: sum.split)
qed (simp add: config_read_line_cleaned assms)

theorem config_read_line_safe_witness:
  "case config_read_line sample_env (config_read_init False) ''[Peer]'' of
      Inl e \<Rightarrow> e \<noteq> Null_pointer
    | Inr ctx' \<Rightarrow> ctx_wf ctx'"
  by (rule config_read_line_safe [OF sample_env_sizes])
     (simp add: ctx_wf_def config_read_init_def cursors_wf_def zero_device_def device_wf_def strings_wf_def
       string_wf_def Let_def c_flags)

text \<open>C21. A device read from the arguments of \<open>set\<close> has keys, addresses and prefix lengths of the
  right sizes; its strings are present when no argument is empty; no argument list makes the code
  follow a null pointer to the current peer.\<close>

theorem config_read_cmd_safe:
  assumes "env_sizes env"
  shows "case config_read_cmd env argv of
      Inl e \<Rightarrow> e \<noteq> Null_pointer
    | Inr d \<Rightarrow> device_wf d \<and> ([] \<notin> set argv \<longrightarrow> strings_wf d)"
proof -
  have "cmd_wf \<lparr>cmd_device = zero_device, cmd_peer = None, cmd_allowedip = None\<rparr>"
    by (simp add: cmd_wf_def cursors_wf_def) (simp add: zero_device_def)
  then show ?thesis
    using config_read_cmd_loop_wf [OF _ assms] config_read_cmd_loop_not_null
    unfolding config_read_cmd_def by (fastforce split: sum.split)
qed

theorem config_read_cmd_safe_witness:
  "case config_read_cmd sample_env [''jc'', ''4''] of
      Inl e \<Rightarrow> e \<noteq> Null_pointer
    | Inr d \<Rightarrow> device_wf d \<and> ([] \<notin> set [''jc'', ''4''] \<longrightarrow> strings_wf d)"
  by (rule config_read_cmd_safe [OF sample_env_sizes])

text \<open>C23. Reading allowed addresses only appends well-formed entries behind the cursor, and the
  warning about a nonzero host part, which prints the mask with \<open>%s\<close>, is never printed for an entry
  without a mask: the pointer it passes is not null.\<close>

theorem parse_allowedips_appends:
  assumes "env_sizes env" and "at_end (allowedips p) cur"
    and "parse_allowedips env p cur v = Inr (p', cur', warnings)"
  shows "(\<exists>new. allowedips p' = allowedips p @ new \<and> list_all allowedip_wf new) \<and>
    at_end (allowedips p') cur' \<and> (\<forall>(i, m) \<in> set warnings. m \<noteq> None)"
proof (cases "v = []")
  case False
  with assms(3) obtain as
    where as: "parse_allowedip_entries env (allowedips p) cur (Some v) = Inr (as, cur', warnings)"
      and "p' = p\<lparr>flags := flags p OR WGPEER_REPLACE_ALLOWEDIPS, allowedips := as\<rparr>"
    by (auto simp: parse_allowedips_def simp del: parse_allowedip_entries.simps)
  then show ?thesis
    using parse_allowedip_entries_wf [OF assms(1) as assms(2)] by simp
qed (use assms(2,3) in \<open>auto simp: parse_allowedips_def\<close>)

theorem parse_allowedips_appends_witness:
  "\<exists>p' cur' warnings. parse_allowedips sample_env zero_peer None ''10.0.0.0'' = Inr (p', cur', warnings) \<and>
    allowedips p' \<noteq> [] \<and> list_all allowedip_wf (allowedips p') \<and> at_end (allowedips p') cur' \<and>
    (\<forall>(i, m) \<in> set warnings. m \<noteq> None)"
proof -
  let ?a = "\<lparr>family = AF_INET, ip = [10, 0, 0, 0] @ replicate 12 0, cidr = 32\<rparr>"
  let ?p = "zero_peer\<lparr>flags := flags zero_peer OR WGPEER_REPLACE_ALLOWEDIPS, allowedips := [?a]\<rparr>"
  have v: "validate_netmask ?a"
    by (intro full_mask_valid) simp
  have r: "parse_allowedips sample_env zero_peer None ''10.0.0.0'' = Inr (?p, Some 0, [])"
    using v by (simp add: parse_allowedips_def strsep_def parse_allowedip_entry_def parse_ip_def strchr_def
      sample_env_def parse_cidr_def zero_allowedip_def link_node_def linked_cursor_def zero_peer_def)
  show ?thesis
    using parse_allowedips_appends [OF sample_env_sizes _ r] r
    by (intro exI [of _ ?p] exI [of _ "Some 0"] exI [of _ "[]"]) (simp add: zero_peer_def)
qed

text \<open>C27. The keepalive intervals accepted are \<open>off\<close> in any case and the decimal numerals up to
  65535, and the value stored is the numeral's.\<close>

theorem parse_persistent_keepalive_accepts:
  "parse_persistent_keepalive fl s = Inr (i, f) \<longleftrightarrow>
     f = fl OR WGPEER_HAS_PERSISTENT_KEEPALIVE_INTERVAL \<and>
     (strcasecmp_eq s ''off'' \<and> i = 0 \<or>
      dec_numeral s \<and> dec_value s \<le> 65535 \<and> unat i = dec_value s)"
proof -
  have "unat i = dec_value s \<longleftrightarrow> i = of_nat (dec_value s)" if "dec_value s \<le> 65535"
    using that by (auto simp: word_unat_eq_iff unat_of_nat take_bit_nat_eq_self)
  then show ?thesis
    using off_not_numeral [of s] by (auto simp: parse_persistent_keepalive_iff)
qed

text \<open>C26. Every mark survives being printed, in hexadecimal as \<open>showconf\<close> and \<open>show\<close> print it and in
  decimal as the kernel interface prints it, and read again.\<close>

theorem parse_fwmark_roundtrip:
  "parse_fwmark fl (CHR ''0'' # CHR ''x'' # show_hex (unat m)) = Inr (m, fl OR WGDEVICE_HAS_FWMARK) \<and>
   parse_fwmark fl (show_dec (unat m)) = Inr (m, fl OR WGDEVICE_HAS_FWMARK)"
proof
  have b: "unat m < 2 ^ 32"
    using unsigned_less [of m, where 'a = nat] by simp
  show "parse_fwmark fl (CHR ''0'' # CHR ''x'' # show_hex (unat m)) = Inr (m, fl OR WGDEVICE_HAS_FWMARK)"
    using parse_fwmark_hex [OF b] by simp
  have "\<not> (2 < length (show_dec (unat m)) \<and> show_dec (unat m) ! 0 = CHR ''0'' \<and> show_dec (unat m) ! 1 = CHR ''x'')"
  proof
    assume "2 < length (show_dec (unat m)) \<and> show_dec (unat m) ! 0 = CHR ''0'' \<and> show_dec (unat m) ! 1 = CHR ''x''"
    then have "isdigit_char CHR ''x''"
      using nth_mem [of 1 "show_dec (unat m)"] show_dec_digits [of "CHR ''x''" "unat m"] by auto
    then show False
      by (simp add: isdigit_char_iff)
  qed
  from parse_fwmark_dec [OF this]
  show "parse_fwmark fl (show_dec (unat m)) = Inr (m, fl OR WGDEVICE_HAS_FWMARK)"
    using b off_not_numeral [of "show_dec (unat m)"] by auto
qed

lemma parse_dns_retries_range: "parse_dns_retries env = Inr r \<Longrightarrow> r = - 1 \<or> 0 \<le> r"
  by (auto simp: parse_dns_retries_def Let_def split: option.splits if_splits prod.splits)

lemma never_returns_only_loop [simp]:
  "parse_dns_retries env \<noteq> Inl Never_returns" "split_endpoint v \<noteq> Inl Never_returns"
  "resolved_endpoint v g \<noteq> Inl Never_returns"
  by (auto simp: parse_dns_retries_def split_endpoint_def resolved_endpoint_def Let_def
      split: option.split prod.split list.split gai.split)

text \<open>C19. Resolving an endpoint fails to return exactly when the number of retries is
  \<open>infinity\<close>, the endpoint has a host and a port, and every attempt fails with a transient error.\<close>

theorem parse_endpoint_never_returns:
  "parse_endpoint env v = Inl Never_returns \<longleftrightarrow>
     parse_dns_retries env = Inr (- 1) \<and> v \<noteq> [] \<and>
     (\<exists>host port. split_endpoint v = Inr (host, port) \<and> (\<forall>k. transient (getaddrinfo env k host port)))"
proof -
  have lim: "resolve_endpoint env host port r 0 1000000 [] \<noteq> None" if "0 \<le> r" for host port r
    using resolve_endpoint_limited [of 1000000 "nat r" env host port 0 "[]"] that by auto
  have unlim: "resolve_endpoint env host port (- 1) 0 1000000 [] = None \<longleftrightarrow>
      (\<forall>k. transient (getaddrinfo env k host port))" for host port
    using resolve_endpoint_unlimited_returns [of env 0 _ host port]
      resolve_endpoint_unlimited_answer [of env host port 0]
    by (metis add_0 not_None_eq)
  have "parse_endpoint env v = Inl Never_returns \<longleftrightarrow>
      (\<exists>r host port. parse_dns_retries env = Inr r \<and> v \<noteq> [] \<and> split_endpoint v = Inr (host, port) \<and>
        resolve_endpoint env host port r 0 1000000 [] = None)"
    by (auto simp: parse_endpoint_def bind_result_eq_Inl split: option.splits if_splits)
       (metis not_None_eq surj_pair option.distinct(1))+
  also have "\<dots> \<longleftrightarrow> parse_dns_retries env = Inr (- 1) \<and> v \<noteq> [] \<and>
     (\<exists>host port. split_endpoint v = Inr (host, port) \<and> (\<forall>k. transient (getaddrinfo env k host port)))"
    using parse_dns_retries_range [of env] lim unlim by blast
  finally show ?thesis .
qed

text \<open>C24. A limited number of retries bounds the work: at most \<open>retries\<close> pauses of at most 20 seconds,
  every attempt before the last failing transiently, and the answer is that of the last attempt; a
  transient failure is reported only when the retries are used up.\<close>

theorem resolve_endpoint_bounded:
  "\<exists>k \<le> r. \<exists>pauses. resolve_endpoint env host port (int r) 0 1000000 [] = Some (getaddrinfo env k host port, pauses) \<and>
     length pauses = k \<and> (\<forall>t \<in> set pauses. t \<le> 20000000) \<and>
     (\<forall>j < k. transient (getaddrinfo env j host port)) \<and>
     (transient (getaddrinfo env k host port) \<longrightarrow> k = r)"
  using resolve_endpoint_limited [of 1000000 r env host port 0 "[]"] by simp

theorem resolve_endpoint_bounded_witness:
  "\<exists>k \<le> 15. \<exists>pauses. resolve_endpoint sample_env ''192.0.2.1'' ''51820'' (int 15) 0 1000000 []
      = Some (getaddrinfo sample_env k ''192.0.2.1'' ''51820'', pauses) \<and>
     length pauses = k \<and> (\<forall>t \<in> set pauses. t \<le> 20000000) \<and>
     (\<forall>j < k. transient (getaddrinfo sample_env j ''192.0.2.1'' ''51820'')) \<and>
     (transient (getaddrinfo sample_env k ''192.0.2.1'' ''51820'') \<longrightarrow> k = 15)"
  by (rule resolve_endpoint_bounded)

text \<open>C25. What is read of a line. A comment and what follows it are ignored. In a line that does not start with a packet template key all white
  space is ignored. A line that starts with such a key, in either case, keeps the white space inside its value and loses it around the
  value. The start is the very first character: a packet template on an indented line loses the white space inside its value too.\<close>

theorem config_read_line_cleans:
  "config_read_line env ctx (s @ CHR ''#'' # t) = config_read_line env ctx s \<and>
   (\<not> special_line s \<longrightarrow> config_read_line env ctx s = config_read_line env ctx (strip_spaces s)) \<and>
   (\<forall>key sp v. template_key key \<and> list_all isspace_char sp \<and> CHR ''#'' \<notin> set v \<longrightarrow>
      config_read_line env ctx (key @ sp @ CHR ''='' # v) = process_line env ctx (key @ CHR ''='' # trim v) \<and>
      (\<forall>ind. ind \<noteq> [] \<and> list_all isspace_char ind \<longrightarrow>
         config_read_line env ctx (ind @ key @ sp @ CHR ''='' # v) = process_line env ctx (key @ CHR ''='' # strip_spaces v)))"
  using config_read_line_comment config_read_line_spaces config_read_line_template config_read_line_indented
  by (auto simp: list_all_iff)

theorem config_read_line_cleans_witness:
  "config_read_line sample_env (config_read_init False) ''I1 = a b'' = process_line sample_env (config_read_init False) ''I1=a b'' \<and>
   config_read_line sample_env (config_read_init False) '' I1 = a b'' = process_line sample_env (config_read_init False) ''I1=ab''"
proof -
  have "template_key ''I1'' \<and> list_all isspace_char '' '' \<and> CHR ''#'' \<notin> set '' a b''"
    by (simp add: template_key_def special_line_def strncasecmp_eq_def awg_special_handshake_keys_def c_char)
  moreover have "trim '' a b'' = ''a b''" "strip_spaces '' a b'' = ''ab''"
    by (simp_all add: trim_def strip_spaces_def c_char)
  ultimately show ?thesis
    using config_read_line_cleans [of sample_env "config_read_init False" "[]" "[]", THEN conjunct2, THEN conjunct2,
      THEN spec, THEN spec, THEN spec, of "''I1''" "'' ''" "'' a b''"] by (auto dest: spec [of _ "'' ''"])
qed

text \<open>C28. A count given as a decimal numeral is reduced modulo \<open>2 ^ 32\<close> before its range is checked,
  so numerals above 65535 are accepted: 4294967301 is read as 5.\<close>

theorem parse_uint16_truncates:
  "parse_uint16 name s = Inr v \<and> dec_numeral s \<and> dec_value s < 2 ^ 64 \<longleftrightarrow>
     dec_numeral s \<and> dec_value s < 2 ^ 64 \<and> dec_value s mod 2 ^ 32 < 2 ^ 16 \<and> v = of_nat (dec_value s mod 2 ^ 32)"
proof -
  have m: "min (dec_value s) (2 ^ 64 - 1) = dec_value s" if "dec_value s < 2 ^ 64"
    using that by simp
  have "parse_uint16 name s = (if dec_value s mod 2 ^ 32 < 2 ^ 16 then Inr (of_nat (dec_value s mod 2 ^ 32))
      else Inl (Exit s))" if "dec_numeral s" "dec_value s < 2 ^ 64"
    using parse_uint16_dec [OF that(1), of name] unfolding Let_def m [OF that(2)] .
  then show ?thesis
    by (auto split: if_splits)
qed

subsection \<open>Empty strings\<close>

text \<open>The arguments that are strings, with their flags and fields.\<close>

definition awg_string_args :: "(string \<times> u32 \<times> (wgdevice \<Rightarrow> string option)) list" where
  "awg_string_args =
     [(''h1'', WGDEVICE_HAS_H1, init_packet_magic_header), (''h2'', WGDEVICE_HAS_H2, response_packet_magic_header),
      (''h3'', WGDEVICE_HAS_H3, underload_packet_magic_header), (''h4'', WGDEVICE_HAS_H4, transport_packet_magic_header),
      (''i1'', WGDEVICE_HAS_I1, i1), (''i2'', WGDEVICE_HAS_I2, i2), (''i3'', WGDEVICE_HAS_I3, i3), (''i4'', WGDEVICE_HAS_I4, i4),
      (''i5'', WGDEVICE_HAS_I5, i5)]"

text \<open>A null pointer behind a set flag.\<close>

definition null_string :: "u32 \<Rightarrow> (wgdevice \<Rightarrow> string option) \<Rightarrow> wgdevice \<Rightarrow> bool" where
  "null_string fl field d \<longleftrightarrow> dev_flags d AND fl \<noteq> 0 \<and> field d = None"

lemma or_flag: "(f :: u32) AND fl \<noteq> 0 \<Longrightarrow> (f OR g) AND fl \<noteq> 0"
  by (simp add: bit.conj_disj_distrib2 or_eq_0_iff)

lemma parse_flags_keep:
  "parse_port env f v = Inr (p, g) \<Longrightarrow> f AND fl \<noteq> 0 \<Longrightarrow> g AND fl \<noteq> 0"
  "parse_fwmark f v = Inr (m, g) \<Longrightarrow> f AND fl \<noteq> 0 \<Longrightarrow> g AND fl \<noteq> 0"
  by (auto simp: parse_port_def parse_fwmark_def Let_def or_flag split: if_splits gai.splits sockaddr.splits option.splits prod.splits)

lemma string_args_peers:
  "(key, fl, field) \<in> set awg_string_args \<Longrightarrow> null_string fl field (d\<lparr>peers := ps\<rparr>) = null_string fl field d"
  by (auto simp: awg_string_args_def null_string_def)

lemma cmd_device_args_flags:
  assumes "(arg, h) \<in> set (cmd_device_args env d)" and "h v = Inr d'" and "dev_flags d AND fl \<noteq> 0"
  shows "dev_flags d' AND fl \<noteq> 0"
  using assms parse_flags_keep [where f = "dev_flags d" and fl = fl] by (auto simp: cmd_device_args_def set_flagged_def or_flag)

lemma cmd_device_args_field:
  assumes "(key, fl, field) \<in> set awg_string_args" and "(arg, h) \<in> set (cmd_device_args env d)" and "h v = Inr d'" and "arg \<noteq> key"
  shows "field d' = field d"
proof -
  have "list_all (\<lambda>(arg, h). \<forall>v d'. h v = Inr d' \<longrightarrow> list_all (\<lambda>(key, fl, field). arg \<noteq> key \<longrightarrow> field d' = field d) awg_string_args) (cmd_device_args env d)"
    by (simp only: cmd_device_args_def list.pred_inject prod.case set_flagged_def map_result_eq_Inr awg_string_args_def simp_thms)
      (intro conjI allI impI; elim exE conjE; simp split: prod.splits)
  then show ?thesis
    using assms by (fastforce simp: list_all_iff)
qed

lemma with_peer_null:
  assumes "(key, fl, field) \<in> set awg_string_args" and "with_peer d cur f = Inr (d', x)"
  shows "null_string fl field d' = null_string fl field d"
  using assms string_args_peers [OF assms(1)] by (auto simp: with_peer_def split: option.splits)

lemma cmd_step_null:
  assumes "(key, fl, field) \<in> set awg_string_args" and "arg \<noteq> key" and "null_string fl field (cmd_device st)"
    and "config_read_cmd_step env st arg rest = Inr (st', n)"
  shows "null_string fl field (cmd_device st')"
proof -
  have d: "null_string fl field d'" if "map_of (cmd_device_args env (cmd_device st)) arg = Some h" "h v = Inr d'" for h v d'
    using map_of_SomeD [OF that(1)] that(2) cmd_device_args_flags cmd_device_args_field [OF assms(1) _ _ assms(2)] assms(3)
    unfolding null_string_def by metis
  have p: "null_string fl field (cmd_device st')" if "cmd_at_peer st f = Inr st'" for f
    using that assms(3) by (auto simp: cmd_at_peer_def dest: with_peer_null [OF assms(1)])
  have q: "null_string fl field (cmd_device st')" if "cmd_new_peer st v = Inr st'" for v
    using that assms(3) by (auto simp: cmd_new_peer_def Let_def string_args_peers [OF assms(1)] dest: with_peer_null [OF assms(1)])
  show ?thesis
    using assms(4) d p q by (auto simp: config_read_cmd_step_def split: option.splits if_splits)
qed

lemma cmd_loop_null:
  assumes "(key, fl, field) \<in> set awg_string_args" and "key \<notin> set argv" and "null_string fl field (cmd_device st)"
    and "config_read_cmd_loop env st argv = Inr d"
  shows "null_string fl field d"
  using assms(2-4)
proof (induction env st argv rule: config_read_cmd_loop.induct)
  case (2 env st arg rest)
  obtain st' n where s: "config_read_cmd_step env st arg rest = Inr (st', n)"
    using 2(4) by (auto split: sum.splits)
  have "null_string fl field (cmd_device st')"
    using cmd_step_null [OF assms(1) _ 2(3) s] 2(2) by auto
  then show ?case
    using 2(1) [OF s refl] 2(2,4) s by (auto dest: in_set_dropD)
qed simp

lemma string_flags_nonzero:
  "WGDEVICE_HAS_H1 \<noteq> 0" "WGDEVICE_HAS_H2 \<noteq> 0" "WGDEVICE_HAS_H3 \<noteq> 0" "WGDEVICE_HAS_H4 \<noteq> 0" "WGDEVICE_HAS_I1 \<noteq> 0"
  "WGDEVICE_HAS_I2 \<noteq> 0" "WGDEVICE_HAS_I3 \<noteq> 0" "WGDEVICE_HAS_I4 \<noteq> 0" "WGDEVICE_HAS_I5 \<noteq> 0"
  by (simp_all add: device_flag_defs)

lemma empty_string_handler:
  assumes "(key, fl, field) \<in> set awg_string_args"
  obtains h d' where "map_of (cmd_device_args env d) key = Some h" and "h [] = Inr d'" and "null_string fl field d'"
proof -
  have self: "(f OR b) AND b = b" for f b :: u32
    by (rule bit_word_eqI) (auto simp: bit_simps)
  have "\<exists>h d'. map_of (cmd_device_args env d) key = Some h \<and> h [] = Inr d' \<and> null_string fl field d'"
    using assms unfolding awg_string_args_def list.set
    by (elim insertE emptyE; simp add: cmd_device_args_def set_flagged_def parse_awg_string_def null_string_def self string_flags_nonzero)
  then show thesis
    using that by blast
qed

text \<open>C29. An empty value of a header or of a packet template, for each of the nine arguments, is accepted by \<open>set\<close>. Whatever arguments follow it, the
  device that is read has the flag of the field set and a null pointer in the field, unless the argument is given once more.\<close>

theorem config_read_cmd_empty_string:
  assumes "(key, fl, field) \<in> set awg_string_args"
  shows "(\<exists>d. config_read_cmd env [key, []] = Inr d) \<and>
    (\<forall>rest d. key \<notin> set rest \<longrightarrow> config_read_cmd env (key # [] # rest) = Inr d \<longrightarrow> dev_flags d AND fl \<noteq> 0 \<and> field d = None)"
proof -
  let ?st = "\<lparr>cmd_device = zero_device, cmd_peer = None, cmd_allowedip = None\<rparr>"
  obtain h d where h: "map_of (cmd_device_args env zero_device) key = Some h" "h [] = Inr d" "null_string fl field d"
    using empty_string_handler [OF assms] .
  then have "config_read_cmd env (key # [] # rest) = config_read_cmd_loop env (?st\<lparr>cmd_device := d\<rparr>) rest" for rest
    by (simp add: config_read_cmd_def config_read_cmd_step_def)
  then show ?thesis
    using h(3) cmd_loop_null [OF assms, of _ "?st\<lparr>cmd_device := d\<rparr>" env] by (auto simp: null_string_def)
qed

theorem config_read_cmd_empty_string_witness:
  "\<exists>d. config_read_cmd sample_env [''i1'', [], ''h1'', ''5''] = Inr d \<and> dev_flags d AND WGDEVICE_HAS_I1 \<noteq> 0 \<and> i1 d = None"
proof -
  have k: "(''i1'', WGDEVICE_HAS_I1, i1) \<in> set awg_string_args"
    by (simp add: awg_string_args_def)
  obtain d where "config_read_cmd sample_env [''i1'', [], ''h1'', ''5''] = Inr d"
    by (simp add: config_read_cmd_def config_read_cmd_step_def cmd_device_args_def parse_awg_string_def set_flagged_def
        MAX_AWG_STRING_LEN_def)
  then show ?thesis
    using config_read_cmd_empty_string [OF k, of sample_env, THEN conjunct2, THEN spec, THEN spec, of "[''h1'', ''5'']" d] by simp
qed

end
