(* ===== verification/Setconf.thy ===== *)
theory Setconf
  imports Config
begin

unbundle bit_operations_syntax

text \<open>
  The commands that write an interface: \<open>setconf\<close>, \<open>addconf\<close> and \<open>syncconf\<close>
  (\<open>src/tunnel/tools/amneziawg-tools/src/setconf.c\<close>) and \<open>set\<close> (\<open>set.c\<close>). The interface itself is
  behind two arguments: \<open>get_device\<close> stands for \<open>ipc_get_device\<close> and \<open>set_device\<close>
  for \<open>ipc_set_device\<close>. A command returns its exit status and the device it hands to
  \<open>ipc_set_device\<close>, if it gets that far.
\<close>

definition IFNAMSIZ :: nat where "IFNAMSIZ = 16"

subsection \<open>Synchronising with the running interface\<close>

record pubkey_origin =
  pubkey :: "u8 list"
  from_file :: bool

definition pubkey_cmp :: "pubkey_origin \<Rightarrow> pubkey_origin \<Rightarrow> int" where
  "pubkey_cmp a b =
     (let ret = memcmp (pubkey a) (pubkey b) WG_KEY_LEN
      in if ret \<noteq> 0 then ret else of_bool (from_file a) - of_bool (from_file b))"

definition removed_peer :: "u8 list \<Rightarrow> wgpeer" where
  "removed_peer k = zero_peer\<lparr>flags := WGPEER_REMOVE_ME, public_key := k\<rparr>"

fun mark_removed :: "pubkey_origin list \<Rightarrow> wgpeer list \<Rightarrow> wgpeer list" where
  "mark_removed [] ps = ps"
| "mark_removed (o1 # rest) ps =
     (if from_file o1 then mark_removed rest ps
      else if rest = [] \<or> \<not> from_file (hd rest) \<or> memcmp (pubkey o1) (pubkey (hd rest)) WG_KEY_LEN \<noteq> 0
      then mark_removed rest (removed_peer (pubkey o1) # ps)
      else mark_removed rest ps)"

definition pubkey_origins :: "wgdevice \<Rightarrow> wgdevice \<Rightarrow> pubkey_origin list" where
  "pubkey_origins file runtime =
     map (\<lambda>p. \<lparr>pubkey = public_key p, from_file = True\<rparr>) (peers file) @
     map (\<lambda>p. \<lparr>pubkey = public_key p, from_file = False\<rparr>) (peers runtime)"

definition sync_conf :: "(string \<Rightarrow> int + wgdevice) \<Rightarrow> wgdevice \<Rightarrow> int + wgdevice" where
  "sync_conf get_device file =
     (if peers file = [] then Inr file
      else case get_device (dev_name file) of
        Inl e \<Rightarrow> Inl e
      | Inr runtime \<Rightarrow>
          if peers runtime = [] then Inr file
          else let file = file\<lparr>dev_flags := dev_flags file AND NOT WGDEVICE_REPLACE_PEERS\<rparr>
               in Inr (file\<lparr>peers := mark_removed (qsort pubkey_cmp (pubkey_origins file runtime)) (peers file)\<rparr>))"

subsection \<open>The commands\<close>

text \<open>\<open>getline\<close> until it fails: the lines of the file with their newlines, the last one possibly
  without. What a caller sees of a line ends at a NUL byte.\<close>

function getlines :: "string \<Rightarrow> string list" where
  "getlines [] = []"
| "getlines (c # cs) =
     (let line = takeWhile (\<lambda>x. x \<noteq> CHR 0x0A) (c # cs)
      in case dropWhile (\<lambda>x. x \<noteq> CHR 0x0A) (c # cs) of
           [] \<Rightarrow> [line]
         | nl # rest \<Rightarrow> (line @ [nl]) # getlines rest)"
  by pat_completeness auto
termination
proof (relation "measure length")
  fix c :: char and cs line nl rest
  assume "dropWhile (\<lambda>x. x \<noteq> CHR 0x0A) (c # cs) = nl # rest"
  then show "(rest, c # cs) \<in> measure length"
    using length_dropWhile_le [of "\<lambda>x. x \<noteq> CHR 0x0A" "c # cs"] by simp
qed simp

definition c_string :: "string \<Rightarrow> string" where
  "c_string s = takeWhile (\<lambda>c. c \<noteq> CHR 0x00) s"

fun config_read_lines :: "env \<Rightarrow> config_ctx \<Rightarrow> string list \<Rightarrow> config_ctx result" where
  "config_read_lines env ctx [] = Inr ctx"
| "config_read_lines env ctx (l # ls) =
     bind_result (config_read_line env ctx (c_string l)) (\<lambda>ctx. config_read_lines env ctx ls)"

definition read_config :: "env \<Rightarrow> bool \<Rightarrow> string \<Rightarrow> wgdevice result" where
  "read_config env app input =
     bind_result (config_read_lines env (config_read_init app) (getlines input)) config_read_finish"

definition setconf_main ::
  "env \<Rightarrow> (string \<Rightarrow> int + wgdevice) \<Rightarrow> (wgdevice \<Rightarrow> int) \<Rightarrow> string list \<Rightarrow> int \<times> wgdevice option" where
  "setconf_main env get_device set_device argv =
     (if length argv \<noteq> 3 then (1, None)
      else case fopen env (argv ! 2) of
        None \<Rightarrow> (1, None)
      | Some f \<Rightarrow>
          (case read_config env (argv ! 0 = ''addconf'') (bytes f) of
             Inl e \<Rightarrow> (1, None)
           | Inr d \<Rightarrow>
               let d = d\<lparr>dev_name := take (IFNAMSIZ - 1) (argv ! 1)\<rparr>
               in case (if argv ! 0 = ''syncconf'' then sync_conf get_device d else Inr d) of
                    Inl e \<Rightarrow> (1, None)
                  | Inr d \<Rightarrow> (if set_device d \<noteq> 0 then 1 else 0, Some d)))"

definition set_main :: "env \<Rightarrow> (wgdevice \<Rightarrow> int) \<Rightarrow> string list \<Rightarrow> int \<times> wgdevice option" where
  "set_main env set_device argv =
     (if length argv < 3 then (1, None)
      else case config_read_cmd env (drop 2 argv) of
        Inl e \<Rightarrow> (1, None)
      | Inr d \<Rightarrow>
          let d = d\<lparr>dev_name := take (IFNAMSIZ - 1) (argv ! 1)\<rparr>
          in (if set_device d \<noteq> 0 then 1 else 0, Some d))"

subsection \<open>Order of the public keys\<close>

lemma pubkey_cmp_le:
  "pubkey_cmp a b \<le> 0 \<longleftrightarrow> memcmp (pubkey a) (pubkey b) WG_KEY_LEN < 0 \<or>
     memcmp (pubkey a) (pubkey b) WG_KEY_LEN = 0 \<and> (from_file a \<longrightarrow> from_file b)"
  by (auto simp: pubkey_cmp_def Let_def)

interpretation pubkeys: qsort_order pubkey_cmp UNIV
proof
  fix a b c :: pubkey_origin
  show "pubkey_cmp a b \<le> 0 \<or> pubkey_cmp b a \<le> 0"
    using memcmp_swap [of "pubkey b" "pubkey a" WG_KEY_LEN] by (auto simp: pubkey_cmp_def Let_def)
  assume ab: "pubkey_cmp a b \<le> 0" and bc: "pubkey_cmp b c \<le> 0"
  let ?ab = "memcmp (pubkey a) (pubkey b) WG_KEY_LEN" and ?bc = "memcmp (pubkey b) (pubkey c) WG_KEY_LEN"
    and ?ac = "memcmp (pubkey a) (pubkey c) WG_KEY_LEN"
  have le: "?ab \<le> 0" "?bc \<le> 0"
    using ab bc by (auto simp: pubkey_cmp_le)
  then have "?ac \<le> 0"
    by (rule memcmp_trans)
  moreover have "?ab = 0 \<and> ?bc = 0" if "?ac = 0"
    using le memcmp_cong [OF that, of "pubkey b"] memcmp_swap [of "pubkey c" "pubkey b" WG_KEY_LEN] by auto
  ultimately show "pubkey_cmp a c \<le> 0"
    using ab bc by (auto simp: pubkey_cmp_le)
qed

text \<open>The keys the scan marks for removal, in the order it meets them.\<close>

fun stale_keys :: "pubkey_origin list \<Rightarrow> u8 list list" where
  "stale_keys [] = []"
| "stale_keys (o1 # rest) =
     (if \<not> from_file o1 \<and> (rest = [] \<or> \<not> from_file (hd rest) \<or> memcmp (pubkey o1) (pubkey (hd rest)) WG_KEY_LEN \<noteq> 0)
      then pubkey o1 # stale_keys rest else stale_keys rest)"

lemma mark_removed_stale: "mark_removed xs ps = map removed_peer (rev (stale_keys xs)) @ ps"
  by (induction xs arbitrary: ps) auto

abbreviation in_file :: "u8 list \<Rightarrow> pubkey_origin" where
  "in_file k \<equiv> \<lparr>pubkey = k, from_file = True\<rparr>"

abbreviation running :: "u8 list \<Rightarrow> pubkey_origin" where
  "running k \<equiv> \<lparr>pubkey = k, from_file = False\<rparr>"

lemma memcmp_keys:
  "length a = WG_KEY_LEN \<Longrightarrow> length b = WG_KEY_LEN \<Longrightarrow> memcmp a b WG_KEY_LEN = 0 \<longleftrightarrow> a = b"
  by (simp add: memcmp_eq_0)

lemma hd_rest_key:
  assumes "sorted_wrt (\<lambda>a b. pubkey_cmp a b \<le> 0) (running k # h # rest)" and "in_file k \<in> set (h # rest)"
    and "length k = WG_KEY_LEN" and "length (pubkey h) = WG_KEY_LEN"
  shows "pubkey h = k"
proof -
  have "pubkey_cmp (running k) h \<le> 0" "h = in_file k \<or> pubkey_cmp h (in_file k) \<le> 0"
    using assms(1,2) by auto
  then have "memcmp k (pubkey h) WG_KEY_LEN = 0"
    using memcmp_swap [of k "pubkey h" WG_KEY_LEN] memcmp_eq_0 [of k k WG_KEY_LEN]
    by (auto simp: pubkey_cmp_le)
  then show ?thesis
    using assms(3,4) memcmp_keys [of k "pubkey h"] by simp
qed

lemma next_in_file:
  assumes "sorted_wrt (\<lambda>a b. pubkey_cmp a b \<le> 0) (running k # rest)" and "running k \<notin> set rest"
    and "length k = WG_KEY_LEN" and "\<forall>o1 \<in> set rest. length (pubkey o1) = WG_KEY_LEN"
  shows "rest \<noteq> [] \<and> from_file (hd rest) \<and> memcmp k (pubkey (hd rest)) WG_KEY_LEN = 0
    \<longleftrightarrow> in_file k \<in> set rest"
proof (cases rest)
  case (Cons h t)
  obtain kh b where h: "h = \<lparr>pubkey = kh, from_file = b\<rparr>"
    by (cases h)
  have "kh = k" if "in_file k \<in> set rest"
    using hd_rest_key [of k h t] assms that by (simp add: Cons h)
  then show ?thesis
    using assms memcmp_keys [of k kh] by (auto simp: Cons h memcmp_eq_0)
qed simp

lemma stale_keys_iff:
  assumes "sorted_wrt (\<lambda>a b. pubkey_cmp a b \<le> 0) xs" and "distinct (filter (\<lambda>o1. \<not> from_file o1) xs)"
    and "\<forall>o1 \<in> set xs. length (pubkey o1) = WG_KEY_LEN"
  shows "k \<in> set (stale_keys xs) \<longleftrightarrow> running k \<in> set xs \<and> in_file k \<notin> set xs"
  using assms
proof (induction xs)
  case (Cons o1 rest)
  obtain k1 b where o1: "o1 = \<lparr>pubkey = k1, from_file = b\<rparr>"
    by (cases o1)
  have IH: "k \<in> set (stale_keys rest) \<longleftrightarrow> running k \<in> set rest \<and> in_file k \<notin> set rest"
    using Cons.prems by (intro Cons.IH) (auto split: if_splits)
  show ?case
  proof (cases b)
    case True
    have "running k1 \<notin> set rest"
    proof
      assume "running k1 \<in> set rest"
      then have "pubkey_cmp o1 (running k1) \<le> 0"
        using Cons.prems(1) by simp
      then show False
        using True memcmp_eq_0 [of k1 k1 WG_KEY_LEN] by (simp add: pubkey_cmp_le o1)
    qed
    then show ?thesis
      using True IH by (auto simp: o1)
  next
    case False
    have once: "running k1 \<notin> set rest"
      using Cons.prems(2) False by (simp add: o1)
    have "rest \<noteq> [] \<and> from_file (hd rest) \<and> memcmp k1 (pubkey (hd rest)) WG_KEY_LEN = 0
        \<longleftrightarrow> in_file k1 \<in> set rest"
      using Cons.prems once False by (intro next_in_file) (simp_all add: o1)
    then show ?thesis
      using False IH once by (auto simp: o1)
  qed
qed simp

lemma distinct_stale_keys:
  assumes "distinct (filter (\<lambda>o1. \<not> from_file o1) xs)"
  shows "distinct (stale_keys xs)"
  using assms
proof (induction xs)
  case (Cons o1 rest)
  obtain k1 b where o1: "o1 = \<lparr>pubkey = k1, from_file = b\<rparr>"
    by (cases o1)
  have sub: "k \<in> set (stale_keys ys) \<Longrightarrow> running k \<in> set ys" for k ys
  proof (induction ys)
    case (Cons y ys)
    then show ?case
      by (cases y) (auto split: if_splits)
  qed simp
  show ?case
    using Cons sub [of k1 rest] by (cases b) (auto simp: o1)
qed simp

text \<open>The keys of the peers an interface has after a device was handed to it: the old ones unless
  \<open>replace_peers\<close> is asked for, then for each peer in turn its key removed or added.\<close>

definition keys_after :: "u8 list set \<Rightarrow> wgdevice \<Rightarrow> u8 list set" where
  "keys_after old d =
     fold (\<lambda>p ks. if flags p AND WGPEER_REMOVE_ME \<noteq> 0 then ks - {public_key p} else insert (public_key p) ks)
       (peers d) (if dev_flags d AND WGDEVICE_REPLACE_PEERS \<noteq> 0 then {} else old)"

lemma keys_after_removed:
  "fold (\<lambda>p ks. if flags p AND WGPEER_REMOVE_ME \<noteq> 0 then ks - {public_key p} else insert (public_key p) ks)
     (map removed_peer rs) old = old - set rs"
  by (induction rs arbitrary: old) (auto simp: removed_peer_def c_flags)

lemma keys_after_added:
  assumes "\<forall>p \<in> set ps. flags p AND WGPEER_REMOVE_ME = 0"
  shows "fold (\<lambda>p ks. if flags p AND WGPEER_REMOVE_ME \<noteq> 0 then ks - {public_key p} else insert (public_key p) ks)
     ps old = old \<union> public_key ` set ps"
  using assms by (induction ps arbitrary: old) auto

lemma qsort_origins:
  assumes "device_wf file" and "device_wf runtime" and "distinct (map public_key (peers runtime))"
  defines "xs \<equiv> qsort pubkey_cmp (pubkey_origins file runtime)"
  shows "set (stale_keys xs) = public_key ` set (peers runtime) - public_key ` set (peers file)"
    and "distinct (stale_keys xs)"
proof -
  have len: "\<forall>o1 \<in> set xs. length (pubkey o1) = WG_KEY_LEN"
    using assms(1,2) by (auto simp: xs_def pubkey_origins_def device_wf_def peer_wf_def list_all_iff)
  have "filter (\<lambda>o1. \<not> from_file o1) (pubkey_origins file runtime) = map running (map public_key (peers runtime))"
    by (simp add: pubkey_origins_def filter_map comp_def)
  then have "mset (filter (\<lambda>o1. \<not> from_file o1) xs) = mset (map running (map public_key (peers runtime)))"
    unfolding xs_def by (metis mset_filter mset_qsort)
  moreover have "distinct (map running (map public_key (peers runtime)))"
    using assms(3) by (simp add: distinct_map inj_on_def)
  ultimately have dist: "distinct (filter (\<lambda>o1. \<not> from_file o1) xs)"
    by (metis distinct_count_atmost_1 mset_eq_setD set_mset_mset)
  have "sorted_wrt (\<lambda>a b. pubkey_cmp a b \<le> 0) xs"
    unfolding xs_def by (rule pubkeys.sorted_qsort) simp
  from stale_keys_iff [OF this dist len]
  show "set (stale_keys xs) = public_key ` set (peers runtime) - public_key ` set (peers file)"
    by (auto simp: xs_def pubkey_origins_def)
  show "distinct (stale_keys xs)"
    by (rule distinct_stale_keys [OF dist])
qed

text \<open>C16. After \<open>syncconf\<close> the interface has exactly the peers of the file: the peers that run and are not
  in the file, and no others, are marked for removal, each once and before the file's own peers, and
  the peers that stay are not dropped by a replacement of all peers.\<close>

theorem sync_conf_keys:
  assumes "get_device (dev_name file) = Inr runtime"
    and "distinct (map public_key (peers runtime))" and "device_wf file" and "device_wf runtime"
    and "\<forall>p \<in> set (peers file). flags p AND WGPEER_REMOVE_ME = 0"
    and "dev_flags file AND WGDEVICE_REPLACE_PEERS \<noteq> 0"
  shows "\<exists>d removed. sync_conf get_device file = Inr d \<and>
    keys_after (public_key ` set (peers runtime)) d = public_key ` set (peers file) \<and>
    peers d = map removed_peer removed @ peers file \<and> distinct removed \<and>
    (peers file \<noteq> [] \<longrightarrow> set removed = public_key ` set (peers runtime) - public_key ` set (peers file))"
proof (cases "peers file = [] \<or> peers runtime = []")
  case True
  then show ?thesis
    using assms(1,5,6) keys_after_added [OF assms(5)]
    by (intro exI [of _ "file"] exI [of _ "[]"]) (auto simp: sync_conf_def keys_after_def)
next
  case False
  define f where "f = file\<lparr>dev_flags := dev_flags file AND NOT WGDEVICE_REPLACE_PEERS\<rparr>"
  define removed where "removed = rev (stale_keys (qsort pubkey_cmp (pubkey_origins f runtime)))"
  define d where "d = f\<lparr>peers := map removed_peer removed @ peers file\<rparr>"
  have sync: "sync_conf get_device file = Inr d"
    using False assms(1) by (simp add: sync_conf_def Let_def mark_removed_stale d_def f_def removed_def)
  note q = qsort_origins [of f runtime, OF _ assms(4,2)]
  have removed: "set removed = public_key ` set (peers runtime) - public_key ` set (peers file)" "distinct removed"
    using q assms(3) by (auto simp: removed_def f_def device_wf_def)
  have "dev_flags d AND WGDEVICE_REPLACE_PEERS = 0"
    by (simp add: d_def f_def and.assoc)
  then have "keys_after (public_key ` set (peers runtime)) d = public_key ` set (peers file)"
    using keys_after_removed [of removed "public_key ` set (peers runtime)"] keys_after_added [OF assms(5)] removed(1)
    by (auto simp: keys_after_def d_def)
  then show ?thesis
    using sync removed by (intro exI [of _ d] exI [of _ removed]) (simp add: d_def)
qed

theorem sync_conf_keys_witness:
  "\<exists>d. sync_conf (\<lambda>_. Inr (zero_device\<lparr>peers := [removed_peer (replicate 32 1), removed_peer (replicate 32 2)]\<rparr>))
      (zero_device\<lparr>dev_flags := WGDEVICE_REPLACE_PEERS, peers := [zero_peer]\<rparr>) = Inr d \<and>
    keys_after {replicate 32 1, replicate 32 2} d = {replicate 32 0}"
proof -
  let ?f = "zero_device\<lparr>dev_flags := WGDEVICE_REPLACE_PEERS, peers := [zero_peer]\<rparr>"
  let ?r = "zero_device\<lparr>peers := [removed_peer (replicate 32 1), removed_peer (replicate 32 2)]\<rparr>"
  have pk: "public_key zero_peer = replicate 32 0" "public_key (removed_peer k) = k" for k
    by (simp_all add: zero_peer_def removed_peer_def)
  have "length (dev_public_key zero_device) = 32" "length (private_key zero_device) = 32"
      "peer_wf (removed_peer (replicate 32 1))" "peer_wf (removed_peer (replicate 32 2))"
    by (simp_all add: zero_device_def zero_peer_def removed_peer_def peer_wf_def)
  then have "device_wf ?f" "device_wf ?r"
    by (simp_all add: device_wf_def)
  moreover have "flags zero_peer AND WGPEER_REMOVE_ME = 0" "dev_flags ?f AND WGDEVICE_REPLACE_PEERS \<noteq> 0"
    by (simp_all add: zero_peer_def c_flags)
  moreover have "replicate 32 (1 :: u8) \<noteq> replicate 32 2"
    by (simp add: replicate_eq_replicate)
  ultimately show ?thesis
    using sync_conf_keys [of "\<lambda>_. Inr ?r" ?f ?r] by (auto simp: pk)
qed

subsection \<open>Reading a file\<close>

lemma config_read_init_wf: "ctx_wf (config_read_init app)"
  by (simp add: ctx_wf_def config_read_init_def cursors_wf_def zero_device_def device_wf_def strings_wf_def
      string_wf_def Let_def c_flags)

lemma config_read_line_wf:
  assumes "env_sizes env" and "ctx_wf ctx" and "config_read_line env ctx s = Inr ctx'"
  shows "ctx_wf ctx'"
  using assms process_line_wf [OF assms(1,2)] by (auto simp: config_read_line_cleaned split: if_splits)

lemma config_read_lines_wf:
  assumes "env_sizes env" and "ctx_wf ctx" and "config_read_lines env ctx ls = Inr ctx'"
  shows "ctx_wf ctx'"
  using assms(2,3)
  by (induction ls arbitrary: ctx) (auto dest: config_read_line_wf [OF assms(1)])

lemma config_read_lines_append:
  "config_read_lines env ctx (ls @ ms)
    = bind_result (config_read_lines env ctx ls) (\<lambda>ctx. config_read_lines env ctx ms)"
  by (induction ls arbitrary: ctx) (auto simp: bind_result_def split: sum.split)

lemma read_config_wf:
  assumes "env_sizes env" and "read_config env app input = Inr d"
  shows "device_wf d" "strings_wf d" "\<forall>p \<in> set (peers d). flags p AND WGPEER_HAS_PUBLIC_KEY \<noteq> 0"
proof -
  obtain ctx where c: "config_read_lines env (config_read_init app) (getlines input) = Inr ctx"
    and f: "config_read_finish ctx = Inr d"
    using assms(2) by (auto simp: read_config_def)
  have "ctx_wf ctx"
    by (rule config_read_lines_wf [OF assms(1) config_read_init_wf c])
  then show "device_wf d" "strings_wf d" "\<forall>p \<in> set (peers d). flags p AND WGPEER_HAS_PUBLIC_KEY \<noteq> 0"
    using f by (auto simp: config_read_finish_def ctx_wf_def list_all_iff split: if_splits)
qed

lemma sync_conf_shape:
  assumes "sync_conf get_device f = Inr d" and "device_wf f" and "\<And>n r. get_device n = Inr r \<Longrightarrow> device_wf r"
  shows "\<exists>removed fl. d = f\<lparr>dev_flags := dev_flags f AND fl, peers := map removed_peer removed @ peers f\<rparr> \<and>
    list_all (\<lambda>k. length k = WG_KEY_LEN) removed"
proof (cases "peers f = [] \<or> (\<exists>r. get_device (dev_name f) = Inr r \<and> peers r = [])")
  case True
  then have "d = f"
    using assms(1) by (auto simp: sync_conf_def split: if_splits)
  then show ?thesis
    by (intro exI [of _ "[]"] exI [of _ "- 1"]) simp
next
  case False
  then obtain r where r: "get_device (dev_name f) = Inr r" "peers f \<noteq> []" "peers r \<noteq> []"
    using assms(1) by (auto simp: sync_conf_def split: sum.splits)
  let ?xs = "qsort pubkey_cmp (pubkey_origins f r)"
  have len: "\<forall>o1 \<in> set ?xs. length (pubkey o1) = WG_KEY_LEN"
    using assms(2) assms(3) [OF r(1)] by (auto simp: pubkey_origins_def device_wf_def peer_wf_def list_all_iff)
  have "set (stale_keys ys) \<subseteq> pubkey ` set ys" for ys
    by (induction ys) auto
  then have "list_all (\<lambda>k. length k = WG_KEY_LEN) (rev (stale_keys ?xs))"
    using len by (fastforce simp: list_all_iff)
  moreover have "pubkey_origins (f\<lparr>dev_flags := x\<rparr>) r = pubkey_origins f r" for x
    by (simp add: pubkey_origins_def)
  then have "d = f\<lparr>dev_flags := dev_flags f AND NOT WGDEVICE_REPLACE_PEERS,
      peers := map removed_peer (rev (stale_keys ?xs)) @ peers f\<rparr>"
    using assms(1) r by (simp add: sync_conf_def mark_removed_stale Let_def)
  ultimately show ?thesis by blast
qed

lemma removed_peer_wf [simp]: "peer_wf (removed_peer k) \<longleftrightarrow> length k = WG_KEY_LEN"
  by (simp add: removed_peer_def peer_wf_def zero_peer_def)

lemma device_to_interface:
  assumes "device_wf f" and "strings_wf f" and "list_all (\<lambda>k. length k = WG_KEY_LEN) removed"
  shows "device_wf (f\<lparr>dev_flags := dev_flags f AND fl, peers := map removed_peer removed @ peers f\<rparr>)"
    "strings_wf (f\<lparr>dev_flags := dev_flags f AND fl, peers := map removed_peer removed @ peers f\<rparr>)"
  using assms by (auto simp: device_wf_def strings_wf_def string_wf_def list.pred_map comp_def Let_def bit_simps)

text \<open>C20. Every device \<open>setconf\<close>, \<open>addconf\<close> and \<open>syncconf\<close> hand to the interface has keys, addresses and
  prefix lengths of the right sizes, all the strings its flags announce, a name that fits its buffer
  with the terminating NUL, and a public key for every peer that is not one \<open>syncconf\<close> removes.\<close>

theorem setconf_main_device:
  assumes "env_sizes env" and "setconf_main env get_device set_device argv = (ret, Some d)"
    and "\<And>n r. get_device n = Inr r \<Longrightarrow> device_wf r"
  shows "device_wf d \<and> strings_wf d \<and> length (dev_name d) < IFNAMSIZ \<and>
    (\<forall>p \<in> set (peers d). flags p AND WGPEER_HAS_PUBLIC_KEY \<noteq> 0 \<or> p = removed_peer (public_key p))"
proof -
  obtain fd where fd: "fopen env (argv ! 2) = Some fd" and n: "length argv = 3"
    using assms(2) by (auto simp: setconf_main_def split: if_splits option.splits)
  obtain d0 where d0: "read_config env (argv ! 0 = ''addconf'') (bytes fd) = Inr d0"
    using assms(2) fd n by (auto simp: setconf_main_def split: sum.splits)
  have d: "d = d0\<lparr>dev_name := take (IFNAMSIZ - 1) (argv ! 1)\<rparr> \<or>
      sync_conf get_device (d0\<lparr>dev_name := take (IFNAMSIZ - 1) (argv ! 1)\<rparr>) = Inr d"
    using assms(2) fd n d0 by (auto simp: setconf_main_def Let_def split: if_splits sum.splits)
  define d1 where d1: "d1 = d0\<lparr>dev_name := take (IFNAMSIZ - 1) (argv ! 1)\<rparr>"
  note wf0 = read_config_wf [OF assms(1) d0]
  have wf1: "device_wf d1" "strings_wf d1" "length (dev_name d1) < IFNAMSIZ"
    using wf0 by (simp_all add: d1 device_wf_def strings_wf_def IFNAMSIZ_def)
  obtain removed fl where d: "d = d1\<lparr>dev_flags := dev_flags d1 AND fl, peers := map removed_peer removed @ peers d1\<rparr>"
    and removed: "list_all (\<lambda>k. length k = WG_KEY_LEN) removed"
  proof (cases "d = d1")
    case True
    then show ?thesis
      by (intro that [of "[]" "- 1"]) simp_all
  next
    case False
    then show ?thesis
      using sync_conf_shape [of get_device d1 d] d assms(3) wf1(1) that unfolding d1 by blast
  qed
  have "public_key (removed_peer k) = k" for k
    by (simp add: removed_peer_def)
  then show ?thesis
    using device_to_interface [OF wf1(1,2) removed, of fl] wf1(3) wf0(3) by (auto simp: d d1)
qed

theorem setconf_main_device_witness:
  "\<exists>ret d. setconf_main (sample_env\<lparr>fopen := (\<lambda>_. Some \<lparr>bytes = [], read_error = False, seekable = True\<rparr>)\<rparr>) (\<lambda>_. Inl 1) (\<lambda>_. 0)
      [''setconf'', ''wg0'', ''f''] = (ret, Some d) \<and> device_wf d \<and> strings_wf d"
proof -
  let ?env = "sample_env\<lparr>fopen := (\<lambda>_. Some \<lparr>bytes = [], read_error = False, seekable = True\<rparr>)\<rparr>"
  let ?d = "(device (config_read_init False))\<lparr>dev_name := ''wg0''\<rparr>"
  have e: "env_sizes ?env"
    using sample_env_sizes by (simp add: env_sizes_def)
  have r: "setconf_main ?env (\<lambda>_. Inl 1) (\<lambda>_. 0) [''setconf'', ''wg0'', ''f''] = (0, Some ?d)"
    by (simp add: setconf_main_def read_config_def config_read_finish_def config_read_init_def zero_device_def
        IFNAMSIZ_def)
  have "device_wf ?d \<and> strings_wf ?d"
    using setconf_main_device [OF e r] by simp
  with r show ?thesis by blast
qed

end
