(* ===== verification/Showconf.thy ===== *)
theory Showconf
  imports Setconf
begin

unbundle bit_operations_syntax

text \<open>
  The command that prints an interface in the format of a configuration file,
  \<open>src/tunnel/tools/amneziawg-tools/src/showconf.c\<close>, and the round trip through the parser. The
  output is the string printed; \<open>%s\<close> of a null pointer prints \<open>(null)\<close>, as the GNU C library does.
\<close>

abbreviation NL :: char where "NL \<equiv> CHR 0x0A"

definition print_if :: "bool \<Rightarrow> string \<Rightarrow> string" where
  "print_if c s = (if c then s else [])"

definition fmt_s :: "string option \<Rightarrow> string" where
  "fmt_s s = (case s of None \<Rightarrow> ''(null)'' | Some v \<Rightarrow> v)"

definition key_line :: "string \<Rightarrow> string \<Rightarrow> string" where
  "key_line k v = k @ '' = '' @ v @ [NL]"

definition showconf_fields :: "wgdevice \<Rightarrow> string" where
  "showconf_fields d =
     (let f = dev_flags d in
      print_if (listen_port d \<noteq> 0) (key_line ''ListenPort'' (show_dec (unat (listen_port d)))) @
      print_if (fwmark d \<noteq> 0) (key_line ''FwMark'' (''0x'' @ show_hex (unat (fwmark d)))) @
      print_if (f AND WGDEVICE_HAS_PRIVATE_KEY \<noteq> 0) (key_line ''PrivateKey'' (key_to_base64 (private_key d))) @
      print_if (f AND WGDEVICE_HAS_JC \<noteq> 0) (key_line ''Jc'' (show_dec (unat (junk_packet_count d)))) @
      print_if (f AND WGDEVICE_HAS_JMIN \<noteq> 0) (key_line ''Jmin'' (show_dec (unat (junk_packet_min_size d)))) @
      print_if (f AND WGDEVICE_HAS_JMAX \<noteq> 0) (key_line ''Jmax'' (show_dec (unat (junk_packet_max_size d)))) @
      print_if (f AND WGDEVICE_HAS_S1 \<noteq> 0) (key_line ''S1'' (show_dec (unat (init_packet_junk_size d)))) @
      print_if (f AND WGDEVICE_HAS_S2 \<noteq> 0) (key_line ''S2'' (show_dec (unat (response_packet_junk_size d)))) @
      print_if (f AND WGDEVICE_HAS_S3 \<noteq> 0) (key_line ''S3'' (show_dec (unat (cookie_reply_packet_junk_size d)))) @
      print_if (f AND WGDEVICE_HAS_S4 \<noteq> 0) (key_line ''S4'' (show_dec (unat (transport_packet_junk_size d)))) @
      print_if (f AND WGDEVICE_HAS_H1 \<noteq> 0) (key_line ''H1'' (fmt_s (init_packet_magic_header d))) @
      print_if (f AND WGDEVICE_HAS_H2 \<noteq> 0) (key_line ''H2'' (fmt_s (response_packet_magic_header d))) @
      print_if (f AND WGDEVICE_HAS_H3 \<noteq> 0) (key_line ''H3'' (fmt_s (underload_packet_magic_header d))) @
      print_if (f AND WGDEVICE_HAS_H4 \<noteq> 0) (key_line ''H4'' (fmt_s (transport_packet_magic_header d))) @
      print_if (f AND WGDEVICE_HAS_I1 \<noteq> 0) (key_line ''I1'' (fmt_s (i1 d))) @
      print_if (f AND WGDEVICE_HAS_I2 \<noteq> 0) (key_line ''I2'' (fmt_s (i2 d))) @
      print_if (f AND WGDEVICE_HAS_I3 \<noteq> 0) (key_line ''I3'' (fmt_s (i3 d))) @
      print_if (f AND WGDEVICE_HAS_I4 \<noteq> 0) (key_line ''I4'' (fmt_s (i4 d))) @
      print_if (f AND WGDEVICE_HAS_I5 \<noteq> 0) (key_line ''I5'' (fmt_s (i5 d))))"

definition showconf_interface :: "wgdevice \<Rightarrow> string" where
  "showconf_interface d = ''[Interface]'' @ NL # showconf_fields d @ [NL]"

text \<open>An address is skipped when its family is unknown; the separator depends on whether another
  node follows, not on whether it will be printed.\<close>

fun showconf_allowedips :: "env \<Rightarrow> wgallowedip list \<Rightarrow> string" where
  "showconf_allowedips env [] = []"
| "showconf_allowedips env (a # as) =
     (if family a = AF_INET \<or> family a = AF_INET6 then
        (if family a = AF_INET then inet_ntop4 env (ip4 a) else inet_ntop6 env (ip6 a)) @
        ''/'' @ show_dec (unat (cidr a)) @ print_if (as \<noteq> []) '', ''
      else []) @ showconf_allowedips env as"

definition fmt_endpoint :: "env \<Rightarrow> sockaddr \<Rightarrow> string option" where
  "fmt_endpoint env a =
     (if a = SA_UNSPEC then None
      else case getnameinfo env a of
        None \<Rightarrow> None
      | Some (host, service) \<Rightarrow>
          Some (if is_SA_IN6 a \<and> strchr host CHR '':'' \<noteq> None
                then ''['' @ host @ '']:'' @ service else host @ '':'' @ service))"

definition showconf_peer :: "env \<Rightarrow> wgpeer \<Rightarrow> string" where
  "showconf_peer env p =
     ''[Peer]'' @ [NL] @
     key_line ''PublicKey'' (key_to_base64 (public_key p)) @
     print_if (flags p AND WGPEER_HAS_PRESHARED_KEY \<noteq> 0) (key_line ''PresharedKey'' (key_to_base64 (preshared_key p))) @
     print_if (flags p AND WGPEER_HAS_AWG \<noteq> 0) (key_line ''AdvancedSecurity'' (if awg p then ''on'' else ''off'')) @
     print_if (allowedips p \<noteq> []) (key_line ''AllowedIPs'' (showconf_allowedips env (allowedips p))) @
     (case fmt_endpoint env (endpoint p) of None \<Rightarrow> [] | Some e \<Rightarrow> key_line ''Endpoint'' e) @
     print_if (persistent_keepalive_interval p \<noteq> 0)
       (key_line ''PersistentKeepalive'' (show_dec (unat (persistent_keepalive_interval p))))"

fun showconf_peers :: "env \<Rightarrow> wgpeer list \<Rightarrow> string" where
  "showconf_peers env [] = []"
| "showconf_peers env (p # ps) = showconf_peer env p @ print_if (ps \<noteq> []) [NL] @ showconf_peers env ps"

definition showconf_device :: "env \<Rightarrow> wgdevice \<Rightarrow> string" where
  "showconf_device env d = showconf_interface d @ showconf_peers env (peers d)"

definition showconf_main :: "env \<Rightarrow> (string \<Rightarrow> int + wgdevice) \<Rightarrow> string list \<Rightarrow> int \<times> string" where
  "showconf_main env get_device argv =
     (if length argv \<noteq> 2 then (1, [])
      else case get_device (argv ! 1) of
        Inl e \<Rightarrow> (1, [])
      | Inr d \<Rightarrow> (0, showconf_device env d))"

subsection \<open>Reading printed text\<close>

definition read_text :: "env \<Rightarrow> config_ctx \<Rightarrow> string \<Rightarrow> config_ctx result" where
  "read_text env ctx s = config_read_lines env ctx (getlines s)"

lemma split_at_char:
  assumes "c \<notin> set l"
  shows "takeWhile (\<lambda>x. x \<noteq> c) (l @ c # rest) = l" "dropWhile (\<lambda>x. x \<noteq> c) (l @ c # rest) = c # rest"
  using assms by (induction l) auto

lemma getlines_line:
  assumes "NL \<notin> set l"
  shows "getlines (l @ NL # rest) = (l @ [NL]) # getlines rest"
proof -
  obtain c cs where "l @ NL # rest = c # cs"
    by (cases l) auto
  then show ?thesis
    using split_at_char [OF assms, of rest] by (simp add: Let_def)
qed

lemma read_text_Nil [simp]: "read_text env ctx [] = Inr ctx"
  by (simp add: read_text_def)

lemma read_text_line:
  "NL \<notin> set l \<Longrightarrow> read_text env ctx (l @ NL # rest)
    = bind_result (config_read_line env ctx (c_string (l @ [NL]))) (\<lambda>ctx. read_text env ctx rest)"
  by (simp add: read_text_def getlines_line)

text \<open>A text value: no NUL, no newline, no comment. A word: moreover no white space.\<close>

definition text_value :: "string \<Rightarrow> bool" where
  "text_value v = (CHR 0x00 \<notin> set v \<and> NL \<notin> set v \<and> CHR ''#'' \<notin> set v)"

definition word_value :: "string \<Rightarrow> bool" where
  "word_value v = (v \<noteq> [] \<and> text_value v \<and> (\<forall>c \<in> set v. \<not> isspace_char c))"

text \<open>A key that \<open>config_read_line\<close> does not treat as a packet template.\<close>

definition plain_key :: "string \<Rightarrow> bool" where
  "plain_key k = (word_value k \<and> 2 \<le> length k \<and> \<not> special_line k \<and> hd k \<noteq> CHR ''['')"

lemma isspace_NL [simp]: "isspace_char NL" "isspace_char CHR '' ''" "\<not> isspace_char CHR ''=''" "\<not> isspace_char CHR '',''"
  by (simp_all add: c_char)

lemma c_string_id: "CHR 0x00 \<notin> set s \<Longrightarrow> c_string s = s"
  by (auto simp: c_string_def takeWhile_eq_all_conv)

lemma uncomment_id: "CHR ''#'' \<notin> set s \<Longrightarrow> uncomment s = s"
  by (auto simp: uncomment_def takeWhile_eq_all_conv)

lemma strip_spaces_simps [simp]:
  "strip_spaces [] = []" "strip_spaces (a @ b) = strip_spaces a @ strip_spaces b"
  "strip_spaces (c # s) = (if isspace_char c then strip_spaces s else c # strip_spaces s)"
  by (simp_all add: strip_spaces_def)

lemma strip_spaces_word: "word_value v \<Longrightarrow> strip_spaces v = v"
  by (auto simp: word_value_def strip_spaces_def filter_id_conv)

lemma special_line_append: "2 \<le> length k \<Longrightarrow> special_line (k @ r) = special_line k"
  by (simp add: special_line_def strncasecmp_eq_def)

lemma read_key_line:
  assumes "plain_key k" and "text_value v"
  shows "read_text env ctx (key_line k v @ rest)
    = bind_result (process_line env ctx (k @ CHR ''='' # strip_spaces v)) (\<lambda>ctx. read_text env ctx rest)"
proof -
  let ?l = "k @ '' = '' @ v"
  have k: "word_value k" "2 \<le> length k" "\<not> special_line k"
    using assms(1) by (simp_all add: plain_key_def)
  then have t: "text_value ?l"
    using assms by (simp add: text_value_def word_value_def)
  have "read_text env ctx (key_line k v @ rest) = read_text env ctx (?l @ NL # rest)"
    by (simp add: key_line_def)
  also have "\<dots> = bind_result (config_read_line env ctx (?l @ [NL])) (\<lambda>ctx. read_text env ctx rest)"
    using t by (subst read_text_line) (auto simp: text_value_def c_string_id)
  also have "config_read_line env ctx (?l @ [NL]) = process_line env ctx (k @ CHR ''='' # strip_spaces v)"
  proof -
    have "\<not> special_line (?l @ [NL])"
      using k special_line_append [of k "'' = '' @ v @ [NL]"] by simp
    moreover have "uncomment (?l @ [NL]) = ?l @ [NL]"
      using t by (intro uncomment_id) (simp add: text_value_def)
    ultimately have "cleaned_line (?l @ [NL]) = k @ CHR ''='' # strip_spaces v"
      using strip_spaces_word [OF k(1)] by (simp add: cleaned_line_def)
    then show ?thesis
      by (simp add: config_read_line_cleaned)
  qed
  finally show ?thesis .
qed

lemma trim_value:
  assumes "v \<noteq> []" and "\<not> isspace_char (hd v)" and "\<not> isspace_char (last v)"
  shows "trim (CHR '' '' # v @ [NL]) = v"
proof -
  obtain c cs where v: "v = c # cs" using assms(1) by (cases v) auto
  have "dropWhile isspace_char (rev v) = rev v"
    using assms(1,3) by (cases v rule: rev_cases) auto
  then show ?thesis
    using assms by (simp add: trim_def v)
qed

lemma read_special_line:
  assumes "k \<in> set awg_special_handshake_keys" and "text_value v" and "v \<noteq> []"
    and "\<not> isspace_char (hd v)" and "\<not> isspace_char (last v)"
  shows "read_text env ctx (key_line k v @ rest)
    = bind_result (process_line env ctx (k @ CHR ''='' # v)) (\<lambda>ctx. read_text env ctx rest)"
proof -
  have k: "text_value k"
    using assms(1) by (auto simp: awg_special_handshake_keys_def text_value_def)
  have "read_text env ctx (key_line k v @ rest) = read_text env ctx ((k @ '' = '' @ v) @ NL # rest)"
    by (simp add: key_line_def)
  also have "\<dots> = bind_result (config_read_line env ctx (k @ '' '' @ CHR ''='' # (CHR '' '' # v @ [NL]))) (\<lambda>ctx. read_text env ctx rest)"
    using k assms(2) by (subst read_text_line) (auto simp: text_value_def c_string_id)
  also have "config_read_line env ctx (k @ '' '' @ CHR ''='' # (CHR '' '' # v @ [NL])) = process_line env ctx (k @ CHR ''='' # v)"
    using assms trim_value [OF assms(3-5)] config_read_line_special [of k "CHR '' '' # v @ [NL]" "'' ''"]
    by (simp add: text_value_def)
  finally show ?thesis .
qed

subsection \<open>The lines of the interface section\<close>

lemma process_device_keys:
  assumes "w \<noteq> []"
  shows
    "process_device_line env d (''ListenPort'' @ CHR ''='' # w)
      = map_result (\<lambda>(p, f). d\<lparr>listen_port := p, dev_flags := f\<rparr>) (parse_port env (dev_flags d) w)"
    "process_device_line env d (''FwMark'' @ CHR ''='' # w)
      = map_result (\<lambda>(m, f). d\<lparr>fwmark := m, dev_flags := f\<rparr>) (parse_fwmark (dev_flags d) w)"
    "process_device_line env d (''PrivateKey'' @ CHR ''='' # w)
      = set_flagged WGDEVICE_HAS_PRIVATE_KEY private_key_update d (key_result w (parse_key (private_key d) w))"
    "process_device_line env d (''Jc'' @ CHR ''='' # w)
      = set_flagged WGDEVICE_HAS_JC junk_packet_count_update d (parse_uint16 ''Jc'' w)"
    "process_device_line env d (''Jmin'' @ CHR ''='' # w)
      = set_flagged WGDEVICE_HAS_JMIN junk_packet_min_size_update d (parse_uint16 ''Jmin'' w)"
    "process_device_line env d (''Jmax'' @ CHR ''='' # w)
      = set_flagged WGDEVICE_HAS_JMAX junk_packet_max_size_update d (parse_uint16 ''Jmax'' w)"
    "process_device_line env d (''S1'' @ CHR ''='' # w)
      = set_flagged WGDEVICE_HAS_S1 init_packet_junk_size_update d (parse_uint16 ''S1'' w)"
    "process_device_line env d (''S2'' @ CHR ''='' # w)
      = set_flagged WGDEVICE_HAS_S2 response_packet_junk_size_update d (parse_uint16 ''S2'' w)"
    "process_device_line env d (''S3'' @ CHR ''='' # w)
      = set_flagged WGDEVICE_HAS_S3 cookie_reply_packet_junk_size_update d (parse_uint16 ''S3'' w)"
    "process_device_line env d (''S4'' @ CHR ''='' # w)
      = set_flagged WGDEVICE_HAS_S4 transport_packet_junk_size_update d (parse_uint16 ''S4'' w)"
    "process_device_line env d (''H1'' @ CHR ''='' # w)
      = set_flagged WGDEVICE_HAS_H1 init_packet_magic_header_update d (parse_awg_string ''H1'' w)"
    "process_device_line env d (''H2'' @ CHR ''='' # w)
      = set_flagged WGDEVICE_HAS_H2 response_packet_magic_header_update d (parse_awg_string ''H2'' w)"
    "process_device_line env d (''H3'' @ CHR ''='' # w)
      = set_flagged WGDEVICE_HAS_H3 underload_packet_magic_header_update d (parse_awg_string ''H3'' w)"
    "process_device_line env d (''H4'' @ CHR ''='' # w)
      = set_flagged WGDEVICE_HAS_H4 transport_packet_magic_header_update d (parse_awg_string ''H4'' w)"
    "process_device_line env d (''I1'' @ CHR ''='' # w)
      = set_flagged WGDEVICE_HAS_I1 i1_update d (parse_awg_string ''I1'' w)"
    "process_device_line env d (''I2'' @ CHR ''='' # w)
      = set_flagged WGDEVICE_HAS_I2 i2_update d (parse_awg_string ''I2'' w)"
    "process_device_line env d (''I3'' @ CHR ''='' # w)
      = set_flagged WGDEVICE_HAS_I3 i3_update d (parse_awg_string ''I3'' w)"
    "process_device_line env d (''I4'' @ CHR ''='' # w)
      = set_flagged WGDEVICE_HAS_I4 i4_update d (parse_awg_string ''I4'' w)"
    "process_device_line env d (''I5'' @ CHR ''='' # w)
      = set_flagged WGDEVICE_HAS_I5 i5_update d (parse_awg_string ''I5'' w)"
  using assms by (simp_all add: process_device_line_def get_value_def strncasecmp_eq_def)

lemma parse_uint16_show [simp]: "parse_uint16 name (show_dec (unat (v :: u16))) = Inr v"
proof -
  have b: "unat v < 65536"
    using unsigned_less [of v, where 'a = nat] by simp
  show ?thesis
    using parse_uint16_dec [of "show_dec (unat v)" name] b by (simp add: Let_def)
qed

lemma word_value_show [simp]: "2 \<le> b \<Longrightarrow> b \<le> 36 \<Longrightarrow> word_value (show_base b n)"
  using show_base_word_char [of b _ n] word_char_not_space word_char_neq
  by (fastforce simp: word_value_def text_value_def)

lemma codec_char_word: "codec_char c \<Longrightarrow> \<not> isspace_char c \<and> c \<noteq> CHR 0x00 \<and> c \<noteq> NL \<and> c \<noteq> CHR ''#''"
  by (auto simp: codec_char_def b64_value_def char_is_space_class Let_def split: if_splits)

context key_codec
begin

lemma word_value_enc: "word_value (enc key)"
  using enc_codec_char codec_char_word enc_not_Nil by (fastforce simp: word_value_def text_value_def)

end

text \<open>A line that is printed under a flag, as an update of the device.\<close>

definition put_flagged :: "u32 \<Rightarrow> u32 \<Rightarrow> (('a \<Rightarrow> 'a) \<Rightarrow> wgdevice \<Rightarrow> wgdevice) \<Rightarrow> 'a \<Rightarrow> wgdevice \<Rightarrow> wgdevice" where
  "put_flagged f fl upd x d =
     (if f AND fl \<noteq> 0 then (upd (\<lambda>_. x) d)\<lparr>dev_flags := dev_flags d OR fl\<rparr> else d)"

lemma tolower_not_bracket: "tolower_char c = CHR ''['' \<longleftrightarrow> c = CHR ''[''"
proof -
  have "char_of (n + 32) \<noteq> CHR ''[''" if "65 \<le> n" "n \<le> 90" for n :: nat
  proof
    assume "char_of (n + 32) = CHR ''[''"
    then have "of_char (char_of (n + 32) :: char) = (of_char CHR ''['' :: nat)"
      by (rule arg_cong)
    then show False
      using that by (simp add: of_char_of take_bit_eq_mod)
  qed
  then show ?thesis
    by (auto simp: tolower_char_def Let_def split: if_splits)
qed

lemma process_line_device:
  assumes "is_device_section ctx" and "c \<noteq> CHR ''[''"
  shows "process_line env ctx (c # l) = map_result (\<lambda>d. ctx\<lparr>device := d\<rparr>) (process_device_line env (device ctx) (c # l))"
proof -
  have "tolower_char c \<noteq> CHR ''[''"
    using assms(2) tolower_not_bracket by blast
  then show ?thesis
    using assms by (simp add: process_line_def strcasecmp_eq_def)
qed

lemma read_put_word:
  assumes "is_device_section ctx" and "plain_key k"
    and "f AND fl \<noteq> 0 \<Longrightarrow> word_value v"
    and "f AND fl \<noteq> 0 \<Longrightarrow> process_device_line env (device ctx) (k @ CHR ''='' # v) = set_flagged fl upd (device ctx) (Inr x)"
  shows "read_text env ctx (print_if (f AND fl \<noteq> 0) (key_line k v) @ rest)
    = read_text env (ctx\<lparr>device := put_flagged f fl upd x (device ctx)\<rparr>) rest"
proof (cases "f AND fl \<noteq> 0")
  case True
  obtain c cs where k: "k = c # cs" "c \<noteq> CHR ''[''"
    using assms(2) by (cases k) (auto simp: plain_key_def)
  have "text_value v" "strip_spaces v = v"
    using assms(3) [OF True] by (simp_all add: word_value_def strip_spaces_word)
  with True show ?thesis
    using read_key_line [OF assms(2), of v env ctx rest] assms(4) process_line_device [OF assms(1) k(2), of env "cs @ CHR ''='' # v"]
    by (simp add: print_if_def put_flagged_def k(1) set_flagged_def)
qed (simp add: print_if_def put_flagged_def)

lemma read_put_special:
  assumes "is_device_section ctx" and "k \<in> set awg_special_handshake_keys"
    and "f AND fl \<noteq> 0 \<Longrightarrow> text_value v \<and> v \<noteq> [] \<and> \<not> isspace_char (hd v) \<and> \<not> isspace_char (last v)"
    and "f AND fl \<noteq> 0 \<Longrightarrow> process_device_line env (device ctx) (k @ CHR ''='' # v) = set_flagged fl upd (device ctx) (Inr x)"
  shows "read_text env ctx (print_if (f AND fl \<noteq> 0) (key_line k v) @ rest)
    = read_text env (ctx\<lparr>device := put_flagged f fl upd x (device ctx)\<rparr>) rest"
proof (cases "f AND fl \<noteq> 0")
  case True
  obtain c cs where k: "k = c # cs" "c \<noteq> CHR ''[''"
    using assms(2) by (auto simp: awg_special_handshake_keys_def)
  show ?thesis
    using True read_special_line [OF assms(2), of v env ctx rest] assms(3,4) [OF True]
      process_line_device [OF assms(1) k(2), of env "cs @ CHR ''='' # v"]
    by (simp add: print_if_def put_flagged_def k(1) set_flagged_def)
qed (simp add: print_if_def put_flagged_def)

lemma plain_keys [simp]:
  "plain_key ''ListenPort''" "plain_key ''FwMark''" "plain_key ''PrivateKey''" "plain_key ''Jc''"
  "plain_key ''Jmin''" "plain_key ''Jmax''" "plain_key ''S1''" "plain_key ''S2''"
  "plain_key ''S3''" "plain_key ''S4''" "plain_key ''H1''" "plain_key ''H2''"
  "plain_key ''H3''" "plain_key ''H4''" "plain_key ''Endpoint''" "plain_key ''PublicKey''"
  "plain_key ''AllowedIPs''" "plain_key ''PersistentKeepalive''" "plain_key ''PresharedKey''" "plain_key ''AdvancedSecurity''"
  by (simp_all add: plain_key_def word_value_def text_value_def c_char special_line_def
      awg_special_handshake_keys_def strncasecmp_eq_def)

lemma read_counts:
  assumes "is_device_section ctx"
  shows
    "read_text env ctx (print_if (f AND WGDEVICE_HAS_JC \<noteq> 0) (key_line ''Jc'' (show_dec (unat v))) @ rest)
      = read_text env (ctx\<lparr>device := put_flagged f WGDEVICE_HAS_JC junk_packet_count_update v (device ctx)\<rparr>) rest"
    "read_text env ctx (print_if (f AND WGDEVICE_HAS_JMIN \<noteq> 0) (key_line ''Jmin'' (show_dec (unat v))) @ rest)
      = read_text env (ctx\<lparr>device := put_flagged f WGDEVICE_HAS_JMIN junk_packet_min_size_update v (device ctx)\<rparr>) rest"
    "read_text env ctx (print_if (f AND WGDEVICE_HAS_JMAX \<noteq> 0) (key_line ''Jmax'' (show_dec (unat v))) @ rest)
      = read_text env (ctx\<lparr>device := put_flagged f WGDEVICE_HAS_JMAX junk_packet_max_size_update v (device ctx)\<rparr>) rest"
    "read_text env ctx (print_if (f AND WGDEVICE_HAS_S1 \<noteq> 0) (key_line ''S1'' (show_dec (unat v))) @ rest)
      = read_text env (ctx\<lparr>device := put_flagged f WGDEVICE_HAS_S1 init_packet_junk_size_update v (device ctx)\<rparr>) rest"
    "read_text env ctx (print_if (f AND WGDEVICE_HAS_S2 \<noteq> 0) (key_line ''S2'' (show_dec (unat v))) @ rest)
      = read_text env (ctx\<lparr>device := put_flagged f WGDEVICE_HAS_S2 response_packet_junk_size_update v (device ctx)\<rparr>) rest"
    "read_text env ctx (print_if (f AND WGDEVICE_HAS_S3 \<noteq> 0) (key_line ''S3'' (show_dec (unat v))) @ rest)
      = read_text env (ctx\<lparr>device := put_flagged f WGDEVICE_HAS_S3 cookie_reply_packet_junk_size_update v (device ctx)\<rparr>) rest"
    "read_text env ctx (print_if (f AND WGDEVICE_HAS_S4 \<noteq> 0) (key_line ''S4'' (show_dec (unat v))) @ rest)
      = read_text env (ctx\<lparr>device := put_flagged f WGDEVICE_HAS_S4 transport_packet_junk_size_update v (device ctx)\<rparr>) rest"
  by (intro read_put_word [OF assms]; simp add: process_device_keys del: append.simps)+

text \<open>The strings \<open>showconf\<close> prints are read back: header ranges are words, packet templates have no
  white space at their ends.\<close>

definition header_ok :: "bool \<Rightarrow> string option \<Rightarrow> bool" where
  "header_ok present s = (present \<longrightarrow> (case s of None \<Rightarrow> False | Some v \<Rightarrow> word_value v \<and> length v < MAX_AWG_STRING_LEN))"

definition template_ok :: "bool \<Rightarrow> string option \<Rightarrow> bool" where
  "template_ok present s = (present \<longrightarrow> (case s of None \<Rightarrow> False | Some v \<Rightarrow>
     text_value v \<and> v \<noteq> [] \<and> \<not> isspace_char (hd v) \<and> \<not> isspace_char (last v) \<and> length v < MAX_AWG_STRING_LEN))"

lemma read_put_header:
  assumes "is_device_section ctx" and "plain_key k" and "header_ok (f AND fl \<noteq> 0) v"
    and "\<And>w. w \<noteq> [] \<Longrightarrow> process_device_line env (device ctx) (k @ CHR ''='' # w)
      = set_flagged fl upd (device ctx) (parse_awg_string k w)"
  shows "read_text env ctx (print_if (f AND fl \<noteq> 0) (key_line k (fmt_s v)) @ rest)
      = read_text env (ctx\<lparr>device := put_flagged f fl upd v (device ctx)\<rparr>) rest"
proof (rule read_put_word [OF assms(1,2)])
  assume "f AND fl \<noteq> 0"
  then obtain w where w: "v = Some w" "word_value w" "length w < MAX_AWG_STRING_LEN"
    using assms(3) by (auto simp: header_ok_def split: option.splits)
  then show "word_value (fmt_s v)"
    "process_device_line env (device ctx) (k @ CHR ''='' # fmt_s v) = set_flagged fl upd (device ctx) (Inr v)"
    using assms(4) [of w] by (simp_all add: fmt_s_def parse_awg_string_def word_value_def)
qed

lemma read_put_template:
  assumes "is_device_section ctx" and "k \<in> set awg_special_handshake_keys" and "template_ok (f AND fl \<noteq> 0) v"
    and "\<And>w. w \<noteq> [] \<Longrightarrow> process_device_line env (device ctx) (k @ CHR ''='' # w)
      = set_flagged fl upd (device ctx) (parse_awg_string k w)"
  shows "read_text env ctx (print_if (f AND fl \<noteq> 0) (key_line k (fmt_s v)) @ rest)
      = read_text env (ctx\<lparr>device := put_flagged f fl upd v (device ctx)\<rparr>) rest"
proof (rule read_put_special [OF assms(1,2)])
  assume "f AND fl \<noteq> 0"
  then obtain w where w: "v = Some w" "text_value w" "w \<noteq> []" "\<not> isspace_char (hd w)" "\<not> isspace_char (last w)"
      "length w < MAX_AWG_STRING_LEN"
    using assms(3) by (auto simp: template_ok_def split: option.splits)
  then show "text_value (fmt_s v) \<and> fmt_s v \<noteq> [] \<and> \<not> isspace_char (hd (fmt_s v)) \<and> \<not> isspace_char (last (fmt_s v))"
    "process_device_line env (device ctx) (k @ CHR ''='' # fmt_s v) = set_flagged fl upd (device ctx) (Inr v)"
    using assms(4) [of w] by (simp_all add: fmt_s_def parse_awg_string_def)
qed

lemma read_headers:
  assumes "is_device_section ctx"
  shows
    "header_ok (f AND WGDEVICE_HAS_H1 \<noteq> 0) v \<Longrightarrow>
      read_text env ctx (print_if (f AND WGDEVICE_HAS_H1 \<noteq> 0) (key_line ''H1'' (fmt_s v)) @ rest)
      = read_text env (ctx\<lparr>device := put_flagged f WGDEVICE_HAS_H1 init_packet_magic_header_update v (device ctx)\<rparr>) rest"
    "header_ok (f AND WGDEVICE_HAS_H2 \<noteq> 0) v \<Longrightarrow>
      read_text env ctx (print_if (f AND WGDEVICE_HAS_H2 \<noteq> 0) (key_line ''H2'' (fmt_s v)) @ rest)
      = read_text env (ctx\<lparr>device := put_flagged f WGDEVICE_HAS_H2 response_packet_magic_header_update v (device ctx)\<rparr>) rest"
    "header_ok (f AND WGDEVICE_HAS_H3 \<noteq> 0) v \<Longrightarrow>
      read_text env ctx (print_if (f AND WGDEVICE_HAS_H3 \<noteq> 0) (key_line ''H3'' (fmt_s v)) @ rest)
      = read_text env (ctx\<lparr>device := put_flagged f WGDEVICE_HAS_H3 underload_packet_magic_header_update v (device ctx)\<rparr>) rest"
    "header_ok (f AND WGDEVICE_HAS_H4 \<noteq> 0) v \<Longrightarrow>
      read_text env ctx (print_if (f AND WGDEVICE_HAS_H4 \<noteq> 0) (key_line ''H4'' (fmt_s v)) @ rest)
      = read_text env (ctx\<lparr>device := put_flagged f WGDEVICE_HAS_H4 transport_packet_magic_header_update v (device ctx)\<rparr>) rest"
  by (intro read_put_header [OF assms]; simp add: process_device_keys del: append.simps)+

lemma read_templates:
  assumes "is_device_section ctx"
  shows
    "template_ok (f AND WGDEVICE_HAS_I1 \<noteq> 0) v \<Longrightarrow>
      read_text env ctx (print_if (f AND WGDEVICE_HAS_I1 \<noteq> 0) (key_line ''I1'' (fmt_s v)) @ rest)
      = read_text env (ctx\<lparr>device := put_flagged f WGDEVICE_HAS_I1 i1_update v (device ctx)\<rparr>) rest"
    "template_ok (f AND WGDEVICE_HAS_I2 \<noteq> 0) v \<Longrightarrow>
      read_text env ctx (print_if (f AND WGDEVICE_HAS_I2 \<noteq> 0) (key_line ''I2'' (fmt_s v)) @ rest)
      = read_text env (ctx\<lparr>device := put_flagged f WGDEVICE_HAS_I2 i2_update v (device ctx)\<rparr>) rest"
    "template_ok (f AND WGDEVICE_HAS_I3 \<noteq> 0) v \<Longrightarrow>
      read_text env ctx (print_if (f AND WGDEVICE_HAS_I3 \<noteq> 0) (key_line ''I3'' (fmt_s v)) @ rest)
      = read_text env (ctx\<lparr>device := put_flagged f WGDEVICE_HAS_I3 i3_update v (device ctx)\<rparr>) rest"
    "template_ok (f AND WGDEVICE_HAS_I4 \<noteq> 0) v \<Longrightarrow>
      read_text env ctx (print_if (f AND WGDEVICE_HAS_I4 \<noteq> 0) (key_line ''I4'' (fmt_s v)) @ rest)
      = read_text env (ctx\<lparr>device := put_flagged f WGDEVICE_HAS_I4 i4_update v (device ctx)\<rparr>) rest"
    "template_ok (f AND WGDEVICE_HAS_I5 \<noteq> 0) v \<Longrightarrow>
      read_text env ctx (print_if (f AND WGDEVICE_HAS_I5 \<noteq> 0) (key_line ''I5'' (fmt_s v)) @ rest)
      = read_text env (ctx\<lparr>device := put_flagged f WGDEVICE_HAS_I5 i5_update v (device ctx)\<rparr>) rest"
  by (intro read_put_template [OF assms]; simp add: process_device_keys awg_special_handshake_keys_def del: append.simps)+

lemma parse_key_base64 [simp]:
  assumes "length buf = WG_KEY_LEN" and "length k = WG_KEY_LEN"
  shows "parse_key buf (key_to_base64 k) = (True, k)" "key_result s (True, k) = Inr k"
  using b64.dec_enc [of buf k] assms by (simp_all add: parse_key_def key_result_def)

lemma read_private_key:
  assumes "is_device_section ctx" and "length (private_key (device ctx)) = WG_KEY_LEN" and "length k = WG_KEY_LEN"
  shows "read_text env ctx (print_if (f AND WGDEVICE_HAS_PRIVATE_KEY \<noteq> 0) (key_line ''PrivateKey'' (key_to_base64 k)) @ rest)
      = read_text env (ctx\<lparr>device := put_flagged f WGDEVICE_HAS_PRIVATE_KEY private_key_update k (device ctx)\<rparr>) rest"
  using b64.word_value_enc [of k] b64.enc_not_Nil [of k] assms
  by (intro read_put_word [OF assms(1)]) (simp_all add: process_device_keys del: append.simps)

text \<open>\<open>getaddrinfo\<close> documents that a numeric service gives the port of that number.\<close>

definition passive_port_law :: "env \<Rightarrow> u16 \<Rightarrow> bool" where
  "passive_port_law env p = (case getaddrinfo_passive env (show_dec (unat p)) of
     Resolved (SA_IN a q) \<Rightarrow> q = p | Resolved (SA_IN6 a q f s) \<Rightarrow> q = p | _ \<Rightarrow> False)"

lemma read_device_line:
  assumes "is_device_section ctx" and "plain_key k" and "word_value v" and "process_device_line env (device ctx) (k @ CHR ''='' # v) = Inr d"
  shows "read_text env ctx (key_line k v @ rest) = read_text env (ctx\<lparr>device := d\<rparr>) rest"
proof -
  obtain c cs where k: "k = c # cs" "c \<noteq> CHR ''[''"
    using assms(2) by (cases k) (auto simp: plain_key_def)
  have "text_value v" "strip_spaces v = v"
    using assms(3) by (simp_all add: word_value_def strip_spaces_word)
  then show ?thesis
    using read_key_line [OF assms(2), of v env ctx rest] assms(4) process_line_device [OF assms(1) k(2), of env "cs @ CHR ''='' # v"]
    by (simp add: k(1))
qed

lemma read_listen_port:
  assumes "is_device_section ctx" and "p = 0 \<or> passive_port_law env p"
  shows "read_text env ctx (print_if (p \<noteq> 0) (key_line ''ListenPort'' (show_dec (unat p))) @ rest)
    = read_text env (ctx\<lparr>device := (device ctx)\<lparr>listen_port := (if p \<noteq> 0 then p else listen_port (device ctx)),
        dev_flags := dev_flags (device ctx) OR (if p \<noteq> 0 then WGDEVICE_HAS_LISTEN_PORT else 0)\<rparr>\<rparr>) rest"
proof (cases "p = 0")
  case False
  have "parse_port env (dev_flags (device ctx)) (show_dec (unat p)) = Inr (p, dev_flags (device ctx) OR WGDEVICE_HAS_LISTEN_PORT)"
    using assms(2) False by (auto simp: passive_port_law_def parse_port_def split: gai.splits sockaddr.splits)
  then have line: "process_device_line env (device ctx) (''ListenPort'' @ CHR ''='' # show_dec (unat p))
      = Inr ((device ctx)\<lparr>listen_port := p, dev_flags := dev_flags (device ctx) OR WGDEVICE_HAS_LISTEN_PORT\<rparr>)"
    by (simp add: process_device_keys del: append.simps)
  show ?thesis
    using False read_device_line [OF assms(1) plain_keys(1) _ line] by (simp add: print_if_def)
qed (simp add: print_if_def)

lemma read_fwmark:
  assumes "is_device_section ctx"
  shows "read_text env ctx (print_if (m \<noteq> 0) (key_line ''FwMark'' (''0x'' @ show_hex (unat m))) @ rest)
    = read_text env (ctx\<lparr>device := (device ctx)\<lparr>fwmark := (if m \<noteq> 0 then m else fwmark (device ctx)),
        dev_flags := dev_flags (device ctx) OR (if m \<noteq> 0 then WGDEVICE_HAS_FWMARK else 0)\<rparr>\<rparr>) rest"
proof (cases "m = 0")
  case False
  have b: "unat m < 2 ^ 32"
    using unsigned_less [of m, where 'a = nat] by simp
  have w: "word_value (''0x'' @ show_hex (unat m))"
    using word_value_show [of 16 "unat m"] by (simp add: word_value_def text_value_def c_char)
  have line: "process_device_line env (device ctx) (''FwMark'' @ CHR ''='' # (''0x'' @ show_hex (unat m)))
      = Inr ((device ctx)\<lparr>fwmark := m, dev_flags := dev_flags (device ctx) OR WGDEVICE_HAS_FWMARK\<rparr>)"
    using parse_fwmark_hex [OF b] by (subst process_device_keys) simp_all
  show ?thesis
    using False read_device_line [OF assms plain_keys(2) w line] by (simp add: print_if_def)
qed (simp add: print_if_def)

subsection \<open>The interface section\<close>

text \<open>Fields whose flag is not set have the value \<open>calloc\<close> gives them, as in every device the
  interface functions return; those whose flag is set can be printed and read.\<close>

definition unset_default :: "wgdevice \<Rightarrow> bool" where
  "unset_default d \<longleftrightarrow> (let f = dev_flags d in
     (f AND WGDEVICE_HAS_PRIVATE_KEY = 0 \<longrightarrow> private_key d = replicate WG_KEY_LEN 0) \<and>
     (f AND WGDEVICE_HAS_JC = 0 \<longrightarrow> junk_packet_count d = 0) \<and>
     (f AND WGDEVICE_HAS_JMIN = 0 \<longrightarrow> junk_packet_min_size d = 0) \<and>
     (f AND WGDEVICE_HAS_JMAX = 0 \<longrightarrow> junk_packet_max_size d = 0) \<and>
     (f AND WGDEVICE_HAS_S1 = 0 \<longrightarrow> init_packet_junk_size d = 0) \<and>
     (f AND WGDEVICE_HAS_S2 = 0 \<longrightarrow> response_packet_junk_size d = 0) \<and>
     (f AND WGDEVICE_HAS_S3 = 0 \<longrightarrow> cookie_reply_packet_junk_size d = 0) \<and>
     (f AND WGDEVICE_HAS_S4 = 0 \<longrightarrow> transport_packet_junk_size d = 0) \<and>
     (f AND WGDEVICE_HAS_H1 = 0 \<longrightarrow> init_packet_magic_header d = None) \<and>
     (f AND WGDEVICE_HAS_H2 = 0 \<longrightarrow> response_packet_magic_header d = None) \<and>
     (f AND WGDEVICE_HAS_H3 = 0 \<longrightarrow> underload_packet_magic_header d = None) \<and>
     (f AND WGDEVICE_HAS_H4 = 0 \<longrightarrow> transport_packet_magic_header d = None) \<and>
     (f AND WGDEVICE_HAS_I1 = 0 \<longrightarrow> i1 d = None) \<and>
     (f AND WGDEVICE_HAS_I2 = 0 \<longrightarrow> i2 d = None) \<and>
     (f AND WGDEVICE_HAS_I3 = 0 \<longrightarrow> i3 d = None) \<and>
     (f AND WGDEVICE_HAS_I4 = 0 \<longrightarrow> i4 d = None) \<and>
     (f AND WGDEVICE_HAS_I5 = 0 \<longrightarrow> i5 d = None))"

definition printable_strings :: "wgdevice \<Rightarrow> bool" where
  "printable_strings d \<longleftrightarrow> (let f = dev_flags d in
     header_ok (f AND WGDEVICE_HAS_H1 \<noteq> 0) (init_packet_magic_header d) \<and>
     header_ok (f AND WGDEVICE_HAS_H2 \<noteq> 0) (response_packet_magic_header d) \<and>
     header_ok (f AND WGDEVICE_HAS_H3 \<noteq> 0) (underload_packet_magic_header d) \<and>
     header_ok (f AND WGDEVICE_HAS_H4 \<noteq> 0) (transport_packet_magic_header d) \<and>
     template_ok (f AND WGDEVICE_HAS_I1 \<noteq> 0) (i1 d) \<and>
     template_ok (f AND WGDEVICE_HAS_I2 \<noteq> 0) (i2 d) \<and>
     template_ok (f AND WGDEVICE_HAS_I3 \<noteq> 0) (i3 d) \<and>
     template_ok (f AND WGDEVICE_HAS_I4 \<noteq> 0) (i4 d) \<and>
     template_ok (f AND WGDEVICE_HAS_I5 \<noteq> 0) (i5 d))"

definition printable_interface :: "env \<Rightarrow> wgdevice \<Rightarrow> bool" where
  "printable_interface env d \<longleftrightarrow> (listen_port d = 0 \<or> passive_port_law env (listen_port d)) \<and>
     length (private_key d) = WG_KEY_LEN \<and> unset_default d \<and> printable_strings d"

text \<open>The flags of the obfuscation parameters.\<close>

definition AWG_FLAGS :: u32 where
  "AWG_FLAGS = push_bit 5 (mask 16)"

text \<open>The interface \<open>setconf\<close> asks for when it is given the output of \<open>showconf\<close>: the same keys, numbers
  and strings, all peers replaced, and a private key and a mark even where none is printed.\<close>

definition configured_interface :: "wgdevice \<Rightarrow> wgdevice" where
  "configured_interface d = d\<lparr>dev_name := [], ifindex := 0, dev_public_key := replicate WG_KEY_LEN 0, peers := [],
     dev_flags := WGDEVICE_REPLACE_PEERS OR WGDEVICE_HAS_PRIVATE_KEY OR WGDEVICE_HAS_FWMARK OR
       (if listen_port d \<noteq> 0 then WGDEVICE_HAS_LISTEN_PORT else 0) OR (dev_flags d AND AWG_FLAGS)\<rparr>"

lemma and_flag: "k < 32 \<Longrightarrow> (f :: u32) AND push_bit k 1 = (if bit f k then push_bit k 1 else 0)"
  by (rule bit_word_eqI) (auto simp: bit_simps)

lemma flag_and_self: "fl = push_bit k 1 \<Longrightarrow> k < 32 \<Longrightarrow> (f :: u32) AND fl \<noteq> 0 \<Longrightarrow> f AND fl = fl"
  by (auto simp only: and_flag split: if_splits)

lemmas flag_selves =
  device_flag_defs [THEN flag_and_self]

lemma put_flagged_fields:
  "put_flagged f WGDEVICE_HAS_PRIVATE_KEY private_key_update k d = d\<lparr>private_key := (if f AND WGDEVICE_HAS_PRIVATE_KEY \<noteq> 0 then k else private_key d),
     dev_flags := dev_flags d OR (f AND WGDEVICE_HAS_PRIVATE_KEY)\<rparr>"
  "put_flagged f WGDEVICE_HAS_JC junk_packet_count_update v d = d\<lparr>junk_packet_count := (if f AND WGDEVICE_HAS_JC \<noteq> 0 then v else junk_packet_count d),
     dev_flags := dev_flags d OR (f AND WGDEVICE_HAS_JC)\<rparr>"
  "put_flagged f WGDEVICE_HAS_JMIN junk_packet_min_size_update v d = d\<lparr>junk_packet_min_size := (if f AND WGDEVICE_HAS_JMIN \<noteq> 0 then v else junk_packet_min_size d),
     dev_flags := dev_flags d OR (f AND WGDEVICE_HAS_JMIN)\<rparr>"
  "put_flagged f WGDEVICE_HAS_JMAX junk_packet_max_size_update v d = d\<lparr>junk_packet_max_size := (if f AND WGDEVICE_HAS_JMAX \<noteq> 0 then v else junk_packet_max_size d),
     dev_flags := dev_flags d OR (f AND WGDEVICE_HAS_JMAX)\<rparr>"
  "put_flagged f WGDEVICE_HAS_S1 init_packet_junk_size_update v d = d\<lparr>init_packet_junk_size := (if f AND WGDEVICE_HAS_S1 \<noteq> 0 then v else init_packet_junk_size d),
     dev_flags := dev_flags d OR (f AND WGDEVICE_HAS_S1)\<rparr>"
  "put_flagged f WGDEVICE_HAS_S2 response_packet_junk_size_update v d = d\<lparr>response_packet_junk_size := (if f AND WGDEVICE_HAS_S2 \<noteq> 0 then v else response_packet_junk_size d),
     dev_flags := dev_flags d OR (f AND WGDEVICE_HAS_S2)\<rparr>"
  "put_flagged f WGDEVICE_HAS_S3 cookie_reply_packet_junk_size_update v d = d\<lparr>cookie_reply_packet_junk_size := (if f AND WGDEVICE_HAS_S3 \<noteq> 0 then v else cookie_reply_packet_junk_size d),
     dev_flags := dev_flags d OR (f AND WGDEVICE_HAS_S3)\<rparr>"
  "put_flagged f WGDEVICE_HAS_S4 transport_packet_junk_size_update v d = d\<lparr>transport_packet_junk_size := (if f AND WGDEVICE_HAS_S4 \<noteq> 0 then v else transport_packet_junk_size d),
     dev_flags := dev_flags d OR (f AND WGDEVICE_HAS_S4)\<rparr>"
  "put_flagged f WGDEVICE_HAS_H1 init_packet_magic_header_update s d = d\<lparr>init_packet_magic_header := (if f AND WGDEVICE_HAS_H1 \<noteq> 0 then s else init_packet_magic_header d),
     dev_flags := dev_flags d OR (f AND WGDEVICE_HAS_H1)\<rparr>"
  "put_flagged f WGDEVICE_HAS_H2 response_packet_magic_header_update s d = d\<lparr>response_packet_magic_header := (if f AND WGDEVICE_HAS_H2 \<noteq> 0 then s else response_packet_magic_header d),
     dev_flags := dev_flags d OR (f AND WGDEVICE_HAS_H2)\<rparr>"
  "put_flagged f WGDEVICE_HAS_H3 underload_packet_magic_header_update s d = d\<lparr>underload_packet_magic_header := (if f AND WGDEVICE_HAS_H3 \<noteq> 0 then s else underload_packet_magic_header d),
     dev_flags := dev_flags d OR (f AND WGDEVICE_HAS_H3)\<rparr>"
  "put_flagged f WGDEVICE_HAS_H4 transport_packet_magic_header_update s d = d\<lparr>transport_packet_magic_header := (if f AND WGDEVICE_HAS_H4 \<noteq> 0 then s else transport_packet_magic_header d),
     dev_flags := dev_flags d OR (f AND WGDEVICE_HAS_H4)\<rparr>"
  "put_flagged f WGDEVICE_HAS_I1 i1_update s d = d\<lparr>i1 := (if f AND WGDEVICE_HAS_I1 \<noteq> 0 then s else i1 d),
     dev_flags := dev_flags d OR (f AND WGDEVICE_HAS_I1)\<rparr>"
  "put_flagged f WGDEVICE_HAS_I2 i2_update s d = d\<lparr>i2 := (if f AND WGDEVICE_HAS_I2 \<noteq> 0 then s else i2 d),
     dev_flags := dev_flags d OR (f AND WGDEVICE_HAS_I2)\<rparr>"
  "put_flagged f WGDEVICE_HAS_I3 i3_update s d = d\<lparr>i3 := (if f AND WGDEVICE_HAS_I3 \<noteq> 0 then s else i3 d),
     dev_flags := dev_flags d OR (f AND WGDEVICE_HAS_I3)\<rparr>"
  "put_flagged f WGDEVICE_HAS_I4 i4_update s d = d\<lparr>i4 := (if f AND WGDEVICE_HAS_I4 \<noteq> 0 then s else i4 d),
     dev_flags := dev_flags d OR (f AND WGDEVICE_HAS_I4)\<rparr>"
  "put_flagged f WGDEVICE_HAS_I5 i5_update s d = d\<lparr>i5 := (if f AND WGDEVICE_HAS_I5 \<noteq> 0 then s else i5 d),
     dev_flags := dev_flags d OR (f AND WGDEVICE_HAS_I5)\<rparr>"
  by (auto simp: put_flagged_def flag_selves)

lemma read_header_line:
  assumes "word_value l" and "\<not> special_line l" and "2 \<le> length l"
  shows "read_text env ctx (l @ NL # rest) = bind_result (process_line env ctx l) (\<lambda>ctx. read_text env ctx rest)"
proof -
  have t: "text_value (l @ [NL]) \<longleftrightarrow> False" "CHR 0x00 \<notin> set (l @ [NL])" "CHR ''#'' \<notin> set (l @ [NL])" "NL \<notin> set l"
    using assms(1) by (auto simp: text_value_def word_value_def)
  have "cleaned_line (l @ [NL]) = l"
    using strip_spaces_word [OF assms(1)] special_line_append [OF assms(3), of "[NL]"] assms(2) t(3)
    by (simp add: cleaned_line_def uncomment_id)
  moreover have "l \<noteq> []"
    using assms(3) by auto
  ultimately show ?thesis
    using t by (simp add: read_text_line c_string_id config_read_line_cleaned)
qed

lemma section_lines:
  "word_value ''[Interface]''" "\<not> special_line ''[Interface]''" "word_value ''[Peer]''" "\<not> special_line ''[Peer]''"
  by (simp_all add: word_value_def text_value_def c_char special_line_def awg_special_handshake_keys_def strncasecmp_eq_def)

lemma read_interface_header:
  "read_text env ctx (''[Interface]'' @ NL # rest)
    = read_text env (ctx\<lparr>is_peer_section := False, is_device_section := True\<rparr>) rest"
  using read_header_line [OF section_lines(1,2), of env ctx rest] by (simp add: process_line_def)

lemma read_empty_line: "read_text env ctx (NL # rest) = read_text env ctx rest"
  using read_text_line [of "[]" env ctx rest]
  by (simp add: c_string_def config_read_line_cleaned cleaned_line_def special_line_def awg_special_handshake_keys_def
      strncasecmp_eq_def uncomment_def)

lemma AWG_FLAGS_split:
  "AWG_FLAGS = WGDEVICE_HAS_JC OR WGDEVICE_HAS_JMIN OR WGDEVICE_HAS_JMAX OR WGDEVICE_HAS_S1 OR WGDEVICE_HAS_S2 OR
    WGDEVICE_HAS_S3 OR WGDEVICE_HAS_S4 OR WGDEVICE_HAS_H1 OR WGDEVICE_HAS_H2 OR WGDEVICE_HAS_H3 OR WGDEVICE_HAS_H4 OR
    WGDEVICE_HAS_I1 OR WGDEVICE_HAS_I2 OR WGDEVICE_HAS_I3 OR WGDEVICE_HAS_I4 OR WGDEVICE_HAS_I5"
  by (simp add: AWG_FLAGS_def device_flag_defs mask_numeral)

lemma awg_flags_chain:
  "(((((((((((((((b OR (f AND WGDEVICE_HAS_JC)) OR (f AND WGDEVICE_HAS_JMIN)) OR (f AND WGDEVICE_HAS_JMAX))
    OR (f AND WGDEVICE_HAS_S1)) OR (f AND WGDEVICE_HAS_S2)) OR (f AND WGDEVICE_HAS_S3))
    OR (f AND WGDEVICE_HAS_S4)) OR (f AND WGDEVICE_HAS_H1)) OR (f AND WGDEVICE_HAS_H2))
    OR (f AND WGDEVICE_HAS_H3)) OR (f AND WGDEVICE_HAS_H4)) OR (f AND WGDEVICE_HAS_I1))
    OR (f AND WGDEVICE_HAS_I2)) OR (f AND WGDEVICE_HAS_I3)) OR (f AND WGDEVICE_HAS_I4))
    OR (f AND WGDEVICE_HAS_I5)
   = b OR (f AND AWG_FLAGS)"
  by (simp only: AWG_FLAGS_split bit.conj_disj_distrib or.assoc)

lemma configured_flags:
  "(((r OR p OR w) OR l) OR (if m then w else 0)) OR (f AND p) = r OR p OR w OR (l :: u32)"
  by (rule bit_word_eqI) (auto simp: bit_simps split: if_splits)

text \<open>A device after the lines of the obfuscation parameters, and after those of the interface section, from
  the one before them.\<close>

definition load_params :: "wgdevice \<Rightarrow> wgdevice \<Rightarrow> wgdevice" where
  "load_params d d0 =
     (let f = dev_flags d
      in
        put_flagged f WGDEVICE_HAS_I5 i5_update (i5 d)
        (put_flagged f WGDEVICE_HAS_I4 i4_update (i4 d)
        (put_flagged f WGDEVICE_HAS_I3 i3_update (i3 d)
        (put_flagged f WGDEVICE_HAS_I2 i2_update (i2 d)
        (put_flagged f WGDEVICE_HAS_I1 i1_update (i1 d)
        (put_flagged f WGDEVICE_HAS_H4 transport_packet_magic_header_update (transport_packet_magic_header d)
        (put_flagged f WGDEVICE_HAS_H3 underload_packet_magic_header_update (underload_packet_magic_header d)
        (put_flagged f WGDEVICE_HAS_H2 response_packet_magic_header_update (response_packet_magic_header d)
        (put_flagged f WGDEVICE_HAS_H1 init_packet_magic_header_update (init_packet_magic_header d)
        (put_flagged f WGDEVICE_HAS_S4 transport_packet_junk_size_update (transport_packet_junk_size d)
        (put_flagged f WGDEVICE_HAS_S3 cookie_reply_packet_junk_size_update (cookie_reply_packet_junk_size d)
        (put_flagged f WGDEVICE_HAS_S2 response_packet_junk_size_update (response_packet_junk_size d)
        (put_flagged f WGDEVICE_HAS_S1 init_packet_junk_size_update (init_packet_junk_size d)
        (put_flagged f WGDEVICE_HAS_JMAX junk_packet_max_size_update (junk_packet_max_size d)
        (put_flagged f WGDEVICE_HAS_JMIN junk_packet_min_size_update (junk_packet_min_size d)
        (put_flagged f WGDEVICE_HAS_JC junk_packet_count_update (junk_packet_count d) d0))))))))))))))))"

definition load_interface :: "wgdevice \<Rightarrow> wgdevice \<Rightarrow> wgdevice" where
  "load_interface d d0 =
     (let d1 = d0\<lparr>listen_port := (if listen_port d \<noteq> 0 then listen_port d else listen_port d0),
        dev_flags := dev_flags d0 OR (if listen_port d \<noteq> 0 then WGDEVICE_HAS_LISTEN_PORT else 0)\<rparr>;
          d2 = d1\<lparr>fwmark := (if fwmark d \<noteq> 0 then fwmark d else fwmark d1),
        dev_flags := dev_flags d1 OR (if fwmark d \<noteq> 0 then WGDEVICE_HAS_FWMARK else 0)\<rparr>
      in load_params d (put_flagged (dev_flags d) WGDEVICE_HAS_PRIVATE_KEY private_key_update (private_key d) d2))"

lemma ctx_device:
  "is_device_section (ctx\<lparr>device := d\<rparr>) = is_device_section ctx" "device (ctx\<lparr>device := d\<rparr>) = d"
  "ctx\<lparr>device := d, device := d'\<rparr> = ctx\<lparr>device := d'\<rparr>"
  "private_key (d\<lparr>listen_port := p, dev_flags := f\<rparr>) = private_key d"
  "private_key (d\<lparr>fwmark := m, dev_flags := f\<rparr>) = private_key d"
  by simp_all

lemma read_interface_fields:
  assumes "printable_interface env d" and "is_device_section ctx" and "length (private_key (device ctx)) = WG_KEY_LEN"
  shows "read_text env ctx (showconf_fields d @ rest)
    = read_text env (ctx\<lparr>device := load_interface d (device ctx)\<rparr>) rest"
proof -
  have port: "listen_port d = 0 \<or> passive_port_law env (listen_port d)"
    and len: "length (private_key d) = WG_KEY_LEN" and ps: "printable_strings d"
    using assms(1) by (simp_all add: printable_interface_def)
  have strings:
    "header_ok (dev_flags d AND WGDEVICE_HAS_H1 \<noteq> 0) (init_packet_magic_header d)"
    "header_ok (dev_flags d AND WGDEVICE_HAS_H2 \<noteq> 0) (response_packet_magic_header d)"
    "header_ok (dev_flags d AND WGDEVICE_HAS_H3 \<noteq> 0) (underload_packet_magic_header d)"
    "header_ok (dev_flags d AND WGDEVICE_HAS_H4 \<noteq> 0) (transport_packet_magic_header d)"
    "template_ok (dev_flags d AND WGDEVICE_HAS_I1 \<noteq> 0) (i1 d)" "template_ok (dev_flags d AND WGDEVICE_HAS_I2 \<noteq> 0) (i2 d)"
    "template_ok (dev_flags d AND WGDEVICE_HAS_I3 \<noteq> 0) (i3 d)" "template_ok (dev_flags d AND WGDEVICE_HAS_I4 \<noteq> 0) (i4 d)"
    "template_ok (dev_flags d AND WGDEVICE_HAS_I5 \<noteq> 0) (i5 d)"
    using ps by (simp_all only: printable_strings_def Let_def)
  show ?thesis
    unfolding showconf_fields_def Let_def append_assoc load_interface_def load_params_def
    by (simp only: read_listen_port [OF _ port] read_fwmark read_private_key read_counts read_headers read_templates
      ctx_device assms(2,3) len strings)
qed

lemma load_interface_init:
  assumes "printable_interface env d"
  shows "load_interface d (device (config_read_init False)) = configured_interface d"
proof -
  have init: "device (config_read_init False) = zero_device\<lparr>dev_flags := WGDEVICE_REPLACE_PEERS OR
      WGDEVICE_HAS_PRIVATE_KEY OR WGDEVICE_HAS_FWMARK\<rparr>"
    by (simp add: config_read_init_def zero_device_def)
  have "unset_default d"
    using assms by (simp add: printable_interface_def)
  note unset = this [unfolded unset_default_def Let_def]
  show ?thesis
    unfolding init zero_device_def load_interface_def load_params_def Let_def
    by (simp only: put_flagged_fields wgdevice.select_convs wgdevice.update_convs awg_flags_chain configured_flags,
        rule wgdevice.equality)
      (simp_all add: configured_interface_def unset or.assoc)
qed

subsection \<open>The peer sections\<close>

definition peer_ctx :: "wgdevice \<Rightarrow> wgpeer list \<Rightarrow> wgpeer \<Rightarrow> nat option \<Rightarrow> config_ctx" where
  "peer_ctx d ps q ac = \<lparr>device = d\<lparr>peers := ps @ [q]\<rparr>, last_peer = Some (length ps), last_allowedip = ac,
     is_peer_section = True, is_device_section = False\<rparr>"

lemma process_line_peer:
  assumes "c \<noteq> CHR ''[''"
  shows "process_line env (peer_ctx d ps q ac) (c # l)
    = map_result (\<lambda>(q', ac'). peer_ctx d ps q' ac') (process_peer_line env q ac (c # l))"
proof -
  have "tolower_char c \<noteq> CHR ''[''"
    using assms tolower_not_bracket by blast
  then show ?thesis
    by (cases "process_peer_line env q ac (c # l)")
       (simp_all add: process_line_def strcasecmp_eq_def peer_ctx_def with_peer_def split: prod.split)
qed

lemma read_peer_line:
  assumes "plain_key k" and "text_value v" and "process_peer_line env q ac (k @ CHR ''='' # strip_spaces v) = Inr (q', ac')"
  shows "read_text env (peer_ctx d ps q ac) (key_line k v @ rest) = read_text env (peer_ctx d ps q' ac') rest"
proof -
  obtain c cs where k: "k = c # cs" "c \<noteq> CHR ''[''"
    using assms(1) by (cases k) (auto simp: plain_key_def)
  then show ?thesis
    using read_key_line [OF assms(1,2), of env "peer_ctx d ps q ac" rest] assms(3)
      process_line_peer [OF k(2), of env d ps q ac "cs @ CHR ''='' # strip_spaces v"]
    by simp
qed

lemma process_peer_keys:
  assumes "w \<noteq> []"
  shows
    "process_peer_line env p cur (''Endpoint'' @ CHR ''='' # w) = map_result (\<lambda>a. (p\<lparr>endpoint := a\<rparr>, cur)) (parse_endpoint env w)"
    "process_peer_line env p cur (''PublicKey'' @ CHR ''='' # w)
      = map_result (\<lambda>k. (p\<lparr>public_key := k, flags := flags p OR WGPEER_HAS_PUBLIC_KEY\<rparr>, cur)) (key_result w (parse_key (public_key p) w))"
    "process_peer_line env p cur (''AllowedIPs'' @ CHR ''='' # w)
      = map_result (\<lambda>(p', cur', warnings). (p', cur')) (parse_allowedips env p cur w)"
    "process_peer_line env p cur (''PersistentKeepalive'' @ CHR ''='' # w)
      = map_result (\<lambda>(i, f). (p\<lparr>persistent_keepalive_interval := i, flags := f\<rparr>, cur)) (parse_persistent_keepalive (flags p) w)"
    "process_peer_line env p cur (''PresharedKey'' @ CHR ''='' # w)
      = map_result (\<lambda>k. (p\<lparr>preshared_key := k, flags := flags p OR WGPEER_HAS_PRESHARED_KEY\<rparr>, cur)) (key_result w (parse_key (preshared_key p) w))"
    "process_peer_line env p cur (''AdvancedSecurity'' @ CHR ''='' # w)
      = map_result (\<lambda>b. (p\<lparr>awg := b, flags := flags p OR WGPEER_HAS_AWG\<rparr>, cur)) (parse_bool ''AdvancedSecurity'' w)"
  using assms by (simp_all add: process_peer_line_def get_value_def strncasecmp_eq_def)

lemma read_peer_header:
  assumes "at_end (peers (device ctx)) (last_peer ctx)"
  shows "read_text env ctx (''[Peer]'' @ NL # rest)
    = read_text env (peer_ctx (device ctx) (peers (device ctx))
        (zero_peer\<lparr>flags := WGPEER_REPLACE_ALLOWEDIPS\<rparr>) None) rest"
proof -
  have "process_line env ctx ''[Peer]'' = Inr (peer_ctx (device ctx) (peers (device ctx))
        (zero_peer\<lparr>flags := WGPEER_REPLACE_ALLOWEDIPS\<rparr>) None)"
    using assms
    by (cases ctx) (auto simp: process_line_def strcasecmp_eq_def peer_ctx_def Let_def at_end_def linked_cursor_def zero_peer_def)
  then show ?thesis
    using read_header_line [OF section_lines(3,4), of env ctx rest] by simp
qed

subsubsection \<open>Allowed addresses\<close>

text \<open>The law of \<open>inet_ntop\<close> and \<open>inet_pton\<close> for an address of the device: its text is read back, and has a
  colon exactly for IPv6.\<close>

definition allowedip_text :: "env \<Rightarrow> wgallowedip \<Rightarrow> string" where
  "allowedip_text env a = (if family a = AF_INET then inet_ntop4 env (ip4 a) else inet_ntop6 env (ip6 a))"

definition allowedip_law :: "env \<Rightarrow> wgallowedip \<Rightarrow> bool" where
  "allowedip_law env a \<longleftrightarrow> allowedip_wf a \<and> word_value (allowedip_text env a) \<and>
     CHR '','' \<notin> set (allowedip_text env a) \<and> CHR ''/'' \<notin> set (allowedip_text env a) \<and>
     (if family a = AF_INET
      then CHR '':'' \<notin> set (allowedip_text env a) \<and> inet_pton4 env (allowedip_text env a) = Some (ip4 a) \<and>
        drop 4 (ip a) = replicate 12 0
      else CHR '':'' \<in> set (allowedip_text env a) \<and> inet_pton6 env (allowedip_text env a) = Some (ip6 a))"

lemma strchr_None: "strchr s c = None \<longleftrightarrow> c \<notin> set s"
  unfolding strchr_def by (induction s) auto

lemma parse_ip_text:
  assumes "allowedip_law env a"
  shows "parse_ip env zero_allowedip (allowedip_text env a) = Inr (a\<lparr>cidr := 0\<rparr>)"
proof -
  have l: "length (ip a) = 16"
    using assms by (simp add: allowedip_law_def allowedip_wf_def)
  have "ip4 a @ replicate 12 0 = ip a" if "drop 4 (ip a) = replicate 12 0"
    using that by (metis append_take_drop_id ip4_def)
  then show ?thesis
    using assms
    by (cases a) (auto simp: allowedip_law_def allowedip_wf_def parse_ip_def strchr_None zero_allowedip_def ip6_def split: if_splits)
qed

lemma parse_cidr_show:
  assumes "c \<le> (if fam = AF_INET then 32 else 128 :: u8)"
  shows "parse_cidr fam (Some (show_dec (unat c))) s = Inr (ucast c)"
proof -
  have b: "unat c < 256"
    using unsigned_less [of c, where 'a = nat] by simp
  have st: "strtoul 10 (show_dec (unat c)) = (of_nat (unat c), [])"
    using strtoul_show_dec [of "unat c" "[]"] b by simp
  have d: "char_is_digit (first_char (show_dec (unat c)))"
    using hd_show_dec [of "unat c" "[]"] by (simp add: isdigit_first_char)
  have "unat (of_nat (unat c) :: u64) = unat c"
    using b by (simp add: unat_of_nat take_bit_nat_eq_self del: of_nat_unat)
  then have "\<not> (of_nat (unat c) > (32 :: u64) \<and> fam = AF_INET)" "\<not> (of_nat (unat c) > (128 :: u64) \<and> fam = AF_INET6)"
    using assms by (auto simp: word_less_nat_alt word_le_nat_alt split: if_splits)
  moreover have "(of_nat (unat c) :: u64) = ucast c"
    by simp
  ultimately show ?thesis
    by (simp add: parse_cidr_def st d del: of_nat_unat)
qed

lemma parse_allowedip_entry_text:
  assumes "allowedip_law env a"
  shows "\<exists>w. parse_allowedip_entry env (allowedip_text env a @ CHR ''/'' # show_dec (unat (cidr a))) = Inr (a, w)"
proof -
  have sep: "strsep (allowedip_text env a @ CHR ''/'' # show_dec (unat (cidr a))) CHR ''/''
      = (allowedip_text env a, Some (show_dec (unat (cidr a))))"
    using assms by (intro strsep_append) (simp add: allowedip_law_def)
  have "cidr a \<le> (if family a = AF_INET then 32 else 128)"
    using assms by (auto simp: allowedip_law_def allowedip_wf_def)
  note c = parse_cidr_show [OF this]
  have "(ucast (ucast (cidr a) :: u64) :: u8) = cidr a"
    by (rule bit_word_eqI) (simp add: bit_simps)
  then have "a\<lparr>cidr := ucast (ucast (cidr a) :: u64)\<rparr> = a"
    by simp
  then show ?thesis
    unfolding parse_allowedip_entry_def sep using parse_ip_text [OF assms] c by simp
qed

fun allowedips_text :: "env \<Rightarrow> wgallowedip list \<Rightarrow> string" where
  "allowedips_text env [] = []"
| "allowedips_text env (a # as) = allowedip_text env a @ CHR ''/'' # show_dec (unat (cidr a)) @
     (if as = [] then [] else CHR '','' # allowedips_text env as)"

lemma parse_allowedip_entries_text:
  assumes "list_all (allowedip_law env) as" and "as \<noteq> []" and "at_end bs cur"
  shows "\<exists>cur' w. parse_allowedip_entries env bs cur (Some (allowedips_text env as)) = Inr (bs @ as, cur', w)"
  using assms
proof (induction as arbitrary: bs cur)
  case (Cons a as)
  let ?e = "allowedip_text env a @ CHR ''/'' # show_dec (unat (cidr a))"
  have law: "allowedip_law env a"
    using Cons.prems by simp
  have "CHR '','' \<notin> set (show_dec (unat (cidr a)))"
    using show_base_word_char [of 10 "CHR '',''" "unat (cidr a)"] by (auto simp: word_char_def)
  then have sep: "CHR '','' \<notin> set ?e"
    using law by (simp add: allowedip_law_def)
  obtain w where e: "parse_allowedip_entry env ?e = Inr (a, w)"
    using parse_allowedip_entry_text [OF law] by blast
  show ?case
  proof (cases "as = []")
    case True
    have "strsep (allowedips_text env (a # as)) CHR '','' = (?e, None)"
      using strsep_append(1) [OF sep] True by simp
    then show ?thesis
      using e Cons.prems(3) True by simp
  next
    case False
    have s: "strsep (allowedips_text env (a # as)) CHR '','' = (?e, Some (allowedips_text env as))"
      using strsep_append(2) [OF sep, of "allowedips_text env as"] False by simp
    obtain cur' w' where "parse_allowedip_entries env (bs @ [a]) (linked_cursor cur) (Some (allowedips_text env as))
        = Inr ((bs @ [a]) @ as, cur', w')"
      using Cons.IH [of "bs @ [a]" "linked_cursor cur"] Cons.prems False by auto
    then show ?thesis
      using e s Cons.prems(3) by simp
  qed
qed simp

lemma strip_showconf_allowedips:
  assumes "list_all (allowedip_law env) as"
  shows "strip_spaces (showconf_allowedips env as) = allowedips_text env as" "text_value (showconf_allowedips env as)"
proof -
  have "strip_spaces (showconf_allowedips env as) = allowedips_text env as \<and> text_value (showconf_allowedips env as)"
    using assms
  proof (induction as)
    case (Cons a as)
    have law: "allowedip_law env a"
      using Cons.prems by simp
    then have t: "(if family a = AF_INET then inet_ntop4 env (ip4 a) else inet_ntop6 env (ip6 a)) = allowedip_text env a"
      "family a = AF_INET \<or> family a = AF_INET6" "word_value (allowedip_text env a)"
      by (auto simp: allowedip_law_def allowedip_text_def allowedip_wf_def)
    have n: "word_value (show_dec (unat (cidr a)))"
      by simp
    have "strip_spaces (allowedip_text env a) = allowedip_text env a" "strip_spaces (show_dec (unat (cidr a))) = show_dec (unat (cidr a))"
      using t(3) n by (simp_all only: strip_spaces_word)
    moreover have "\<not> isspace_char CHR ''/''"
      by (simp add: c_char)
    ultimately show ?case
      using Cons t(2,3) n unfolding showconf_allowedips.simps t(1)
      by (auto simp: print_if_def text_value_def word_value_def)
  qed (simp add: text_value_def)
  then show "strip_spaces (showconf_allowedips env as) = allowedips_text env as" "text_value (showconf_allowedips env as)"
    by blast+
qed

subsubsection \<open>Endpoints\<close>

text \<open>The law of \<open>getnameinfo\<close> and \<open>getaddrinfo\<close> for an endpoint of the device: the numeric host and
  service of an address are resolved to the same address at the first attempt, and have the
  characters of an address.\<close>

definition endpoint_law :: "env \<Rightarrow> sockaddr \<Rightarrow> bool" where
  "endpoint_law env a \<longleftrightarrow> a = SA_UNSPEC \<or>
     (case getnameinfo env a of
        None \<Rightarrow> False
      | Some (host, service) \<Rightarrow>
          word_value host \<and> word_value service \<and> hd host \<noteq> CHR ''['' \<and> CHR '']'' \<notin> set host \<and>
          CHR '':'' \<notin> set service \<and> getaddrinfo env 0 host service = Resolved a \<and>
          sockaddr_wf a)"

lemma strrchr_append: "c \<notin> set s \<Longrightarrow> strrchr (h @ c # s) c = Some (h, c # s)"
proof (induction h)
  case Nil
  have "strrchr s c = None"
    using Nil by (induction s) auto
  then show ?case by simp
qed simp

lemma split_endpoint_text:
  assumes "hd h \<noteq> CHR ''[''" and "h \<noteq> []" and "CHR '']'' \<notin> set h" and "CHR '':'' \<notin> set s" and "s \<noteq> []"
  shows "split_endpoint (h @ CHR '':'' # s) = Inr (h, s)" "split_endpoint (''['' @ h @ '']:'' @ s) = Inr (h, s)"
proof -
  show "split_endpoint (h @ CHR '':'' # s) = Inr (h, s)"
    using assms strrchr_append [of "CHR '':''" s h] by (simp add: split_endpoint_def)
  show "split_endpoint (''['' @ h @ '']:'' @ s) = Inr (h, s)"
    using assms split_at_char [of "CHR '']''" h "CHR '':'' # s"]
    by (simp add: split_endpoint_def strchr_def)
qed

lemma fmt_endpoint_split:
  assumes "endpoint_law env a" and "a \<noteq> SA_UNSPEC"
  obtains e h s where "fmt_endpoint env a = Some e" and "word_value e" and "split_endpoint e = Inr (h, s)"
    and "getaddrinfo env 0 h s = Resolved a"
proof -
  obtain h s where g: "getnameinfo env a = Some (h, s)" and w: "word_value h" "word_value s"
    and hd: "hd h \<noteq> CHR ''[''" "CHR '']'' \<notin> set h" "CHR '':'' \<notin> set s" and res: "getaddrinfo env 0 h s = Resolved a"
    using assms by (auto simp: endpoint_law_def split: option.splits)
  define e where "e = (if is_SA_IN6 a \<and> strchr h CHR '':'' \<noteq> None then ''['' @ h @ '']:'' @ s else h @ '':'' @ s)"
  have ne: "h \<noteq> []" "s \<noteq> []"
    using w by (auto simp: word_value_def)
  have "split_endpoint e = Inr (h, s)"
    using split_endpoint_text [OF hd(1) ne(1) hd(2,3) ne(2)] by (simp add: e_def)
  moreover have "fmt_endpoint env a = Some e"
    using assms(2) g by (simp add: fmt_endpoint_def e_def)
  moreover have "word_value e"
    using w by (auto simp: e_def word_value_def text_value_def c_char)
  ultimately show thesis
    using that res by blast
qed

lemma fmt_endpoint_parse:
  assumes "endpoint_law env a" and "a \<noteq> SA_UNSPEC" and "parse_dns_retries env = Inr r"
  obtains e where "fmt_endpoint env a = Some e" and "word_value e" and "parse_endpoint env e = Inr a"
proof -
  obtain e h s where e: "fmt_endpoint env a = Some e" "word_value e" "split_endpoint e = Inr (h, s)"
    "getaddrinfo env 0 h s = Resolved a"
    using fmt_endpoint_split [OF assms(1,2)] by blast
  have "resolve_endpoint env h s r 0 1000000 [] = Some (Resolved a, [])"
    using e(4) by (subst resolve_endpoint.simps) simp
  then have "parse_endpoint env e = Inr a"
    using assms(2,3) e by (simp add: parse_endpoint_def resolved_endpoint_def word_value_def)
  then show thesis
    using e that by blast
qed

subsubsection \<open>A peer\<close>

text \<open>What the runtime reports of a peer and a configuration can hold.\<close>

definition printable_peer :: "env \<Rightarrow> wgpeer \<Rightarrow> bool" where
  "printable_peer env p \<longleftrightarrow> length (public_key p) = WG_KEY_LEN \<and> length (preshared_key p) = WG_KEY_LEN \<and>
     (flags p AND WGPEER_HAS_PRESHARED_KEY = 0 \<longrightarrow> preshared_key p = replicate WG_KEY_LEN 0) \<and>
     (flags p AND WGPEER_HAS_AWG = 0 \<longrightarrow> \<not> awg p) \<and>
     list_all (allowedip_law env) (allowedips p) \<and> endpoint_law env (endpoint p)"

text \<open>The peer \<open>setconf\<close> asks for when it reads the printed one: the same keys, addresses and interval,
  without the counters of the runtime.\<close>

definition configured_peer :: "wgpeer \<Rightarrow> wgpeer" where
  "configured_peer p = p\<lparr>last_handshake_time := last_handshake_time zero_peer, rx_bytes := 0, tx_bytes := 0,
     flags := WGPEER_REPLACE_ALLOWEDIPS OR WGPEER_HAS_PUBLIC_KEY OR
       (if flags p AND WGPEER_HAS_PRESHARED_KEY \<noteq> 0 then WGPEER_HAS_PRESHARED_KEY else 0) OR
       (if flags p AND WGPEER_HAS_AWG \<noteq> 0 then WGPEER_HAS_AWG else 0) OR
       (if persistent_keepalive_interval p \<noteq> 0 then WGPEER_HAS_PERSISTENT_KEEPALIVE_INTERVAL else 0)\<rparr>"

lemma read_peer_word:
  assumes "b \<Longrightarrow> process_peer_line env q ac (k @ CHR ''='' # v) = Inr (q', ac)" and "plain_key k" and "word_value v"
  shows "read_text env (peer_ctx d ps q ac) (print_if b (key_line k v) @ rest)
    = read_text env (peer_ctx d ps (if b then q' else q) ac) rest"
proof -
  have "text_value v"
    using assms(3) by (simp add: word_value_def)
  then show ?thesis
    using assms(1) read_peer_line [OF assms(2), of v env q ac q' ac d ps rest] strip_spaces_word [OF assms(3)]
    by (simp add: print_if_def)
qed

definition load_peer_keys :: "wgpeer \<Rightarrow> wgpeer \<Rightarrow> wgpeer" where
  "load_peer_keys p q =
    (let q = q\<lparr>public_key := public_key p, flags := flags q OR WGPEER_HAS_PUBLIC_KEY\<rparr>;
         q = (if flags p AND WGPEER_HAS_PRESHARED_KEY \<noteq> 0
              then q\<lparr>preshared_key := preshared_key p, flags := flags q OR WGPEER_HAS_PRESHARED_KEY\<rparr> else q)
     in if flags p AND WGPEER_HAS_AWG \<noteq> 0 then q\<lparr>awg := awg p, flags := flags q OR WGPEER_HAS_AWG\<rparr> else q)"

lemma read_peer_keys:
  assumes "printable_peer env p" and "length (public_key q) = WG_KEY_LEN" and "length (preshared_key q) = WG_KEY_LEN"
  shows "read_text env (peer_ctx d ps q ac)
      (key_line ''PublicKey'' (key_to_base64 (public_key p)) @
       print_if (flags p AND WGPEER_HAS_PRESHARED_KEY \<noteq> 0) (key_line ''PresharedKey'' (key_to_base64 (preshared_key p))) @
       print_if (flags p AND WGPEER_HAS_AWG \<noteq> 0) (key_line ''AdvancedSecurity'' (if awg p then ''on'' else ''off'')) @ rest)
    = read_text env (peer_ctx d ps (load_peer_keys p q) ac) rest"
proof -
  have len: "length (public_key p) = WG_KEY_LEN" "length (preshared_key p) = WG_KEY_LEN"
    using assms(1) by (simp_all add: printable_peer_def)
  have w: "word_value (key_to_base64 k)" "key_to_base64 k \<noteq> []" if "length k = WG_KEY_LEN" for k
    using that b64.word_value_enc [of k] b64.enc_not_Nil [of k] by simp_all
  have on_off: "word_value (if awg p then ''on'' else ''off'')" "(if awg p then ''on'' else ''off'') \<noteq> []"
    "parse_bool n (if awg p then ''on'' else ''off'') = Inr (awg p)" for n
    by (simp_all add: word_value_def text_value_def c_char parse_bool_def strcasecmp_eq_def)
  have pub: "read_text env (peer_ctx d ps q ac) (print_if True (key_line ''PublicKey'' (key_to_base64 (public_key p))) @ rest)
      = read_text env (peer_ctx d ps (if True then q\<lparr>public_key := public_key p, flags := flags q OR WGPEER_HAS_PUBLIC_KEY\<rparr> else q) ac) rest"
    for rest
    by (rule read_peer_word, subst process_peer_keys(2)) (simp_all add: w len assms key_result_def)
  have psk: "read_text env (peer_ctx d ps q ac) (print_if b (key_line ''PresharedKey'' (key_to_base64 (preshared_key p))) @ rest)
      = read_text env (peer_ctx d ps (if b then q\<lparr>preshared_key := preshared_key p, flags := flags q OR WGPEER_HAS_PRESHARED_KEY\<rparr> else q) ac) rest"
    if "length (preshared_key q) = WG_KEY_LEN" for q b rest
    by (rule read_peer_word, subst process_peer_keys(5)) (simp_all add: w len that key_result_def)
  have awg: "read_text env (peer_ctx d ps q ac) (print_if b (key_line ''AdvancedSecurity'' (if awg p then ''on'' else ''off'')) @ rest)
      = read_text env (peer_ctx d ps (if b then q\<lparr>awg := awg p, flags := flags q OR WGPEER_HAS_AWG\<rparr> else q) ac) rest"
    for q b rest
    by (rule read_peer_word) (simp_all only: process_peer_keys(6) [OF on_off(2)] on_off map_result_def sum.case plain_keys)
  show ?thesis
    using pub [unfolded print_if_def if_True] psk awg assms(3) by (simp add: load_peer_keys_def Let_def)
qed

lemma read_peer_allowedips:
  assumes "list_all (allowedip_law env) as" and "allowedips q = []" and "flags q OR WGPEER_REPLACE_ALLOWEDIPS = flags q"
  obtains ac where "\<And>rest. read_text env (peer_ctx d ps q None)
      (print_if (as \<noteq> []) (key_line ''AllowedIPs'' (showconf_allowedips env as)) @ rest)
    = read_text env (peer_ctx d ps (q\<lparr>allowedips := as\<rparr>) ac) rest"
proof (cases "as = []")
  case True
  have "q\<lparr>allowedips := []\<rparr> = q"
    using assms(2) by (cases q) simp
  then show ?thesis
    using that [of None] True by (simp add: print_if_def)
next
  case False
  obtain a as' where "as = a # as'"
    using False by (cases as) auto
  then have ne: "allowedips_text env as \<noteq> []"
    by simp
  have "at_end (allowedips q) None"
    using assms(2) by (simp add: at_end_def)
  then obtain ac ws where "parse_allowedip_entries env (allowedips q) None (Some (allowedips_text env as)) = Inr (allowedips q @ as, ac, ws)"
    using parse_allowedip_entries_text [OF assms(1) False] by blast
  moreover have "q\<lparr>flags := flags q OR WGPEER_REPLACE_ALLOWEDIPS\<rparr> = q"
    using assms(3) by (cases q) simp
  ultimately have "parse_allowedips env q None (allowedips_text env as) = Inr (q\<lparr>allowedips := as\<rparr>, ac, ws)"
    using ne assms(2) by (simp add: parse_allowedips_def Let_def del: parse_allowedip_entries.simps)
  then have "process_peer_line env q None (''AllowedIPs'' @ CHR ''='' # strip_spaces (showconf_allowedips env as))
      = Inr (q\<lparr>allowedips := as\<rparr>, ac)"
    by (simp only: strip_showconf_allowedips [OF assms(1)] process_peer_keys(3) [OF ne] map_result_def sum.case split_conv)
  from read_peer_line [OF plain_keys(17) strip_showconf_allowedips(2) [OF assms(1)] this] show ?thesis
    using that False by (simp add: print_if_def)
qed

definition load_peer_rest :: "wgpeer \<Rightarrow> wgpeer \<Rightarrow> wgpeer" where
  "load_peer_rest p q =
    (let q = (if endpoint p \<noteq> SA_UNSPEC then q\<lparr>endpoint := endpoint p\<rparr> else q)
     in if persistent_keepalive_interval p \<noteq> 0
        then q\<lparr>persistent_keepalive_interval := persistent_keepalive_interval p,
               flags := flags q OR WGPEER_HAS_PERSISTENT_KEEPALIVE_INTERVAL\<rparr> else q)"

lemma parse_persistent_keepalive_show:
  "parse_persistent_keepalive fl (show_dec (unat (v :: u16))) = Inr (v, fl OR WGPEER_HAS_PERSISTENT_KEEPALIVE_INTERVAL)"
proof -
  have b: "unat v < 65536"
    using unsigned_less [of v, where 'a = nat] by simp
  have "\<not> strcasecmp_eq (show_dec (unat v)) ''off''"
    using off_not_numeral dec_numeral_show by blast
  then show ?thesis
    using b by (simp add: parse_persistent_keepalive_iff)
qed

lemma read_peer_rest:
  assumes "endpoint_law env (endpoint p)" and "parse_dns_retries env = Inr r"
  shows "read_text env (peer_ctx d ps q ac)
      ((case fmt_endpoint env (endpoint p) of None \<Rightarrow> [] | Some e \<Rightarrow> key_line ''Endpoint'' e) @
       print_if (persistent_keepalive_interval p \<noteq> 0)
         (key_line ''PersistentKeepalive'' (show_dec (unat (persistent_keepalive_interval p)))) @ rest)
    = read_text env (peer_ctx d ps (load_peer_rest p q) ac) rest"
proof -
  have ka: "read_text env (peer_ctx d ps q ac)
      (print_if b (key_line ''PersistentKeepalive'' (show_dec (unat v))) @ rest)
    = read_text env (peer_ctx d ps (if b then q\<lparr>persistent_keepalive_interval := v,
        flags := flags q OR WGPEER_HAS_PERSISTENT_KEEPALIVE_INTERVAL\<rparr> else q) ac) rest" for q b rest and v :: u16
    by (rule read_peer_word, subst process_peer_keys(4)) (simp_all add: parse_persistent_keepalive_show)
  have ep: "read_text env (peer_ctx d ps q ac)
      ((case fmt_endpoint env (endpoint p) of None \<Rightarrow> [] | Some e \<Rightarrow> key_line ''Endpoint'' e) @ rest)
    = read_text env (peer_ctx d ps (if endpoint p \<noteq> SA_UNSPEC then q\<lparr>endpoint := endpoint p\<rparr> else q) ac) rest" for rest
  proof (cases "endpoint p = SA_UNSPEC")
    case False
    then obtain e where e: "fmt_endpoint env (endpoint p) = Some e" "word_value e" "parse_endpoint env e = Inr (endpoint p)"
      using fmt_endpoint_parse [OF assms(1) _ assms(2)] by blast
    have "read_text env (peer_ctx d ps q ac) (print_if True (key_line ''Endpoint'' e) @ rest)
        = read_text env (peer_ctx d ps (if True then q\<lparr>endpoint := endpoint p\<rparr> else q) ac) rest"
      using e(2) by (intro read_peer_word, subst process_peer_keys(1)) (simp_all add: e word_value_def)
    then show ?thesis
      using False e by (simp add: print_if_def)
  qed (simp add: fmt_endpoint_def)
  show ?thesis
    by (simp add: ep ka load_peer_rest_def Let_def)
qed

lemma read_peer:
  assumes "printable_peer env p" and "parse_dns_retries env = Inr r" and "at_end (peers (device ctx)) (last_peer ctx)"
  obtains ac where "read_text env ctx (showconf_peer env p @ rest)
    = read_text env (peer_ctx (device ctx) (peers (device ctx)) (configured_peer p) ac) rest"
proof -
  let ?q0 = "zero_peer\<lparr>flags := WGPEER_REPLACE_ALLOWEDIPS\<rparr>" and ?d = "device ctx"
  let ?q1 = "load_peer_keys p ?q0" and ?as = "allowedips p"
  have law: "list_all (allowedip_law env) ?as" "endpoint_law env (endpoint p)"
    using assms(1) by (simp_all add: printable_peer_def)
  have q0: "length (public_key ?q0) = WG_KEY_LEN" "length (preshared_key ?q0) = WG_KEY_LEN"
    by (simp_all add: zero_peer_def)
  have q1: "allowedips ?q1 = []" "flags ?q1 OR WGPEER_REPLACE_ALLOWEDIPS = flags ?q1"
    by (simp_all add: load_peer_keys_def Let_def zero_peer_def ac_simps)
  obtain ac where as: "\<And>rest. read_text env (peer_ctx ?d (peers ?d) ?q1 None)
      (print_if (?as \<noteq> []) (key_line ''AllowedIPs'' (showconf_allowedips env ?as)) @ rest)
    = read_text env (peer_ctx ?d (peers ?d) (?q1\<lparr>allowedips := ?as\<rparr>) ac) rest"
    using read_peer_allowedips [OF law(1) q1] by blast
  have "load_peer_rest p (?q1\<lparr>allowedips := ?as\<rparr>) = configured_peer p"
    using assms(1)
    by (cases p) (auto simp: load_peer_rest_def load_peer_keys_def configured_peer_def Let_def zero_peer_def printable_peer_def ac_simps)
  then have "read_text env ctx (showconf_peer env p @ rest)
    = read_text env (peer_ctx ?d (peers ?d) (configured_peer p) ac) rest"
    using read_peer_header [OF assms(3)] read_peer_keys [OF assms(1) q0, of ?d "peers ?d" None]
      as read_peer_rest [OF law(2) assms(2), of ?d "peers ?d" "?q1\<lparr>allowedips := ?as\<rparr>" ac rest]
    by (simp add: showconf_peer_def)
  then show thesis
    by (rule that)
qed

lemma read_peers:
  assumes "list_all (printable_peer env) ps" and "parse_dns_retries env = Inr r" and "at_end (peers (device ctx)) (last_peer ctx)"
  shows "\<exists>ctx'. read_text env ctx (showconf_peers env ps) = Inr ctx' \<and>
    device ctx' = (device ctx)\<lparr>peers := peers (device ctx) @ map configured_peer ps\<rparr>"
  using assms
proof (induction ps arbitrary: ctx)
  case Nil
  then show ?case by (simp add: read_text_def)
next
  case (Cons p ps)
  have pp: "printable_peer env p" "list_all (printable_peer env) ps"
    using Cons.prems by simp_all
  let ?d = "device ctx"
  obtain ac where "read_text env ctx (showconf_peer env p @ print_if (ps \<noteq> []) [NL] @ showconf_peers env ps)
      = read_text env (peer_ctx ?d (peers ?d) (configured_peer p) ac) (print_if (ps \<noteq> []) [NL] @ showconf_peers env ps)"
    using read_peer [OF pp(1) Cons.prems(2,3)] by blast
  then have r: "read_text env ctx (showconf_peers env (p # ps))
      = read_text env (peer_ctx ?d (peers ?d) (configured_peer p) ac) (showconf_peers env ps)"
    using read_empty_line by (simp add: print_if_def)
  have "at_end (peers (device (peer_ctx ?d (peers ?d) (configured_peer p) ac))) (last_peer (peer_ctx ?d (peers ?d) (configured_peer p) ac))"
    by (simp add: peer_ctx_def at_end_def)
  from Cons.IH [OF pp(2) Cons.prems(2) this] show ?case
    unfolding r by (simp add: peer_ctx_def)
qed

definition printable_device :: "env \<Rightarrow> wgdevice \<Rightarrow> bool" where
  "printable_device env d \<longleftrightarrow> printable_interface env d \<and> list_all (printable_peer env) (peers d)"

definition configured_device :: "wgdevice \<Rightarrow> wgdevice" where
  "configured_device d = (configured_interface d)\<lparr>peers := map configured_peer (peers d)\<rparr>"

lemma read_interface:
  assumes "printable_interface env d"
  shows "read_text env (config_read_init False) (showconf_interface d @ rest)
    = read_text env \<lparr>device = configured_interface d, last_peer = None, last_allowedip = None,
        is_peer_section = False, is_device_section = True\<rparr> rest"
proof -
  let ?c = "config_read_init False\<lparr>is_peer_section := False, is_device_section := True\<rparr>"
  have "read_text env (config_read_init False) (showconf_interface d @ rest) = read_text env ?c (showconf_fields d @ NL # rest)"
    using read_interface_header by (simp add: showconf_interface_def)
  also have "\<dots> = read_text env (?c\<lparr>device := load_interface d (device ?c)\<rparr>) (NL # rest)"
    using assms by (intro read_interface_fields) (simp_all add: config_read_init_def zero_device_def)
  also have "\<dots> = read_text env (?c\<lparr>device := configured_interface d\<rparr>) rest"
    using load_interface_init [OF assms] by (simp add: read_empty_line)
  finally show ?thesis
    by (simp add: config_read_init_def)
qed

lemma configured_peer_key: "flags (configured_peer p) AND WGPEER_HAS_PUBLIC_KEY \<noteq> 0"
  by (simp add: configured_peer_def c_flags bit_simps)

text \<open>C3. Setting a device from what \<open>showconf\<close> printed of it gives back its configuration: \<open>setconf\<close> reads the
  output without an error, and asks for the same private key, port, mark, obfuscation parameters and peers
  (keys, allowed addresses, endpoint and keepalive interval), whenever the address functions of the platform
  read back what they print and the strings have no character the file format gives a meaning.\<close>

theorem showconf_setconf_roundtrip:
  assumes "printable_device env d" and "parse_dns_retries env = Inr r"
  shows "read_config env False (showconf_device env d) = Inr (configured_device d)"
proof -
  let ?c = "\<lparr>device = configured_interface d, last_peer = None, last_allowedip = None, is_peer_section = False, is_device_section = True\<rparr>"
  have p: "printable_interface env d" "list_all (printable_peer env) (peers d)"
    using assms(1) by (simp_all add: printable_device_def)
  have e: "peers (configured_interface d) = []"
    by (simp add: configured_interface_def)
  then obtain ctx where "read_text env ?c (showconf_peers env (peers d)) = Inr ctx" and "device ctx = configured_device d"
    using read_peers [OF p(2) assms(2), of ?c] by (auto simp: at_end_def configured_device_def)
  then show ?thesis
    using read_interface [OF p(1), of "showconf_peers env (peers d)"] configured_peer_key
    by (auto simp: read_config_def showconf_device_def read_text_def config_read_finish_def configured_device_def list_all_iff)
qed

definition sample_device :: wgdevice where
  "sample_device = zero_device\<lparr>dev_flags := WGDEVICE_HAS_JC OR WGDEVICE_HAS_H1 OR WGDEVICE_HAS_I1, listen_port := 51820,
     fwmark := 0xca6c, junk_packet_count := 4, init_packet_magic_header := Some ''10-20'', i1 := Some ''<b 0xf6> <c>'',
     peers := [zero_peer\<lparr>flags := WGPEER_HAS_PRESHARED_KEY, preshared_key := replicate 32 7, rx_bytes := 9,
       endpoint := SA_IN [192, 0, 2, 1] 51820, persistent_keepalive_interval := 25,
       allowedips := [\<lparr>family = AF_INET, ip = 10 # replicate 15 0, cidr = 8\<rparr>,
         \<lparr>family = AF_INET6, ip = replicate 16 0, cidr = 0\<rparr>]\<rparr>]\<rparr>"

lemma sample_device_printable: "printable_device sample_env sample_device" "parse_dns_retries sample_env = Inr 15"
proof -
  have port: "passive_port_law sample_env 51820"
    by (simp add: passive_port_law_def sample_env_def)
  have "printable_interface sample_env sample_device"
    using port
    by (simp add: printable_interface_def sample_device_def unset_default_def printable_strings_def Let_def zero_device_def
        device_flag_defs header_ok_def template_ok_def word_value_def text_value_def c_char MAX_AWG_STRING_LEN_def)
  moreover have "list_all (printable_peer sample_env) (peers sample_device)"
  proof -
    have "take 4 (10 # replicate 15 0) = [10, 0, 0, 0 :: u8]" "drop 4 (10 # replicate 15 0) = replicate 12 (0 :: u8)"
      by (simp_all add: numeral_eq_Suc)
    then have "allowedip_law sample_env \<lparr>family = AF_INET, ip = 10 # replicate 15 0, cidr = 8\<rparr>"
      "allowedip_law sample_env \<lparr>family = AF_INET6, ip = replicate 16 0, cidr = 0\<rparr>"
      by (simp_all add: allowedip_law_def allowedip_text_def allowedip_wf_def ip4_def ip6_def sample_env_def word_value_def
          text_value_def c_char)
    moreover have "endpoint_law sample_env (SA_IN [192, 0, 2, 1] 51820)"
      by (simp add: endpoint_law_def sample_env_def word_value_def text_value_def c_char)
    ultimately show ?thesis
      by (simp add: sample_device_def printable_peer_def zero_peer_def peer_flag_defs)
  qed
  ultimately show "printable_device sample_env sample_device"
    by (simp add: printable_device_def)
  show "parse_dns_retries sample_env = Inr 15"
    by (simp add: parse_dns_retries_def sample_env_def)
qed

theorem showconf_setconf_roundtrip_witness:
  "printable_device sample_env sample_device \<and>
   read_config sample_env False (showconf_device sample_env sample_device) = Inr (configured_device sample_device)"
  using showconf_setconf_roundtrip [OF sample_device_printable] sample_device_printable(1) by blast

end
