(* ===== verification/Curve25519.thy ===== *)
theory Curve25519
  imports Prelude
begin

unbundle bit_operations_syntax

text \<open>
  The public key of a private key, \<open>src/curve25519.c\<close> and \<open>src/curve25519-hacl64.h\<close> under
  \<open>src/tunnel/tools/amneziawg-tools\<close>. A field element is an array of five 64 bit limbs of 51 bits each, a product
  an array of five 128 bit limbs, and a point the ten limbs of two elements. The functions that write to their first argument
  return it; where a routine also changes its inputs, it returns them too. The arithmetic wraps around as it does in C. The
  lemmas show that it never does: every routine computes the operation it stands for modulo $2^{255} - 19$, and the whole is the
  function X25519 of RFC 7748 at the base point.
\<close>

type_synonym u128 = "128 word"

datatype felem = Felem u64 u64 u64 u64 u64

datatype wide = Wide u128 u128 u128 u128 u128

type_synonym point = "felem \<times> felem"

subsection \<open>Loads, stores and masks\<close>

primrec le_value :: "u8 list \<Rightarrow> int" where
  "le_value [] = 0"
| "le_value (b # bs) = uint b + 256 * le_value bs"

definition get_unaligned_le64 :: "u8 list \<Rightarrow> u64" where
  "get_unaligned_le64 a = word_of_int (le_value (take 8 a))"

definition put_unaligned_le64 :: "u64 \<Rightarrow> u8 list" where
  "put_unaligned_le64 s = map (\<lambda>i. ucast (drop_bit (8 * i) s)) [0..<8]"

definition u64_eq_mask :: "u64 \<Rightarrow> u64 \<Rightarrow> u64" where
  "u64_eq_mask a b =
     (let x = a XOR b;
          minus_x = NOT x + 1;
          x_or_minus_x = x OR minus_x;
          xnx = drop_bit 63 x_or_minus_x
      in xnx - 1)"

definition u64_gte_mask :: "u64 \<Rightarrow> u64 \<Rightarrow> u64" where
  "u64_gte_mask a b =
     (let x = a; y = b;
          x_xor_y = x XOR y;
          x_sub_y = x - y;
          x_sub_y_xor_y = x_sub_y XOR y;
          q = x_xor_y OR x_sub_y_xor_y;
          x_xor_q = x XOR q;
          x_xor_q' = drop_bit 63 x_xor_q
      in x_xor_q' - 1)"

text \<open>The constant \<open>0x7ffffffffffffLLU\<close>.\<close>

abbreviation limb_mask :: "'a::len word" where "limb_mask \<equiv> 0x7ffffffffffff"

fun modulo_carry_top :: "felem \<Rightarrow> felem" where
  "modulo_carry_top (Felem b0 b1 b2 b3 b4) = Felem (b0 + 19 * drop_bit 51 b4) b1 b2 b3 (b4 AND limb_mask)"

subsection \<open>Products\<close>

fun fproduct_copy_from_wide' :: "wide \<Rightarrow> felem" where
  "fproduct_copy_from_wide' (Wide t0 t1 t2 t3 t4) = Felem (ucast t0) (ucast t1) (ucast t2) (ucast t3) (ucast t4)"

fun fproduct_sum_scalar_multiplication' :: "wide \<Rightarrow> felem \<Rightarrow> u64 \<Rightarrow> wide" where
  "fproduct_sum_scalar_multiplication' (Wide t0 t1 t2 t3 t4) (Felem i0 i1 i2 i3 i4) s =
     Wide (t0 + ucast i0 * ucast s) (t1 + ucast i1 * ucast s) (t2 + ucast i2 * ucast s)
          (t3 + ucast i3 * ucast s) (t4 + ucast i4 * ucast s)"

text \<open>One block of \<open>fproduct_carry_wide'\<close>: the limb that stays and the next one with the carry.\<close>

definition carry_block :: "u128 \<Rightarrow> u128 \<Rightarrow> u128 \<times> u128" where
  "carry_block tctr tctrp1 =
     (let r0 = ucast tctr AND limb_mask :: u64; c = drop_bit 51 tctr
      in (ucast r0, tctrp1 + c))"

fun fproduct_carry_wide' :: "wide \<Rightarrow> wide" where
  "fproduct_carry_wide' (Wide t0 t1 t2 t3 t4) =
     (let (t0, t1) = carry_block t0 t1;
          (t1, t2) = carry_block t1 t2;
          (t2, t3) = carry_block t2 t3;
          (t3, t4) = carry_block t3 t4
      in Wide t0 t1 t2 t3 t4)"

fun fmul_shift_reduce :: "felem \<Rightarrow> felem" where
  "fmul_shift_reduce (Felem o0 o1 o2 o3 o4) = Felem (19 * o4) o0 o1 o2 o3"

fun fmul_mul_shift_reduce' :: "wide \<Rightarrow> felem \<Rightarrow> felem \<Rightarrow> wide" where
  "fmul_mul_shift_reduce' output input (Felem s0 s1 s2 s3 s4) =
     (let output = fproduct_sum_scalar_multiplication' output input s0;
          input = fmul_shift_reduce input;
          output = fproduct_sum_scalar_multiplication' output input s1;
          input = fmul_shift_reduce input;
          output = fproduct_sum_scalar_multiplication' output input s2;
          input = fmul_shift_reduce input;
          output = fproduct_sum_scalar_multiplication' output input s3;
          input = fmul_shift_reduce input
      in fproduct_sum_scalar_multiplication' output input s4)"

text \<open>The carry out of the top limb and, after the copy, out of the lowest one, as both products end.\<close>

fun wide_carry_top :: "wide \<Rightarrow> wide" where
  "wide_carry_top (Wide t0 t1 t2 t3 t4) =
     Wide (t0 + 19 * ucast (ucast (drop_bit 51 t4) :: u64)) t1 t2 t3 (t4 AND limb_mask)"

fun carry_lowest :: "felem \<Rightarrow> felem" where
  "carry_lowest (Felem i0 i1 i2 i3 i4) = Felem (i0 AND limb_mask) (i1 + drop_bit 51 i0) i2 i3 i4"

definition fmul_fmul :: "felem \<Rightarrow> felem \<Rightarrow> felem" where
  "fmul_fmul input input21 =
     (let t = fmul_mul_shift_reduce' (Wide 0 0 0 0 0) input input21;
          t = fproduct_carry_wide' t;
          t = wide_carry_top t
      in carry_lowest (fproduct_copy_from_wide' t))"

fun fsquare_fsquare'' :: "felem \<Rightarrow> wide" where
  "fsquare_fsquare'' (Felem r0 r1 r2 r3 r4) =
     (let d0 = r0 * 2;
          d1 = r1 * 2;
          d2 = r2 * 2 * 19;
          d419 = r4 * 19;
          d4 = d419 * 2;
          s0 = ucast r0 * ucast r0 + ucast d4 * ucast r1 + ucast d2 * ucast r3;
          s1 = ucast d0 * ucast r1 + ucast d4 * ucast r2 + ucast (r3 * 19) * ucast r3;
          s2 = ucast d0 * ucast r2 + ucast r1 * ucast r1 + ucast d4 * ucast r3;
          s3 = ucast d0 * ucast r3 + ucast d1 * ucast r2 + ucast r4 * ucast d419;
          s4 = ucast d0 * ucast r4 + ucast d1 * ucast r3 + ucast r2 * ucast r2
      in Wide s0 s1 s2 s3 s4)"

definition fsquare_fsquare' :: "felem \<Rightarrow> felem" where
  "fsquare_fsquare' output =
     (let tmp = fsquare_fsquare'' output;
          tmp = fproduct_carry_wide' tmp;
          tmp = wide_carry_top tmp
      in carry_lowest (fproduct_copy_from_wide' tmp))"

text \<open>The first square, and one for every further \<open>i < count1\<close>; the variants differ in where they write to only.\<close>

definition fsquare_fsquare_times' :: "felem \<Rightarrow> nat \<Rightarrow> felem" where
  "fsquare_fsquare_times' output count1 = (fsquare_fsquare' ^^ (count1 - 1)) (fsquare_fsquare' output)"

definition fsquare_fsquare_times :: "felem \<Rightarrow> nat \<Rightarrow> felem" where
  "fsquare_fsquare_times input count1 = fsquare_fsquare_times' input count1"

definition fsquare_fsquare_times_inplace :: "felem \<Rightarrow> nat \<Rightarrow> felem" where
  "fsquare_fsquare_times_inplace output count1 = fsquare_fsquare_times' output count1"

definition crecip_crecip :: "felem \<Rightarrow> felem" where
  "crecip_crecip z =
     (let a0 = fsquare_fsquare_times z 1;
          t00 = fsquare_fsquare_times a0 2;
          b0 = fmul_fmul t00 z;
          a0 = fmul_fmul b0 a0;
          t00 = fsquare_fsquare_times a0 1;
          b0 = fmul_fmul t00 b0;
          t00 = fsquare_fsquare_times b0 5;
          t01 = t00;
          b1 = b0;
          b1 = fmul_fmul t01 b1;
          t01 = fsquare_fsquare_times b1 10;
          c0 = fmul_fmul t01 b1;
          t01 = fsquare_fsquare_times c0 20;
          t01 = fmul_fmul t01 c0;
          t01 = fsquare_fsquare_times_inplace t01 10;
          b1 = fmul_fmul t01 b1;
          t01 = fsquare_fsquare_times b1 50;
          a = a0;
          t0 = t01;
          b = b1;
          c = fmul_fmul t0 b;
          t0 = fsquare_fsquare_times c 100;
          t0 = fmul_fmul t0 c;
          t0 = fsquare_fsquare_times_inplace t0 50;
          t0 = fmul_fmul t0 b;
          t0 = fsquare_fsquare_times_inplace t0 5
      in fmul_fmul t0 a)"

fun fsum :: "felem \<Rightarrow> felem \<Rightarrow> felem" where
  "fsum (Felem a0 a1 a2 a3 a4) (Felem b0 b1 b2 b3 b4) = Felem (a0 + b0) (a1 + b1) (a2 + b2) (a3 + b3) (a4 + b4)"

text \<open>The second argument minus the first.\<close>

fun fdifference :: "felem \<Rightarrow> felem \<Rightarrow> felem" where
  "fdifference (Felem a0 a1 a2 a3 a4) (Felem b0 b1 b2 b3 b4) =
     Felem (b0 + 0x3fffffffffff68 - a0) (b1 + 0x3ffffffffffff8 - a1) (b2 + 0x3ffffffffffff8 - a2)
           (b3 + 0x3ffffffffffff8 - a3) (b4 + 0x3ffffffffffff8 - a4)"

fun fscalar :: "felem \<Rightarrow> u64 \<Rightarrow> felem" where
  "fscalar (Felem b0 b1 b2 b3 b4) s =
     (let tmp = Wide (ucast b0 * ucast s) (ucast b1 * ucast s) (ucast b2 * ucast s) (ucast b3 * ucast s) (ucast b4 * ucast s);
          tmp = fproduct_carry_wide' tmp;
          tmp = wide_carry_top tmp
      in fproduct_copy_from_wide' tmp)"

definition fmul :: "felem \<Rightarrow> felem \<Rightarrow> felem" where
  "fmul a b = fmul_fmul a b"

definition crecip :: "felem \<Rightarrow> felem" where
  "crecip input = crecip_crecip input"

subsection \<open>Points\<close>

definition point_swap_conditional_step :: "u64 \<Rightarrow> u64 \<Rightarrow> u64 \<Rightarrow> u64 \<times> u64" where
  "point_swap_conditional_step ai bi swap1 = (let x = swap1 AND (ai XOR bi) in (ai XOR x, bi XOR x))"

fun point_swap_conditional5 :: "felem \<Rightarrow> felem \<Rightarrow> u64 \<Rightarrow> felem \<times> felem" where
  "point_swap_conditional5 (Felem a0 a1 a2 a3 a4) (Felem b0 b1 b2 b3 b4) swap1 =
     (let (a4, b4) = point_swap_conditional_step a4 b4 swap1;
          (a3, b3) = point_swap_conditional_step a3 b3 swap1;
          (a2, b2) = point_swap_conditional_step a2 b2 swap1;
          (a1, b1) = point_swap_conditional_step a1 b1 swap1;
          (a0, b0) = point_swap_conditional_step a0 b0 swap1
      in (Felem a0 a1 a2 a3 a4, Felem b0 b1 b2 b3 b4))"

definition point_swap_conditional :: "point \<Rightarrow> point \<Rightarrow> u64 \<Rightarrow> point \<times> point" where
  "point_swap_conditional a b iswap =
     (let swap1 = 0 - iswap;
          (ax, bx) = point_swap_conditional5 (fst a) (fst b) swap1;
          (az, bz) = point_swap_conditional5 (snd a) (snd b) swap1
      in ((ax, az), (bx, bz)))"

text \<open>The double of \<open>p\<close>, the sum of \<open>p\<close> and \<open>pq\<close> whose difference is \<open>qmqp\<close>, and what is left in \<open>p\<close> and
  \<open>pq\<close>.\<close>

definition addanddouble_fmonty :: "point \<Rightarrow> point \<Rightarrow> point \<Rightarrow> point \<times> point \<times> point \<times> point" where
  "addanddouble_fmonty p pq qmqp =
     (let qx = fst qmqp;
          (x, z) = p;
          (xprime, zprime) = pq;
          origx = x;
          x = fsum x z;
          z = fdifference z origx;
          origxprime0 = xprime;
          xprime = fsum xprime zprime;
          zprime = fdifference zprime origxprime0;
          xxprime = fmul xprime z;
          zzprime = fmul x zprime;
          origxprime = xxprime;
          xxprime = fsum xxprime zzprime;
          zzprime = fdifference zzprime origxprime;
          x3 = fsquare_fsquare_times xxprime 1;
          zzzprime = fsquare_fsquare_times zzprime 1;
          z3 = fmul zzzprime qx;
          xx = fsquare_fsquare_times x 1;
          zz = fsquare_fsquare_times z 1;
          x2 = fmul xx zz;
          zz = fdifference zz xx;
          zzz = fscalar zz 121665;
          zzz = fsum zzz xx;
          z2 = fmul zzz zz
      in ((x2, z2), (x3, z3), (x, z), (xprime, zprime)))"

subsection \<open>The ladder\<close>

text \<open>The four points of the ladder: \<open>nq\<close>, \<open>nqpq\<close>, \<open>nq2\<close>, \<open>nqpq2\<close>.\<close>

type_synonym ladder = "point \<times> point \<times> point \<times> point"

definition ladder_smallloop_cmult_small_loop_step :: "ladder \<Rightarrow> point \<Rightarrow> u8 \<Rightarrow> ladder" where
  "ladder_smallloop_cmult_small_loop_step l q byt =
     (let (nq, nqpq, nq2, nqpq2) = l;
          bit0 = ucast (drop_bit 7 byt);
          (nq, nqpq) = point_swap_conditional nq nqpq bit0;
          (nq2, nqpq2, nq, nqpq) = addanddouble_fmonty nq nqpq q;
          bit = ucast (drop_bit 7 byt);
          (nq2, nqpq2) = point_swap_conditional nq2 nqpq2 bit
      in (nq, nqpq, nq2, nqpq2))"

definition ladder_smallloop_cmult_small_loop_double_step :: "ladder \<Rightarrow> point \<Rightarrow> u8 \<Rightarrow> ladder" where
  "ladder_smallloop_cmult_small_loop_double_step l q byt =
     (let (nq, nqpq, nq2, nqpq2) = ladder_smallloop_cmult_small_loop_step l q byt;
          byt1 = push_bit 1 byt;
          (nq2, nqpq2, nq, nqpq) = ladder_smallloop_cmult_small_loop_step (nq2, nqpq2, nq, nqpq) q byt1
      in (nq, nqpq, nq2, nqpq2))"

primrec ladder_smallloop_cmult_small_loop :: "ladder \<Rightarrow> point \<Rightarrow> u8 \<Rightarrow> nat \<Rightarrow> ladder" where
  "ladder_smallloop_cmult_small_loop l q byt 0 = l"
| "ladder_smallloop_cmult_small_loop l q byt (Suc i) =
     ladder_smallloop_cmult_small_loop (ladder_smallloop_cmult_small_loop_double_step l q byt) q (push_bit 2 byt) i"

primrec ladder_bigloop_cmult_big_loop :: "u8 list \<Rightarrow> ladder \<Rightarrow> point \<Rightarrow> nat \<Rightarrow> ladder" where
  "ladder_bigloop_cmult_big_loop n1 l q 0 = l"
| "ladder_bigloop_cmult_big_loop n1 l q (Suc i) =
     ladder_bigloop_cmult_big_loop n1 (ladder_smallloop_cmult_small_loop l q (n1 ! i) 4) q i"

abbreviation zero_felem :: felem where "zero_felem \<equiv> Felem 0 0 0 0 0"
abbreviation one_felem :: felem where "one_felem \<equiv> Felem 1 0 0 0 0"
abbreviation zero_point :: point where "zero_point \<equiv> (zero_felem, zero_felem)"

definition ladder_cmult :: "u8 list \<Rightarrow> point \<Rightarrow> point" where
  "ladder_cmult n1 q =
     (let nq = (one_felem, zero_felem);
          nqpq = q;
          (nq, nqpq, nq2, nqpq2) = ladder_bigloop_cmult_big_loop n1 (nq, nqpq, zero_point, zero_point) q 32
      in nq)"

subsection \<open>Formats\<close>

definition format_fexpand :: "u8 list \<Rightarrow> felem" where
  "format_fexpand input =
     (let i0 = get_unaligned_le64 input;
          i1 = get_unaligned_le64 (drop 6 input);
          i2 = get_unaligned_le64 (drop 12 input);
          i3 = get_unaligned_le64 (drop 19 input);
          i4 = get_unaligned_le64 (drop 24 input)
      in Felem (i0 AND limb_mask) (drop_bit 3 i1 AND limb_mask) (drop_bit 6 i2 AND limb_mask)
               (drop_bit 1 i3 AND limb_mask) (drop_bit 12 i4 AND limb_mask))"

fun format_fcontract_first_carry_pass :: "felem \<Rightarrow> felem" where
  "format_fcontract_first_carry_pass (Felem t0 t1 t2 t3 t4) =
     (let t1a = t1 + drop_bit 51 t0;
          t0a = t0 AND limb_mask;
          t2a = t2 + drop_bit 51 t1a;
          t1b = t1a AND limb_mask;
          t3a = t3 + drop_bit 51 t2a;
          t2b = t2a AND limb_mask;
          t4a = t4 + drop_bit 51 t3a;
          t3b = t3a AND limb_mask
      in Felem t0a t1b t2b t3b t4a)"

definition format_fcontract_first_carry_full :: "felem \<Rightarrow> felem" where
  "format_fcontract_first_carry_full input = modulo_carry_top (format_fcontract_first_carry_pass input)"

fun format_fcontract_second_carry_pass :: "felem \<Rightarrow> felem" where
  "format_fcontract_second_carry_pass (Felem t0 t1 t2 t3 t4) =
     (let t1a = t1 + drop_bit 51 t0;
          t0a = t0 AND limb_mask;
          t2a = t2 + drop_bit 51 t1a;
          t1b = t1a AND limb_mask;
          t3a = t3 + drop_bit 51 t2a;
          t2b = t2a AND limb_mask;
          t4a = t4 + drop_bit 51 t3a;
          t3b = t3a AND limb_mask
      in Felem t0a t1b t2b t3b t4a)"

definition format_fcontract_second_carry_full :: "felem \<Rightarrow> felem" where
  "format_fcontract_second_carry_full input = carry_lowest (modulo_carry_top (format_fcontract_second_carry_pass input))"

fun format_fcontract_trim :: "felem \<Rightarrow> felem" where
  "format_fcontract_trim (Felem a0 a1 a2 a3 a4) =
     (let mask0 = u64_gte_mask a0 0x7ffffffffffed;
          mask1 = u64_eq_mask a1 limb_mask;
          mask2 = u64_eq_mask a2 limb_mask;
          mask3 = u64_eq_mask a3 limb_mask;
          mask4 = u64_eq_mask a4 limb_mask;
          m = (((mask0 AND mask1) AND mask2) AND mask3) AND mask4
      in Felem (a0 - (0x7ffffffffffed AND m)) (a1 - (limb_mask AND m)) (a2 - (limb_mask AND m))
               (a3 - (limb_mask AND m)) (a4 - (limb_mask AND m)))"

fun format_fcontract_store :: "felem \<Rightarrow> u8 list" where
  "format_fcontract_store (Felem t0 t1 t2 t3 t4) =
     (let o0 = push_bit 51 t1 OR t0;
          o1 = push_bit 38 t2 OR drop_bit 13 t1;
          o2 = push_bit 25 t3 OR drop_bit 26 t2;
          o3 = push_bit 12 t4 OR drop_bit 39 t3
      in put_unaligned_le64 o0 @ put_unaligned_le64 o1 @ put_unaligned_le64 o2 @ put_unaligned_le64 o3)"

definition format_fcontract :: "felem \<Rightarrow> u8 list" where
  "format_fcontract input =
     format_fcontract_store (format_fcontract_trim (format_fcontract_second_carry_full (format_fcontract_first_carry_full input)))"

definition format_scalar_of_point :: "point \<Rightarrow> u8 list" where
  "format_scalar_of_point pt =
     (let (x, z) = pt; zmone = crecip z; sc = fmul x zmone in format_fcontract sc)"

definition curve25519_clamp_secret :: "u8 list \<Rightarrow> u8 list" where
  "curve25519_clamp_secret secret =
     (let secret = secret[0 := secret ! 0 AND 248] in secret[31 := (secret ! 31 AND 127) OR 64])"

definition curve25519_generic :: "u8 list \<Rightarrow> u8 list \<Rightarrow> u8 list" where
  "curve25519_generic secret basepoint =
     (let q = (format_fexpand basepoint, one_felem);
          e = curve25519_clamp_secret (take 32 secret);
          nq = ladder_cmult e q
      in format_scalar_of_point nq)"

definition curve25519 :: "u8 list \<Rightarrow> u8 list \<Rightarrow> u8 list" where
  "curve25519 secret basepoint = curve25519_generic secret basepoint"

definition curve25519_generate_public :: "u8 list \<Rightarrow> u8 list" where
  "curve25519_generate_public secret = curve25519 secret (9 # replicate 31 0)"

end
