(* ===== verification/Curve25519_Field.thy ===== *)
theory Curve25519_Field
  imports Curve25519
begin

unbundle bit_operations_syntax

text \<open>
  The field arithmetic of \<^verbatim>\<open>Curve25519\<close>. Every operation on limbs is shown to stay inside its words for the limbs it is
  given, to leave limbs that the next operation accepts, and to compute the sum, difference, product, square or inverse modulo
  $2^{255} - 19$.
\<close>

subsection \<open>Words as integers\<close>

lemma uint_range [simp]: "0 \<le> uint w" "uint w < 2 ^ LENGTH('a)" for w :: "'a::len word"
  using unsigned_less [of w, where 'a = int] by simp_all

lemma uint_drop_bit: "uint (drop_bit n w) = uint w div 2 ^ n" for w :: "'a::len word"
  by (simp only: unsigned_drop_bit_eq) (simp only: drop_bit_eq_div take_bit_int_eq_self uint_range)

lemma limb_mask_eq: "limb_mask = (mask 51 :: 'a::len word)"
  by (simp add: mask_eq_exp_minus_1)

lemma uint_and_limb [simp]: "uint (w AND limb_mask) = uint w mod 0x8000000000000" for w :: "'a::len word"
  unfolding limb_mask_eq take_bit_eq_mask [symmetric] by (simp only: unsigned_take_bit_eq) (simp add: take_bit_eq_mod)

lemma uint_ucast_wide [simp]: "uint (ucast w :: u128) = uint w" for w :: u64
  using uint_range(2) [of w] by (simp add: unsigned_ucast_eq take_bit_int_eq_self)

lemma uint_ucast_narrow: "uint (ucast w :: u64) = uint w mod 2 ^ 64" for w :: u128
  by (simp add: unsigned_ucast_eq take_bit_eq_mod)

lemma uint_add_small: "uint a + uint b < 2 ^ LENGTH('a) \<Longrightarrow> uint (a + b) = uint a + uint b" for a b :: "'a::len word"
  using uint_add_lem [of a b] by simp

lemma uint_mult_small: "uint a * uint b < 2 ^ LENGTH('a) \<Longrightarrow> uint (a * b) = uint a * uint b" for a b :: "'a::len word"
  using uint_mult_lem [of a b] by simp

lemma uint_sub_small: "uint b \<le> uint a \<Longrightarrow> uint (a - b) = uint a - uint b" for a b :: "'a::len word"
  using uint_sub_lem [of b a] by simp

text \<open>A product of two 64 bit integers in 128 bits, and a product by a constant.\<close>

lemma uint_mult_wide [simp]: "uint (ucast a * ucast b :: u128) = uint a * uint b" for a b :: u64
proof -
  have "uint a * uint b < 2 ^ 64 * 2 ^ 64"
    using uint_range(2) [of a] uint_range(2) [of b] by (intro mult_strict_mono) simp_all
  then show ?thesis
    by (subst uint_mult_small) simp_all
qed

subsection \<open>Values and bounds\<close>

text \<open>The powers of two of the bounds, as numerals.\<close>

abbreviation two13 :: int where "two13 \<equiv> 0x2000"
abbreviation two14 :: int where "two14 \<equiv> 0x4000"
abbreviation two25 :: int where "two25 \<equiv> 0x2000000"
abbreviation two51 :: int where "two51 \<equiv> 0x8000000000000"
abbreviation two52 :: int where "two52 \<equiv> 0x10000000000000"
abbreviation two53 :: int where "two53 \<equiv> 0x20000000000000"
abbreviation two54 :: int where "two54 \<equiv> 0x40000000000000"
abbreviation two55 :: int where "two55 \<equiv> 0x80000000000000"
abbreviation two64 :: int where "two64 \<equiv> 0x10000000000000000"
abbreviation two72 :: int where "two72 \<equiv> 0x1000000000000000000"
abbreviation two70 :: int where "two70 \<equiv> 0x400000000000000000"
abbreviation two102 :: int where "two102 \<equiv> 0x40000000000000000000000000"
abbreviation two105 :: int where "two105 \<equiv> 0x200000000000000000000000000"
abbreviation two120 :: int where "two120 \<equiv> 0x1000000000000000000000000000000"
abbreviation two128 :: int where "two128 \<equiv> 0x100000000000000000000000000000000"
abbreviation two153 :: int where "two153 \<equiv> 0x200000000000000000000000000000000000000"
abbreviation two204 :: int where "two204 \<equiv> 0x1000000000000000000000000000000000000000000000000000"

definition p25519 :: int where "p25519 = 2 ^ 255 - 19"

fun fval :: "felem \<Rightarrow> int" where
  "fval (Felem a0 a1 a2 a3 a4) = uint a0 + two51 * uint a1 + two102 * uint a2 + two153 * uint a3 + two204 * uint a4"

fun wval :: "wide \<Rightarrow> int" where
  "wval (Wide t0 t1 t2 t3 t4) = uint t0 + two51 * uint t1 + two102 * uint t2 + two153 * uint t3 + two204 * uint t4"

text \<open>The residue an element stands for.\<close>

definition fe :: "felem \<Rightarrow> int" where "fe a = fval a mod p25519"

fun limbs_below :: "int \<Rightarrow> felem \<Rightarrow> bool" where
  "limbs_below m (Felem a0 a1 a2 a3 a4) \<longleftrightarrow> uint a0 < m \<and> uint a1 < m \<and> uint a2 < m \<and> uint a3 < m \<and> uint a4 < m"

lemma limbs_below_mono: "limbs_below m a \<Longrightarrow> m \<le> n \<Longrightarrow> limbs_below n a"
  by (cases a) auto

text \<open>A product of limbs that is small enough to be reduced: the top limb leaves room for nineteen times its carry.\<close>

fun wide_ok :: "wide \<Rightarrow> bool" where
  "wide_ok (Wide t0 t1 t2 t3 t4) \<longleftrightarrow> uint t0 < two120 \<and> uint t1 < two120 \<and> uint t2 < two120 \<and> uint t3 < two120 \<and>
     uint t4 < 51 * two105"

fun wide_top :: "wide \<Rightarrow> int" where
  "wide_top (Wide t0 t1 t2 t3 t4) = uint t4"

text \<open>Elements as the products leave them.\<close>

abbreviation reduced :: "felem \<Rightarrow> bool" where "reduced \<equiv> limbs_below 0x8000000002000"

lemma p25519_numeral: "p25519 = 0x7fffffffffffffffffffffffffffffffffffffffffffffffffffffffffffffed"
  by (simp add: p25519_def)

lemma p25519_mod: "x = y + p25519 * k \<Longrightarrow> x mod p25519 = y mod p25519"
  by simp

subsection \<open>Reduction of a product\<close>

lemma carry_block:
  assumes "uint t + uint s div two51 < two128" and "carry_block s t = (a, b)"
  shows "uint a = uint s mod two51" and "uint b = uint t + uint s div two51"
proof -
  have "uint s mod two64 mod two51 = uint s mod two51"
    by (rule mod_mod_cancel) simp
  then show "uint a = uint s mod two51"
    using assms(2) by (auto simp: carry_block_def uint_ucast_narrow)
  show "uint b = uint t + uint s div two51"
    using assms by (auto simp: carry_block_def uint_add_small uint_drop_bit)
qed

lemma limb_split: "x = two51 * (x div two51) + x mod two51" "0 \<le> x mod two51" "x mod two51 < two51" for x :: int
  by simp_all

lemma carry_wide:
  assumes ok: "wide_ok t" and eq: "fproduct_carry_wide' t = Wide r0 r1 r2 r3 r4"
  shows "wval (Wide r0 r1 r2 r3 r4) = wval t"
    and "uint r0 < two51" "uint r1 < two51" "uint r2 < two51" "uint r3 < two51" "uint r4 < wide_top t + two70"
proof -
  obtain t0 t1 t2 t3 t4 where t: "t = Wide t0 t1 t2 t3 t4"
    by (cases t)
  obtain a0 b1 where b1: "carry_block t0 t1 = (a0, b1)" by (cases "carry_block t0 t1")
  obtain a1 b2 where b2: "carry_block b1 t2 = (a1, b2)" by (cases "carry_block b1 t2")
  obtain a2 b3 where b3: "carry_block b2 t3 = (a2, b3)" by (cases "carry_block b2 t3")
  obtain a3 b4 where b4: "carry_block b3 t4 = (a3, b4)" by (cases "carry_block b3 t4")
  have r: "r0 = a0" "r1 = a1" "r2 = a2" "r3 = a3" "r4 = b4"
    using eq by (simp_all add: t b1 b2 b3 b4)
  have b: "uint t0 < two120" "uint t1 < two120" "uint t2 < two120" "uint t3 < two120" "uint t4 < 51 * two105"
    using ok unfolding t wide_ok.simps by blast+
  note l = limb_split [of "uint t0"] limb_split [of "uint b1"] limb_split [of "uint b2"] limb_split [of "uint b3"]
  have "uint t1 + uint t0 div two51 < two128"
    using b l by linarith
  note 1 = carry_block [OF this b1]
  have "uint t2 + uint b1 div two51 < two128"
    using b l 1 by linarith
  note 2 = carry_block [OF this b2]
  have "uint t3 + uint b2 div two51 < two128"
    using b l 1 2 by linarith
  note 3 = carry_block [OF this b3]
  have "uint t4 + uint b3 div two51 < two128"
    using b l 1 2 3 by linarith
  note 4 = carry_block [OF this b4]
  show "wval (Wide r0 r1 r2 r3 r4) = wval t"
    unfolding t r wval.simps using l 1 2 3 4 by linarith
  show "uint r0 < two51" "uint r1 < two51" "uint r2 < two51" "uint r3 < two51" "uint r4 < wide_top t + two70"
    unfolding r t wide_top.simps using l b 1 2 3 4 by linarith+
qed

text \<open>The carry out of the top limb: nineteen times it is added at the bottom, since $2^{255}$ is 19 modulo the prime.\<close>

lemma carry_top:
  assumes "uint t0 < two51" "uint t4 < 51 * two105 + two70" and eq: "wide_carry_top (Wide t0 t1 t2 t3 t4) = Wide r0 r1 r2 r3 r4"
  shows "wval (Wide t0 t1 t2 t3 t4) = wval (Wide r0 r1 r2 r3 r4) + p25519 * (uint t4 div two51)"
    and "r1 = t1" "r2 = t2" "r3 = t3" "uint r0 = uint t0 + 19 * (uint t4 div two51)" "uint r4 < two51" "uint r0 < two64"
proof -
  let ?c = "uint t4 div two51"
  have c: "0 \<le> ?c" "19 * ?c + two51 < two64"
    using assms(2) limb_split [of "uint t4"] uint_range(1) [of t4] by linarith+
  have "uint (ucast (drop_bit 51 t4) :: u64) = ?c"
    using c by (simp add: uint_ucast_narrow uint_drop_bit)
  then have "uint (19 * ucast (ucast (drop_bit 51 t4) :: u64) :: u128) = 19 * ?c"
    using c by (subst uint_mult_small) simp_all
  then have r0: "uint r0 = uint t0 + 19 * ?c"
    using eq c assms(1) by (auto simp: uint_add_small)
  have r: "r1 = t1" "r2 = t2" "r3 = t3" "uint r4 = uint t4 mod two51"
    using eq by auto
  then show "r1 = t1" "r2 = t2" "r3 = t3" "uint r0 = uint t0 + 19 * ?c" "uint r4 < two51" "uint r0 < two64"
    using r0 c assms(1) by auto
  show "wval (Wide t0 t1 t2 t3 t4) = wval (Wide r0 r1 r2 r3 r4) + p25519 * ?c"
    unfolding wval.simps r r0 p25519_numeral using limb_split [of "uint t4"] by linarith
qed

lemma copy_from_wide:
  assumes "uint t0 < two64" "uint t1 < two64" "uint t2 < two64" "uint t3 < two64" "uint t4 < two64"
  shows "fproduct_copy_from_wide' (Wide t0 t1 t2 t3 t4) = Felem r0 r1 r2 r3 r4 \<Longrightarrow>
    uint r0 = uint t0 \<and> uint r1 = uint t1 \<and> uint r2 = uint t2 \<and> uint r3 = uint t3 \<and> uint r4 = uint t4"
  using assms by (auto simp: uint_ucast_narrow)

text \<open>The reduction of a product without the last carry, as in \<open>fscalar\<close>.\<close>

lemma reduce_copy:
  assumes ok: "wide_ok t" and eq: "fproduct_copy_from_wide' (wide_carry_top (fproduct_carry_wide' t)) = Felem r0 r1 r2 r3 r4"
  shows "fe (Felem r0 r1 r2 r3 r4) = wval t mod p25519" "uint r1 < two51" "uint r2 < two51" "uint r3 < two51" "uint r4 < two51"
    and "wide_top t < two72 \<Longrightarrow> uint r0 < two52"
proof -
  obtain a0 a1 a2 a3 a4 where a: "fproduct_carry_wide' t = Wide a0 a1 a2 a3 a4"
    by (cases "fproduct_carry_wide' t")
  obtain b0 b1 b2 b3 b4 where b: "wide_carry_top (Wide a0 a1 a2 a3 a4) = Wide b0 b1 b2 b3 b4"
    by (cases "wide_carry_top (Wide a0 a1 a2 a3 a4)")
  note ca = carry_wide [OF ok a]
  have "wide_top t < 51 * two105"
    using ok by (cases t) simp
  then have t4: "uint a4 < 51 * two105 + two70"
    using ca(6) by simp
  note cb = carry_top [OF ca(2) t4 b]
  have r: "uint r0 = uint b0 \<and> uint r1 = uint b1 \<and> uint r2 = uint b2 \<and> uint r3 = uint b3 \<and> uint r4 = uint b4"
    using eq cb(2-7) ca(2-5) unfolding a b by (intro copy_from_wide) auto
  then show "uint r1 < two51" "uint r2 < two51" "uint r3 < two51" "uint r4 < two51"
    using ca(2-5) cb(2-7) by auto
  have "fval (Felem r0 r1 r2 r3 r4) = wval (Wide b0 b1 b2 b3 b4)"
    using r by simp
  then show "fe (Felem r0 r1 r2 r3 r4) = wval t mod p25519"
    using cb(1) ca(1) unfolding fe_def by (metis p25519_mod)
  show "uint r0 < two52" if "wide_top t < two72"
    using that r ca(2,6) cb(5) limb_split [of "uint a4"] by linarith
qed

lemma reduce_carry:
  assumes ok: "wide_ok t"
  shows "fe (carry_lowest (fproduct_copy_from_wide' (wide_carry_top (fproduct_carry_wide' t)))) = wval t mod p25519"
    and "reduced (carry_lowest (fproduct_copy_from_wide' (wide_carry_top (fproduct_carry_wide' t))))"
proof -
  obtain r0 r1 r2 r3 r4 where r: "fproduct_copy_from_wide' (wide_carry_top (fproduct_carry_wide' t)) = Felem r0 r1 r2 r3 r4"
    by (cases "fproduct_copy_from_wide' (wide_carry_top (fproduct_carry_wide' t))")
  note c = reduce_copy [OF ok r]
  have l: "uint r0 div two51 < two13"
    using limb_split [of "uint r0"] uint_range(2) [of r0] by simp
  have u: "uint (r1 + drop_bit 51 r0) = uint r1 + uint r0 div two51"
    using c(2) l by (subst uint_add_small) (simp_all add: uint_drop_bit)
  have "fval (carry_lowest (Felem r0 r1 r2 r3 r4)) = fval (Felem r0 r1 r2 r3 r4)"
    using mult_div_mod_eq [of two51 "uint r0"] unfolding carry_lowest.simps fval.simps u uint_and_limb distrib_left by linarith
  then show "fe (carry_lowest (fproduct_copy_from_wide' (wide_carry_top (fproduct_carry_wide' t)))) = wval t mod p25519"
    unfolding r using c(1) by (simp add: fe_def)
  show "reduced (carry_lowest (fproduct_copy_from_wide' (wide_carry_top (fproduct_carry_wide' t))))"
    unfolding r carry_lowest.simps limbs_below.simps u uint_and_limb using c l limb_split [of "uint r0"] by linarith
qed

subsection \<open>Products\<close>

lemma uint_sum3:
  fixes p1 p2 p3 :: u128
  assumes "uint p1 \<le> m" "uint p2 \<le> m" "uint p3 \<le> m" and "3 * m < two128"
  shows "uint (p1 + p2 + p3) = uint p1 + uint p2 + uint p3"
proof -
  have "uint (p1 + p2) = uint p1 + uint p2"
    using assms by (intro uint_add_small) simp
  then show ?thesis
    using assms by (subst uint_add_small) simp_all
qed

lemma uint_sum5:
  fixes p1 p2 p3 p4 p5 :: u128
  assumes "uint p1 \<le> m" "uint p2 \<le> m" "uint p3 \<le> m" "uint p4 \<le> m" "uint p5 \<le> m" and "5 * m < two128"
  shows "uint (p1 + p2 + p3 + p4 + p5) = uint p1 + uint p2 + uint p3 + uint p4 + uint p5"
proof -
  have 3: "uint (p1 + p2 + p3) = uint p1 + uint p2 + uint p3"
    using assms uint_range(1) [of p1] by (intro uint_sum3 [of _ m]) simp_all
  then have "uint (p1 + p2 + p3 + p4) = uint p1 + uint p2 + uint p3 + uint p4"
    using assms uint_range(1) [of p5] by (subst uint_add_small) simp_all
  then show ?thesis
    using assms by (subst uint_add_small) simp_all
qed

lemma uint_prod_le: "uint x \<le> a \<Longrightarrow> uint y \<le> b \<Longrightarrow> uint x * uint y \<le> a * b" for x y :: "'a::len word"
  using order_trans [OF uint_range(1) [of x], of a] by (intro mult_mono) simp_all

lemma uint_dot5:
  fixes xa xb xc xd xe ya yb yc yd ye :: u64
  assumes "uint xa \<le> a" "uint xb \<le> a" "uint xc \<le> a" "uint xd \<le> a" "uint xe \<le> a"
    and "uint ya \<le> b" "uint yb \<le> b" "uint yc \<le> b" "uint yd \<le> b" "uint ye \<le> b" and "5 * (a * b) < two128"
  shows "uint (ucast xa * ucast ya + ucast xb * ucast yb + ucast xc * ucast yc + ucast xd * ucast yd + ucast xe * ucast ye :: u128) =
      uint xa * uint ya + uint xb * uint yb + uint xc * uint yc + uint xd * uint yd + uint xe * uint ye"
    and "uint (ucast xa * ucast ya + ucast xb * ucast yb + ucast xc * ucast yc + ucast xd * ucast yd + ucast xe * ucast ye :: u128) \<le> 5 * (a * b)"
proof -
  note p = uint_prod_le [OF assms(1,6)] uint_prod_le [OF assms(2,7)] uint_prod_le [OF assms(3,8)]
    uint_prod_le [OF assms(4,9)] uint_prod_le [OF assms(5,10)]
  show s: "uint (ucast xa * ucast ya + ucast xb * ucast yb + ucast xc * ucast yc + ucast xd * ucast yd + ucast xe * ucast ye :: u128) =
      uint xa * uint ya + uint xb * uint yb + uint xc * uint yc + uint xd * uint yd + uint xe * uint ye"
    using p assms(11) by (subst uint_sum5 [of _ "a * b"]) simp_all
  show "uint (ucast xa * ucast ya + ucast xb * ucast yb + ucast xc * ucast yc + ucast xd * ucast yd + ucast xe * ucast ye :: u128) \<le> 5 * (a * b)"
    unfolding s using p by linarith
qed

lemma uint_times: "uint c * m < two64 \<Longrightarrow> uint x \<le> m \<Longrightarrow> uint (x * c) = uint x * uint c \<and> uint (c * x) = uint c * uint x" for x c :: u64
proof -
  assume a: "uint c * m < two64" "uint x \<le> m"
  then have "uint c * uint x < two64"
    using mult_left_mono [OF a(2), of "uint c"] by simp
  then show ?thesis
    using uint_mult_small [of x c] uint_mult_small [of c x] by (simp add: mult.commute)
qed

text \<open>The school product of two elements with the limbs above the fifth folded back, and its congruence.\<close>

definition fold0 :: "int \<Rightarrow> int \<Rightarrow> int \<Rightarrow> int \<Rightarrow> int \<Rightarrow> int \<Rightarrow> int \<Rightarrow> int \<Rightarrow> int \<Rightarrow> int \<Rightarrow> int" where
  "fold0 a0 a1 a2 a3 a4 b0 b1 b2 b3 b4 = a4 * b1 + a3 * b2 + a2 * b3 + a1 * b4 + two51 * (a4 * b2 + a3 * b3 + a2 * b4) +
     two102 * (a4 * b3 + a3 * b4) + two153 * (a4 * b4)"

lemma school_product:
  fixes a0 a1 a2 a3 a4 b0 b1 b2 b3 b4 :: int
  shows "(a0 + two51 * a1 + two102 * a2 + two153 * a3 + two204 * a4) * (b0 + two51 * b1 + two102 * b2 + two153 * b3 + two204 * b4) =
    (a0 * b0 + 19 * a4 * b1 + 19 * a3 * b2 + 19 * a2 * b3 + 19 * a1 * b4) +
    two51 * (a1 * b0 + a0 * b1 + 19 * a4 * b2 + 19 * a3 * b3 + 19 * a2 * b4) +
    two102 * (a2 * b0 + a1 * b1 + a0 * b2 + 19 * a4 * b3 + 19 * a3 * b4) +
    two153 * (a3 * b0 + a2 * b1 + a1 * b2 + a0 * b3 + 19 * a4 * b4) +
    two204 * (a4 * b0 + a3 * b1 + a2 * b2 + a1 * b3 + a0 * b4) +
    p25519 * fold0 a0 a1 a2 a3 a4 b0 b1 b2 b3 b4"
  unfolding p25519_numeral fold0_def by (simp add: algebra_simps)

lemma fmul_wide:
  assumes "limbs_below two53 a" and "limbs_below two55 b"
  shows "wide_ok (fmul_mul_shift_reduce' (Wide 0 0 0 0 0) a b)"
    and "wval (fmul_mul_shift_reduce' (Wide 0 0 0 0 0) a b) mod p25519 = fval a * fval b mod p25519"
proof -
  obtain a0 a1 a2 a3 a4 b0 b1 b2 b3 b4 where ab: "a = Felem a0 a1 a2 a3 a4" "b = Felem b0 b1 b2 b3 b4"
    by (cases a, cases b)
  have A: "uint a0 \<le> two53" "uint a1 \<le> two53" "uint a2 \<le> two53" "uint a3 \<le> two53" "uint a4 \<le> two53"
    and B: "uint b0 \<le> two55" "uint b1 \<le> two55" "uint b2 \<le> two55" "uint b3 \<le> two55" "uint b4 \<le> two55"
    using assms unfolding ab by simp_all
  have N: "uint (19 * x) = 19 * uint x \<and> uint (19 * x) \<le> 19 * two53" if "uint x \<le> two53" for x :: u64
    using that uint_times [of 19 two53 x] by simp
  note N = N [OF A(1)] N [OF A(2)] N [OF A(3)] N [OF A(4)] N [OF A(5)]
  define t0 t1 t2 t3 t4 :: u128 where t:
    "t0 = ucast a0 * ucast b0 + ucast (19 * a4) * ucast b1 + ucast (19 * a3) * ucast b2 + ucast (19 * a2) * ucast b3 + ucast (19 * a1) * ucast b4"
    "t1 = ucast a1 * ucast b0 + ucast a0 * ucast b1 + ucast (19 * a4) * ucast b2 + ucast (19 * a3) * ucast b3 + ucast (19 * a2) * ucast b4"
    "t2 = ucast a2 * ucast b0 + ucast a1 * ucast b1 + ucast a0 * ucast b2 + ucast (19 * a4) * ucast b3 + ucast (19 * a3) * ucast b4"
    "t3 = ucast a3 * ucast b0 + ucast a2 * ucast b1 + ucast a1 * ucast b2 + ucast a0 * ucast b3 + ucast (19 * a4) * ucast b4"
    "t4 = ucast a4 * ucast b0 + ucast a3 * ucast b1 + ucast a2 * ucast b2 + ucast a1 * ucast b3 + ucast a0 * ucast b4"
  have eq: "fmul_mul_shift_reduce' (Wide 0 0 0 0 0) a b = Wide t0 t1 t2 t3 t4"
    unfolding ab t by (simp add: Let_def)
  have u0: "uint t0 = uint a0 * uint b0 + 19 * uint a4 * uint b1 + 19 * uint a3 * uint b2 + 19 * uint a2 * uint b3 + 19 * uint a1 * uint b4" "uint t0 < two120"
    using uint_dot5 [where a = "19 * two53" and b = two55 and xa = "a0" and xb = "19 * a4" and xc = "19 * a3" and xd = "19 * a2" and xe = "19 * a1" and ya = b0 and yb = b1 and yc = b2 and yd = b3 and ye = b4] A B N unfolding t(1) by simp_all
  have u1: "uint t1 = uint a1 * uint b0 + uint a0 * uint b1 + 19 * uint a4 * uint b2 + 19 * uint a3 * uint b3 + 19 * uint a2 * uint b4" "uint t1 < two120"
    using uint_dot5 [where a = "19 * two53" and b = two55 and xa = "a1" and xb = "a0" and xc = "19 * a4" and xd = "19 * a3" and xe = "19 * a2" and ya = b0 and yb = b1 and yc = b2 and yd = b3 and ye = b4] A B N unfolding t(2) by simp_all
  have u2: "uint t2 = uint a2 * uint b0 + uint a1 * uint b1 + uint a0 * uint b2 + 19 * uint a4 * uint b3 + 19 * uint a3 * uint b4" "uint t2 < two120"
    using uint_dot5 [where a = "19 * two53" and b = two55 and xa = "a2" and xb = "a1" and xc = "a0" and xd = "19 * a4" and xe = "19 * a3" and ya = b0 and yb = b1 and yc = b2 and yd = b3 and ye = b4] A B N unfolding t(3) by simp_all
  have u3: "uint t3 = uint a3 * uint b0 + uint a2 * uint b1 + uint a1 * uint b2 + uint a0 * uint b3 + 19 * uint a4 * uint b4" "uint t3 < two120"
    using uint_dot5 [where a = "19 * two53" and b = two55 and xa = "a3" and xb = "a2" and xc = "a1" and xd = "a0" and xe = "19 * a4" and ya = b0 and yb = b1 and yc = b2 and yd = b3 and ye = b4] A B N unfolding t(4) by simp_all
  have u4: "uint t4 = uint a4 * uint b0 + uint a3 * uint b1 + uint a2 * uint b2 + uint a1 * uint b3 + uint a0 * uint b4" "uint t4 < 51 * two105"
    using uint_dot5 [where a = two53 and b = two55 and xa = a4 and xb = a3 and xc = a2 and xd = a1 and xe = a0 and ya = b0 and yb = b1 and yc = b2 and yd = b3 and ye = b4] A B unfolding t(5) by simp_all
  show "wide_ok (fmul_mul_shift_reduce' (Wide 0 0 0 0 0) a b)"
    unfolding eq using u0 u1 u2 u3 u4 by simp
  show "wval (fmul_mul_shift_reduce' (Wide 0 0 0 0 0) a b) mod p25519 = fval a * fval b mod p25519"
    unfolding eq unfolding wval.simps u0(1) u1(1) u2(1) u3(1) u4(1) ab fval.simps school_product by (rule p25519_mod [symmetric]) (rule refl)
qed

lemma uint_dot3:
  fixes xa xb xc ya yb yc :: u64
  assumes "uint xa \<le> a" "uint xb \<le> a" "uint xc \<le> a" and "uint ya \<le> b" "uint yb \<le> b" "uint yc \<le> b" and "3 * (a * b) < two128"
  shows "uint (ucast xa * ucast ya + ucast xb * ucast yb + ucast xc * ucast yc :: u128) = uint xa * uint ya + uint xb * uint yb + uint xc * uint yc"
    and "uint (ucast xa * ucast ya + ucast xb * ucast yb + ucast xc * ucast yc :: u128) \<le> 3 * (a * b)"
proof -
  note p = uint_prod_le [OF assms(1,4)] uint_prod_le [OF assms(2,5)] uint_prod_le [OF assms(3,6)]
  show s: "uint (ucast xa * ucast ya + ucast xb * ucast yb + ucast xc * ucast yc :: u128) = uint xa * uint ya + uint xb * uint yb + uint xc * uint yc"
    using p assms(7) by (subst uint_sum3 [of _ "a * b"]) simp_all
  show "uint (ucast xa * ucast ya + ucast xb * ucast yb + ucast xc * ucast yc :: u128) \<le> 3 * (a * b)"
    unfolding s using p by linarith
qed

text \<open>The largest limbs that are squared: those of a difference of two reduced elements.\<close>

abbreviation square_bound :: int where "square_bound \<equiv> 0x48000000004000"

lemma fsquare_wide:
  assumes "limbs_below square_bound a"
  shows "wide_ok (fsquare_fsquare'' a)" and "wval (fsquare_fsquare'' a) mod p25519 = fval a * fval a mod p25519"
proof -
  obtain r0 r1 r2 r3 r4 where a: "a = Felem r0 r1 r2 r3 r4"
    by (cases a)
  have A: "uint r0 \<le> square_bound" "uint r1 \<le> square_bound" "uint r2 \<le> square_bound" "uint r3 \<le> square_bound" "uint r4 \<le> square_bound"
    using assms unfolding a by simp_all
  have M: "uint (x * 2) = 2 * uint x" "uint (x * 2 * 19) = 38 * uint x" "uint (x * 19) = 19 * uint x" "uint (x * 19 * 2) = 38 * uint x"
    if "uint x \<le> square_bound" for x :: u64
  proof -
    show 1: "uint (x * 2) = 2 * uint x" "uint (x * 19) = 19 * uint x"
      using that uint_times [of 2 square_bound x] uint_times [of 19 square_bound x] by simp_all
    show "uint (x * 2 * 19) = 38 * uint x" "uint (x * 19 * 2) = 38 * uint x"
      using that 1 uint_times [of 19 "2 * square_bound" "x * 2"] uint_times [of 2 "19 * square_bound" "x * 19"] by simp_all
  qed
  note M = M [OF A(1)] M [OF A(2)] M [OF A(3)] M [OF A(4)] M [OF A(5)]
  define s0 s1 s2 s3 s4 :: u128 where s:
    "s0 = ucast r0 * ucast r0 + ucast (r4 * 19 * 2) * ucast r1 + ucast (r2 * 2 * 19) * ucast r3"
    "s1 = ucast (r0 * 2) * ucast r1 + ucast (r4 * 19 * 2) * ucast r2 + ucast (r3 * 19) * ucast r3"
    "s2 = ucast (r0 * 2) * ucast r2 + ucast r1 * ucast r1 + ucast (r4 * 19 * 2) * ucast r3"
    "s3 = ucast (r0 * 2) * ucast r3 + ucast (r1 * 2) * ucast r2 + ucast r4 * ucast (r4 * 19)"
    "s4 = ucast (r0 * 2) * ucast r4 + ucast (r1 * 2) * ucast r3 + ucast r2 * ucast r2"
  have eq: "fsquare_fsquare'' a = Wide s0 s1 s2 s3 s4"
    unfolding a s by (simp add: Let_def)
  have u0: "uint s0 = uint r0 * uint r0 + 38 * uint r4 * uint r1 + 38 * uint r2 * uint r3" "uint s0 < two120"
    using uint_dot3 [where a = "38 * square_bound" and b = "19 * square_bound" and xa = "r0" and ya = "r0" and xb = "r4 * 19 * 2" and yb = "r1" and xc = "r2 * 2 * 19" and yc = "r3"] A M unfolding s(1) by simp_all
  have u1: "uint s1 = 2 * uint r0 * uint r1 + 38 * uint r4 * uint r2 + 19 * uint r3 * uint r3" "uint s1 < two120"
    using uint_dot3 [where a = "38 * square_bound" and b = "19 * square_bound" and xa = "r0 * 2" and ya = "r1" and xb = "r4 * 19 * 2" and yb = "r2" and xc = "r3 * 19" and yc = "r3"] A M unfolding s(2) by simp_all
  have u2: "uint s2 = 2 * uint r0 * uint r2 + uint r1 * uint r1 + 38 * uint r4 * uint r3" "uint s2 < two120"
    using uint_dot3 [where a = "38 * square_bound" and b = "19 * square_bound" and xa = "r0 * 2" and ya = "r2" and xb = "r1" and yb = "r1" and xc = "r4 * 19 * 2" and yc = "r3"] A M unfolding s(3) by simp_all
  have u3: "uint s3 = 2 * uint r0 * uint r3 + 2 * uint r1 * uint r2 + uint r4 * (19 * uint r4)" "uint s3 < two120"
    using uint_dot3 [where a = "38 * square_bound" and b = "19 * square_bound" and xa = "r0 * 2" and ya = "r3" and xb = "r1 * 2" and yb = "r2" and xc = "r4" and yc = "r4 * 19"] A M unfolding s(4) by simp_all
  have u4: "uint s4 = 2 * uint r0 * uint r4 + 2 * uint r1 * uint r3 + uint r2 * uint r2"
    using uint_dot3 [where a = "38 * square_bound" and b = "19 * square_bound" and xa = "r0 * 2" and ya = "r4" and xb = "r1 * 2" and yb = "r3" and xc = "r2" and yc = "r2"] A M unfolding s(5) by simp
  have "uint s4 < 51 * two105"
    using uint_prod_le [OF A(1) A(5)] uint_prod_le [OF A(2) A(4)] uint_prod_le [OF A(3) A(3)] unfolding u4 by simp
  then show "wide_ok (fsquare_fsquare'' a)"
    unfolding eq using u0 u1 u2 u3 by simp
  have c: "wval (Wide s0 s1 s2 s3 s4) + p25519 * fold0 (uint r0) (uint r1) (uint r2) (uint r3) (uint r4) (uint r0) (uint r1) (uint r2) (uint r3) (uint r4) =
      fval a * fval a"
    unfolding wval.simps u0(1) u1(1) u2(1) u3(1) u4(1) a fval.simps school_product by (simp add: algebra_simps)
  show "wval (fsquare_fsquare'' a) mod p25519 = fval a * fval a mod p25519"
    unfolding eq by (rule p25519_mod [OF c [symmetric], symmetric])
qed

subsection \<open>Field operations\<close>

lemma fmul_fe:
  assumes "limbs_below two53 a" and "limbs_below two55 b"
  shows "fe (fmul_fmul a b) = fe a * fe b mod p25519" and "reduced (fmul_fmul a b)"
  using reduce_carry [OF fmul_wide(1) [OF assms]] fmul_wide(2) [OF assms]
  by (simp_all add: fmul_fmul_def Let_def fe_def mod_mult_eq)

lemma fsquare_fe:
  assumes "limbs_below square_bound a"
  shows "fe (fsquare_fsquare' a) = fe a * fe a mod p25519" and "reduced (fsquare_fsquare' a)"
  using reduce_carry [OF fsquare_wide(1) [OF assms]] fsquare_wide(2) [OF assms]
  by (simp_all add: fsquare_fsquare'_def Let_def fe_def mod_mult_eq)

lemma reduced_below: "reduced a \<Longrightarrow> limbs_below square_bound a" "reduced a \<Longrightarrow> limbs_below two53 a" "reduced a \<Longrightarrow> limbs_below two55 a"
  by (erule limbs_below_mono, simp)+

lemma fsquares_fe:
  assumes "limbs_below square_bound a"
  shows "fe ((fsquare_fsquare' ^^ n) (fsquare_fsquare' a)) = fe a ^ (2 ^ Suc n) mod p25519 \<and> reduced ((fsquare_fsquare' ^^ n) (fsquare_fsquare' a))"
proof (induction n)
  case 0
  then show ?case using fsquare_fe [OF assms] by (simp add: power2_eq_square)
next
  case (Suc n)
  let ?b = "(fsquare_fsquare' ^^ n) (fsquare_fsquare' a)"
  have "fe (fsquare_fsquare' ?b) = fe ?b * fe ?b mod p25519" "reduced (fsquare_fsquare' ?b)"
    using fsquare_fe [OF reduced_below(1)] Suc by blast+
  moreover have "fe a ^ 2 ^ Suc n * fe a ^ 2 ^ Suc n = fe a ^ 2 ^ Suc (Suc n)"
    by (simp add: power_add [symmetric] mult_2)
  ultimately show ?case
    using Suc by (simp add: mod_mult_eq)
qed

lemma fsquare_times_fe:
  assumes "limbs_below square_bound a" and "0 < n"
  shows "fe (fsquare_fsquare_times a n) = fe a ^ (2 ^ n) mod p25519" and "reduced (fsquare_fsquare_times a n)"
  using fsquares_fe [OF assms(1), of "n - 1"] assms(2) by (simp_all add: fsquare_fsquare_times_def fsquare_fsquare_times'_def)

lemma fsum_fe:
  assumes "limbs_below two52 a" and "limbs_below two52 b"
  shows "fe (fsum a b) = (fe a + fe b) mod p25519" and "limbs_below two53 (fsum a b)"
proof -
  obtain a0 a1 a2 a3 a4 b0 b1 b2 b3 b4 where ab: "a = Felem a0 a1 a2 a3 a4" "b = Felem b0 b1 b2 b3 b4"
    by (cases a, cases b)
  have u: "uint (x + y) = uint x + uint y" if "uint x < two52" "uint y < two52" for x y :: u64
    using that by (intro uint_add_small) simp
  have "fval (fsum a b) = fval a + fval b" "limbs_below two53 (fsum a b)"
    using assms u [of a0 b0] u [of a1 b1] u [of a2 b2] u [of a3 b3] u [of a4 b4] unfolding ab by simp_all
  then show "fe (fsum a b) = (fe a + fe b) mod p25519" "limbs_below two53 (fsum a b)"
    by (simp_all add: fe_def mod_add_eq)
qed

lemma fdifference_fe:
  assumes "reduced a" and "reduced b"
  shows "fe (fdifference a b) = (fe b - fe a) mod p25519" and "limbs_below square_bound (fdifference a b)"
proof -
  obtain a0 a1 a2 a3 a4 b0 b1 b2 b3 b4 where ab: "a = Felem a0 a1 a2 a3 a4" "b = Felem b0 b1 b2 b3 b4"
    by (cases a, cases b)
  have u: "uint (y + c - x) = uint y + uint c - uint x" "uint (y + c - x) < two51 + two13 + uint c"
    if "uint x < two51 + two13" "uint y < two51 + two13" "two51 + two13 \<le> uint c" "uint c < two54" for x y c :: u64
  proof -
    have "uint (y + c) = uint y + uint c"
      using that by (intro uint_add_small) simp
    moreover have "uint x \<le> uint y + uint c"
      using that uint_range(1) [of y] by linarith
    ultimately show "uint (y + c - x) = uint y + uint c - uint x"
      by (simp add: uint_sub_small)
    then show "uint (y + c - x) < two51 + two13 + uint c"
      using that uint_range(1) [of x] by linarith
  qed
  have "fval (fdifference a b) = fval b - fval a + p25519 * 8" "limbs_below square_bound (fdifference a b)"
    using assms u [of a0 b0 "0x3fffffffffff68"] u [of a1 b1 "0x3ffffffffffff8"] u [of a2 b2 "0x3ffffffffffff8"]
      u [of a3 b3 "0x3ffffffffffff8"] u [of a4 b4 "0x3ffffffffffff8"] unfolding ab p25519_numeral by simp_all
  then show "fe (fdifference a b) = (fe b - fe a) mod p25519" "limbs_below square_bound (fdifference a b)"
    unfolding fe_def mod_diff_eq by (simp_all add: p25519_mod [where k = 8])
qed

lemma fscalar_fe:
  assumes "limbs_below two55 b"
  shows "fe (fscalar b 121665) = fe b * 121665 mod p25519" and "limbs_below two52 (fscalar b 121665)"
proof -
  obtain b0 b1 b2 b3 b4 where b: "b = Felem b0 b1 b2 b3 b4"
    by (cases b)
  define t where "t = Wide (ucast b0 * ucast (121665 :: u64)) (ucast b1 * ucast (121665 :: u64)) (ucast b2 * ucast (121665 :: u64))
    (ucast b3 * ucast (121665 :: u64)) (ucast b4 * ucast (121665 :: u64))"
  have ok: "wide_ok t" "wide_top t < two72" "wval t = fval b * 121665"
    using assms unfolding t_def b wide_ok.simps wide_top.simps wval.simps fval.simps uint_mult_wide by simp_all
  obtain r0 r1 r2 r3 r4 where r: "fproduct_copy_from_wide' (wide_carry_top (fproduct_carry_wide' t)) = Felem r0 r1 r2 r3 r4"
    by (cases "fproduct_copy_from_wide' (wide_carry_top (fproduct_carry_wide' t))")
  have f: "fscalar b 121665 = Felem r0 r1 r2 r3 r4"
    using r unfolding b t_def by (simp add: Let_def)
  show "fe (fscalar b 121665) = fe b * 121665 mod p25519" "limbs_below two52 (fscalar b 121665)"
    using reduce_copy [OF ok(1) r] ok(2,3) unfolding f by (simp_all add: fe_def mod_mult_left_eq)
qed

subsection \<open>Inversion\<close>

definition power_of :: "felem \<Rightarrow> nat \<Rightarrow> felem \<Rightarrow> bool" where
  "power_of z e a \<longleftrightarrow> reduced a \<and> fe a = fe z ^ e mod p25519"

lemma power_of_self: "reduced z \<Longrightarrow> power_of z 1 z"
  by (simp add: power_of_def fe_def)

lemma power_of_mult:
  assumes "power_of z e a" and "power_of z f b"
  shows "power_of z (e + f) (fmul_fmul a b)"
  using assms fmul_fe [OF reduced_below(2,3), of a b] by (simp add: power_of_def power_add mod_mult_eq)

lemma power_of_square:
  assumes "power_of z e a" and "0 < n"
  shows "power_of z (e * 2 ^ n) (fsquare_fsquare_times a n)"
  using assms fsquare_times_fe [OF reduced_below(1), of a n] by (simp add: power_of_def power_mult power_mod)

text \<open>The chain of squares and products raises to $2^{255} - 21$, the prime less two.\<close>

lemma crecip_fe:
  assumes "reduced z"
  shows "fe (crecip z) = fe z ^ nat (p25519 - 2) mod p25519" and "reduced (crecip z)"
proof -
  note s = power_of_square [of z] and m = power_of_mult [of z] and z = power_of_self [OF assms]
  let ?S = fsquare_fsquare_times and ?M = fmul_fmul
  define a where "a = ?S z 1"
  define b where "b = ?M (?S a 2) z"
  define a' where "a' = ?M b a"
  define b5 where "b5 = ?M (?S a' 1) b"
  define b10 where "b10 = ?M (?S b5 5) b5"
  define b20 where "b20 = ?M (?S b10 10) b10"
  define b40 where "b40 = ?M (?S b20 20) b20"
  define b50 where "b50 = ?M (?S b40 10) b10"
  define b100 where "b100 = ?M (?S b50 50) b50"
  define b200 where "b200 = ?M (?S b100 100) b100"
  define b250 where "b250 = ?M (?S b200 50) b50"
  have eq: "crecip z = ?M (?S b250 5) a'"
    unfolding crecip_def crecip_crecip_def fsquare_fsquare_times_inplace_def Let_def a_def b_def a'_def b5_def b10_def b20_def b40_def
      b50_def b100_def b200_def b250_def fsquare_fsquare_times_def ..
  have a: "power_of z 2 a"
    unfolding a_def using s [OF z, of 1] by simp
  have b: "power_of z 9 b"
    unfolding b_def using m [OF s [OF a, of 2] z] by simp
  have a': "power_of z 11 a'"
    unfolding a'_def using m [OF b a] by simp
  have "power_of z 31 b5"
    unfolding b5_def using m [OF s [OF a', of 1] b] by simp
  then have 10: "power_of z (2 ^ 10 - 1) b10"
    unfolding b10_def using m [OF s [of 31 b5 5], of 31 b5] by simp
  then have "power_of z (2 ^ 20 - 1) b20"
    unfolding b20_def using m [OF s [of "2 ^ 10 - 1" b10 10] 10] by simp
  then have "power_of z (2 ^ 40 - 1) b40"
    unfolding b40_def using m [OF s [of "2 ^ 20 - 1" b20 20], of "2 ^ 20 - 1" b20] by simp
  then have 50: "power_of z (2 ^ 50 - 1) b50"
    unfolding b50_def using m [OF s [of "2 ^ 40 - 1" b40 10] 10] by simp
  then have "power_of z (2 ^ 100 - 1) b100"
    unfolding b100_def using m [OF s [of "2 ^ 50 - 1" b50 50] 50] by simp
  then have "power_of z (2 ^ 200 - 1) b200"
    unfolding b200_def using m [OF s [of "2 ^ 100 - 1" b100 100], of "2 ^ 100 - 1" b100] by simp
  then have "power_of z (2 ^ 250 - 1) b250"
    unfolding b250_def using m [OF s [of "2 ^ 200 - 1" b200 50] 50] by simp
  then have "power_of z (nat (p25519 - 2)) (crecip z)"
    unfolding eq p25519_numeral using m [OF s [of "2 ^ 250 - 1" b250 5] a'] by simp
  then show "fe (crecip z) = fe z ^ nat (p25519 - 2) mod p25519" "reduced (crecip z)"
    by (simp_all add: power_of_def)
qed

end
