(* ===== verification/Curve25519_Ladder.thy ===== *)
theory Curve25519_Ladder
  imports Curve25519_Field
begin

unbundle bit_operations_syntax

text \<open>
  The ladder of \<^verbatim>\<open>Curve25519\<close> and the formats of its arguments and of its result: a step is the step of RFC 7748 on
  residues, the loops run over the bits of the scalar from the highest one, and the bytes written are those of the canonical residue.
\<close>

subsection \<open>The step of the ladder\<close>

text \<open>The step of RFC 7748, section 5, on residues: \<open>x1\<close> is the coordinate of the base point.\<close>

definition ladder_step :: "int \<Rightarrow> (int \<times> int) \<times> (int \<times> int) \<Rightarrow> (int \<times> int) \<times> (int \<times> int)" where
  "ladder_step x1 s =
     (let ((x2, z2), (x3, z3)) = s;
          A = x2 + z2; AA = A ^ 2; B = x2 - z2; BB = B ^ 2; E = AA - BB;
          C = x3 + z3; D = x3 - z3; DA = D * A; CB = C * B
      in ((AA * BB mod p25519, E * (AA + 121665 * E) mod p25519),
          ((DA + CB) ^ 2 mod p25519, x1 * (DA - CB) ^ 2 mod p25519)))"

definition cswap :: "bool \<Rightarrow> 'a \<times> 'a \<Rightarrow> 'a \<times> 'a" where
  "cswap b s = (if b then (snd s, fst s) else s)"

fun reduced_point :: "point \<Rightarrow> bool" where
  "reduced_point (x, z) \<longleftrightarrow> reduced x \<and> reduced z"

fun pt :: "point \<Rightarrow> int \<times> int" where
  "pt (x, z) = (fe x, fe z)"

lemma addanddouble_fe:
  assumes "reduced_point p" and "reduced_point pq" and "reduced (fst q)"
    and eq: "addanddouble_fmonty p pq q = (pp, ppq, p', pq')"
  shows "reduced_point pp \<and> reduced_point ppq \<and> (pt pp, pt ppq) = ladder_step (fe (fst q)) (pt p, pt pq)"
proof -
  obtain x z x' z' where p: "p = (x, z)" "pq = (x', z')"
    by (cases p, cases pq)
  define A where "A = fsum x z"
  define B where "B = fdifference z x"
  define C where "C = fsum x' z'"
  define D where "D = fdifference z' x'"
  define CB where "CB = fmul_fmul C B"
  define DA where "DA = fmul_fmul A D"
  define S where "S = fsum CB DA"
  define T where "T = fdifference DA CB"
  define x3 where "x3 = fsquare_fsquare_times S 1"
  define TT where "TT = fsquare_fsquare_times T 1"
  define z3 where "z3 = fmul_fmul TT (fst q)"
  define AA where "AA = fsquare_fsquare_times A 1"
  define BB where "BB = fsquare_fsquare_times B 1"
  define x2 where "x2 = fmul_fmul AA BB"
  define E where "E = fdifference BB AA"
  define G where "G = fscalar E 121665"
  define H where "H = fsum G AA"
  define z2 where "z2 = fmul_fmul H E"
  have r: "pp = (x2, z2)" "ppq = (x3, z3)"
    using eq unfolding p addanddouble_fmonty_def fmul_def Let_def prod.case z2_def H_def G_def E_def x2_def BB_def AA_def z3_def TT_def x3_def
      T_def S_def DA_def CB_def D_def C_def B_def A_def by simp_all
  have i: "reduced x" "reduced z" "reduced x'" "reduced z'"
    using assms(1,2) unfolding p by simp_all
  have b: "limbs_below two52 a" if "reduced a" for a
    using that by (rule limbs_below_mono) simp
  have sq: "limbs_below square_bound a" if "limbs_below two53 a" for a
    using that by (rule limbs_below_mono) simp
  have l: "limbs_below two55 a" if "limbs_below square_bound a" for a
    using that by (rule limbs_below_mono) simp
  note A = fsum_fe [OF b [OF i(1)] b [OF i(2)], folded A_def] and B = fdifference_fe [OF i(2) i(1), folded B_def]
    and C = fsum_fe [OF b [OF i(3)] b [OF i(4)], folded C_def] and D = fdifference_fe [OF i(4) i(3), folded D_def]
  note CB = fmul_fe [OF C(2) l [OF B(2)], folded CB_def] and DA = fmul_fe [OF A(2) l [OF D(2)], folded DA_def]
  note S = fsum_fe [OF b [OF CB(2)] b [OF DA(2)], folded S_def] and T = fdifference_fe [OF DA(2) CB(2), folded T_def]
  note x3 = fsquare_times_fe [OF sq [OF S(2)], of 1, folded x3_def, simplified]
    and TT = fsquare_times_fe [OF T(2), of 1, folded TT_def, simplified]
  note z3 = fmul_fe [OF reduced_below(2) [OF TT(2)] reduced_below(3) [OF assms(3)], folded z3_def]
  note AA = fsquare_times_fe [OF sq [OF A(2)], of 1, folded AA_def, simplified]
    and BB = fsquare_times_fe [OF B(2), of 1, folded BB_def, simplified]
  note x2 = fmul_fe [OF reduced_below(2) [OF AA(2)] reduced_below(3) [OF BB(2)], folded x2_def]
    and E = fdifference_fe [OF BB(2) AA(2), folded E_def]
  note G = fscalar_fe [OF l [OF E(2)], folded G_def]
  note H = fsum_fe [OF G(2) b [OF AA(2)], folded H_def]
  note z2 = fmul_fe [OF H(2) l [OF E(2)], folded z2_def]
  have "pt pp = fst (ladder_step (fe (fst q)) (pt p, pt pq))"
    unfolding r p ladder_step_def pt.simps Let_def prod.case fst_conv x2(1) z2(1) H(1) G(1) E(1) AA(1) BB(1) A(1) B(1)
    by (simp add: mod_simps power2_eq_square; simp add: algebra_simps)
  moreover have "pt ppq = snd (ladder_step (fe (fst q)) (pt p, pt pq))"
    unfolding r p ladder_step_def pt.simps Let_def prod.case snd_conv x3(1) z3(1) TT(1) S(1) T(1) CB(1) DA(1) A(1) B(1) C(1) D(1)
    by (simp add: mod_simps power2_eq_square; simp add: algebra_simps)
  ultimately show ?thesis
    using x2(2) z2(2) x3(2) z3(2) unfolding r by simp
qed

subsection \<open>The loops of the ladder\<close>

lemma swap_step: "point_swap_conditional_step a b (- of_bool c) = cswap c (a, b)"
proof -
  have "b XOR (a XOR b) = a" "a XOR (a XOR b) = b"
    by (rule bit_word_eqI; auto simp: bit_simps)+
  then show ?thesis
    by (cases c) (simp_all add: point_swap_conditional_step_def cswap_def)
qed

lemma swap_point: "point_swap_conditional a b (of_bool c) = cswap c (a, b)"
proof -
  have "point_swap_conditional5 x y (- of_bool c) = cswap c (x, y)" for x y
    by (cases x; cases y; cases c) (simp_all only: point_swap_conditional5.simps swap_step, simp_all add: cswap_def)
  then show ?thesis
    by (cases a; cases b; cases c) (simp_all add: point_swap_conditional_def cswap_def)
qed

lemma top_bit: "ucast (drop_bit 7 w) = (of_bool (bit w 7) :: u64)" for w :: u8
proof (rule bit_word_eqI)
  fix n
  have "bit w (7 + n) \<Longrightarrow> n = 0"
    using bit_imp_le_length [of w "7 + n"] by simp
  then show "bit (ucast (drop_bit 7 w) :: u64) n \<longleftrightarrow> bit (of_bool (bit w 7) :: u64) n"
    by (auto simp: bit_simps)
qed

definition ladder_bit :: "int \<Rightarrow> bool \<Rightarrow> (int \<times> int) \<times> (int \<times> int) \<Rightarrow> (int \<times> int) \<times> (int \<times> int)" where
  "ladder_bit x1 b s = cswap b (ladder_step x1 (cswap b s))"

fun ladder_ok :: "ladder \<Rightarrow> (int \<times> int) \<times> (int \<times> int) \<Rightarrow> bool" where
  "ladder_ok (nq, nqpq, nq2, nqpq2) s \<longleftrightarrow> reduced_point nq \<and> reduced_point nqpq \<and> s = (pt nq, pt nqpq)"

lemma small_step:
  assumes "ladder_ok (nq, nqpq, a, b) s" and "reduced (fst q)"
    and "ladder_smallloop_cmult_small_loop_step (nq, nqpq, a, b) q byt = (c, d, nq2, nqpq2)"
  shows "ladder_ok (nq2, nqpq2, c, d) (ladder_bit (fe (fst q)) (bit byt 7) s)"
proof -
  obtain m mm where m: "cswap (bit byt 7) (nq, nqpq) = (m, mm)"
    by (cases "cswap (bit byt 7) (nq, nqpq)")
  obtain pp ppq p' pq' where a: "addanddouble_fmonty m mm q = (pp, ppq, p', pq')"
    by (metis prod_cases4)
  have r: "reduced_point m" "reduced_point mm" "(pt m, pt mm) = cswap (bit byt 7) s"
    using assms(1) m by (auto simp: cswap_def split: if_splits)
  have "(nq2, nqpq2) = cswap (bit byt 7) (pp, ppq)"
    using assms(3) unfolding ladder_smallloop_cmult_small_loop_step_def top_bit
    by (simp add: swap_point m a Let_def split: prod.splits)
  moreover have "reduced_point pp" "reduced_point ppq" "ladder_step (fe (fst q)) (cswap (bit byt 7) s) = (pt pp, pt ppq)"
    using addanddouble_fe [OF r(1,2) assms(2) a] r(3) by simp_all
  ultimately show ?thesis
    by (auto simp: ladder_bit_def cswap_def split: if_splits)
qed

lemma double_step:
  assumes "ladder_ok l s" and "reduced (fst q)"
  shows "ladder_ok (ladder_smallloop_cmult_small_loop_double_step l q byt)
    (ladder_bit (fe (fst q)) (bit byt 6) (ladder_bit (fe (fst q)) (bit byt 7) s))"
proof -
  obtain nq nqpq a b where l: "l = (nq, nqpq, a, b)"
    by (cases l)
  obtain c d e f where 1: "ladder_smallloop_cmult_small_loop_step (nq, nqpq, a, b) q byt = (c, d, e, f)"
    by (metis prod_cases4)
  obtain g h i j where 2: "ladder_smallloop_cmult_small_loop_step (e, f, c, d) q (push_bit 1 byt) = (g, h, i, j)"
    by (metis prod_cases4)
  have "bit (push_bit 1 byt) 7 \<longleftrightarrow> bit byt 6"
    by (subst bit_push_bit_iff) simp
  then have "ladder_ok (i, j, g, h) (ladder_bit (fe (fst q)) (bit byt 6) (ladder_bit (fe (fst q)) (bit byt 7) s))"
    using small_step [OF small_step [OF assms [unfolded l] 1] assms(2) 2] by simp
  then show ?thesis
    using 1 2 by (simp add: ladder_smallloop_cmult_small_loop_double_step_def l)
qed

lemma small_loop:
  assumes "ladder_ok l s" and "reduced (fst q)" and "i \<le> 4"
  shows "ladder_ok (ladder_smallloop_cmult_small_loop l q byt i) (fold (ladder_bit (fe (fst q))) (map (bit byt) (rev [8 - 2 * i..<8])) s)"
  using assms(1,3)
proof (induction i arbitrary: l byt s)
  case (Suc i)
  have "map (bit (push_bit 2 byt)) (rev [8 - 2 * i..<8]) = map (bit byt) (rev [6 - 2 * i..<6])"
  proof -
    have u: "[8 - 2 * i..<8] = map (\<lambda>k. k + 2) [6 - 2 * i..<6]"
      using Suc.prems(2) by (intro nth_equalityI) simp_all
    show ?thesis
      unfolding u by (simp add: rev_map bit_push_bit_iff)
  qed
  moreover have "rev [8 - 2 * Suc i..<8] = 7 # 6 # rev [6 - 2 * i..<6]"
    using Suc.prems(2) by (simp add: numeral_eq_Suc)
  ultimately show ?case
    using Suc.IH [OF double_step [OF Suc.prems(1) assms(2), of byt], of "push_bit 2 byt"] Suc.prems(2)
    by (simp add: comp_def)
qed simp

subsection \<open>The bits of a scalar\<close>

lemma le_value_bits: "le_value (b # bs) = concat_bit 8 (uint b) (le_value bs)"
  using uint_range(2) [of b] by (simp add: concat_bit_eq take_bit_int_eq_self push_bit_eq_mult)

lemma bit_le_value: "i < length bs \<Longrightarrow> j < 8 \<Longrightarrow> bit (le_value bs) (8 * i + j) \<longleftrightarrow> bit (bs ! i) j"
proof (induction bs arbitrary: i)
  case (Cons b bs)
  then show ?case
    by (cases i) (simp_all only: le_value_bits bit_concat_bit_iff, simp_all add: bit_uint_iff)
qed simp

lemma byte_bits:
  assumes "i \<le> length n1"
  shows "concat (map (\<lambda>k. map (bit (n1 ! k)) (rev [0..<8])) (rev [0..<i])) = map (bit (le_value n1)) (rev [0..<8 * i])"
  using assms
proof (induction i)
  case (Suc i)
  have "[8 * i..<8 * Suc i] = map (\<lambda>j. 8 * i + j) [0..<8]"
    by (intro nth_equalityI) simp_all
  moreover have "map (\<lambda>j. bit (le_value n1) (8 * i + j)) [0..<8] = map (bit (n1 ! i)) [0..<8]"
    using bit_le_value [of i n1] Suc.prems by simp
  ultimately have "map (bit (le_value n1)) [8 * i..<8 * Suc i] = map (bit (n1 ! i)) [0..<8]"
    by (simp add: comp_def)
  then have m: "map (bit (le_value n1)) (rev [8 * i..<8 * Suc i]) = map (bit (n1 ! i)) (rev [0..<8])"
    by (metis rev_map)
  have "rev [0..<Suc i] = i # rev [0..<i]"
    by simp
  moreover have "rev [0..<8 * Suc i] = rev [8 * i..<8 * Suc i] @ rev [0..<8 * i]"
    using upt_add_eq_append [of 0 "8 * i" 8] by (simp add: add.commute)
  ultimately show ?case
    using Suc.IH Suc.prems by (simp only: list.map concat.simps map_append m Suc_leD)
qed simp

lemma big_loop:
  assumes "ladder_ok l s" and "reduced (fst q)"
  shows "ladder_ok (ladder_bigloop_cmult_big_loop n1 l q i)
    (fold (ladder_bit (fe (fst q))) (concat (map (\<lambda>k. map (bit (n1 ! k)) (rev [0..<8])) (rev [0..<i]))) s)"
  using assms(1)
proof (induction i arbitrary: l s)
  case (Suc i)
  show ?case
    using Suc.IH [OF small_loop [OF Suc.prems assms(2), of 4 "n1 ! i"]] by simp
qed simp

lemma ladder_cmult_ok:
  assumes "reduced (fst q)" and "snd q = one_felem" and "length n1 = 32"
  shows "reduced_point (ladder_cmult n1 q) \<and>
    pt (ladder_cmult n1 q) = fst (fold (ladder_bit (fe (fst q))) (map (bit (le_value n1)) (rev [0..<256])) ((1, 0), (fe (fst q), 1)))"
proof -
  let ?l = "((one_felem, zero_felem), q, zero_point, zero_point)"
  have "fe one_felem = 1" "fe zero_felem = 0"
    by (simp_all add: fe_def p25519_numeral)
  then have "ladder_ok ?l ((1, 0), (fe (fst q), 1))"
    using assms by (cases q) simp
  from big_loop [OF this assms(1), of n1 32]
  have "ladder_ok (ladder_bigloop_cmult_big_loop n1 ?l q 32) (fold (ladder_bit (fe (fst q))) (map (bit (le_value n1)) (rev [0..<256])) ((1, 0), (fe (fst q), 1)))"
    using byte_bits [of 32 n1] assms(3) by simp
  moreover obtain a b c d where "ladder_bigloop_cmult_big_loop n1 ?l q 32 = (a, b, c, d)"
    by (metis prod_cases4)
  ultimately show ?thesis
    by (auto simp: ladder_cmult_def)
qed

subsection \<open>Bytes\<close>

lemma le_value_nonneg [simp]: "0 \<le> le_value bs"
  by (induction bs) simp_all

lemma le_value_drop: "le_value (drop k bs) = drop_bit (8 * k) (le_value bs)"
proof (induction k arbitrary: bs)
  case (Suc k)
  show ?case
  proof (cases bs)
    case (Cons b cs)
    have "drop_bit 8 (le_value (b # cs)) = le_value cs"
      using uint_range(2) [of b] by (simp add: drop_bit_eq_div)
    then show ?thesis
      using Suc.IH [of cs] drop_bit_drop_bit [of "8 * k" 8 "le_value bs"] by (simp add: Cons add.commute del: drop_bit_drop_bit)
  qed simp
qed simp

lemma le_value_take: "le_value (take k bs) = take_bit (8 * k) (le_value bs)"
proof (induction k arbitrary: bs)
  case (Suc k)
  show ?case
  proof (cases bs)
    case (Cons b cs)
    have "take_bit (8 * Suc k) (concat_bit 8 (uint b) (le_value cs)) = concat_bit 8 (uint b) (take_bit (8 * k) (le_value cs))"
      by (rule bit_eqI) (auto simp: bit_simps)
    then show ?thesis
      using Suc.IH [of cs] by (simp only: Cons take_Suc_Cons le_value_bits)
  qed simp
qed simp

lemma le_value_append: "le_value (xs @ ys) = le_value xs + 256 ^ length xs * le_value ys"
  by (induction xs) (simp_all add: algebra_simps)

lemma uint_get_le64: "uint (get_unaligned_le64 a) = take_bit 64 (le_value a)"
  using le_value_take [of 8 a] by (simp add: get_unaligned_le64_def unsigned_of_int)

lemma le_value_put_le64: "le_value (put_unaligned_le64 s) = uint s"
proof (rule bit_eqI)
  fix n
  show "bit (le_value (put_unaligned_le64 s)) n \<longleftrightarrow> bit (uint s) n"
  proof (cases "n < 64")
    case True
    then have "bit (le_value (put_unaligned_le64 s)) (8 * (n div 8) + n mod 8) \<longleftrightarrow> bit s (8 * (n div 8) + n mod 8)"
      by (subst bit_le_value) (auto simp: put_unaligned_le64_def bit_simps less_mult_imp_div_less)
    then show ?thesis
      using True by (simp add: bit_uint_iff)
  next
    case False
    have t: "le_value (put_unaligned_le64 s) = take_bit 64 (le_value (put_unaligned_le64 s))"
      using le_value_take [of 8 "put_unaligned_le64 s"] by (simp add: put_unaligned_le64_def)
    show ?thesis
      using False by (subst t) (simp add: bit_take_bit_iff bit_uint_iff)
  qed
qed

lemma take_bit_split: "take_bit (m + n) x = take_bit m x + 2 ^ m * take_bit n (drop_bit m x)" for x :: int
  by (simp add: take_bit_eq_mod drop_bit_eq_div power_add zmod_zmult2_eq)

lemma limbs_of_int:
  "take_bit 255 x = take_bit 51 x + two51 * take_bit 51 (drop_bit 51 x) + two102 * take_bit 51 (drop_bit 102 x) +
     two153 * take_bit 51 (drop_bit 153 x) + two204 * take_bit 51 (drop_bit 204 x)" for x :: int
proof -
  have "take_bit 255 x = take_bit 51 x + two51 * take_bit 204 (drop_bit 51 x)"
    "take_bit 204 (drop_bit 51 x) = take_bit 51 (drop_bit 51 x) + two51 * take_bit 153 (drop_bit 102 x)"
    "take_bit 153 (drop_bit 102 x) = take_bit 51 (drop_bit 102 x) + two51 * take_bit 102 (drop_bit 153 x)"
    "take_bit 102 (drop_bit 153 x) = take_bit 51 (drop_bit 153 x) + two51 * take_bit 51 (drop_bit 204 x)"
    using take_bit_split [of 51 204 x] take_bit_split [of 51 153 "drop_bit 51 x"] take_bit_split [of 51 102 "drop_bit 102 x"]
      take_bit_split [of 51 51 "drop_bit 153 x"] by simp_all
  then show ?thesis
    by linarith
qed

lemma expand_limbs:
  assumes "length input = 32"
  shows "limbs_below two51 (format_fexpand input)" and "fval (format_fexpand input) = le_value input mod 2 ^ 255"
proof -
  define N where "N = le_value input"
  have g: "uint (get_unaligned_le64 (drop k input)) = take_bit 64 (drop_bit (8 * k) N)" for k
    by (simp add: uint_get_le64 le_value_drop N_def)
  have l: "uint (drop_bit s (get_unaligned_le64 (drop k input)) AND limb_mask) = take_bit 51 (drop_bit (s + 8 * k) N)"
    if "s \<le> 13" for s k
  proof -
    have "uint (drop_bit s (get_unaligned_le64 (drop k input)) AND limb_mask) = take_bit 51 (drop_bit s (take_bit 64 (drop_bit (8 * k) N)))"
      unfolding uint_and_limb uint_drop_bit g by (simp add: take_bit_eq_mod drop_bit_eq_div)
    also have "\<dots> = take_bit 51 (drop_bit (s + 8 * k) N)"
      using that by (intro bit_eqI) (auto simp: bit_simps ac_simps)
    finally show ?thesis .
  qed
  have e: "format_fexpand input = Felem (drop_bit 0 (get_unaligned_le64 (drop 0 input)) AND limb_mask) (drop_bit 3 (get_unaligned_le64 (drop 6 input)) AND limb_mask)
      (drop_bit 6 (get_unaligned_le64 (drop 12 input)) AND limb_mask) (drop_bit 1 (get_unaligned_le64 (drop 19 input)) AND limb_mask)
      (drop_bit 12 (get_unaligned_le64 (drop 24 input)) AND limb_mask)"
    by (simp add: format_fexpand_def)
  show "limbs_below two51 (format_fexpand input)"
    unfolding e limbs_below.simps uint_and_limb by simp
  have "fval (format_fexpand input) = take_bit 255 N"
    unfolding e fval.simps limbs_of_int using l [of 0 0] l [of 3 6] l [of 6 12] l [of 1 19] l [of 12 24] by simp
  then show "fval (format_fexpand input) = le_value input mod 2 ^ 255"
    by (simp add: N_def take_bit_eq_mod)
qed

subsection \<open>Masks\<close>

lemma top_bit_64: "bit w 63 \<longleftrightarrow> 0x8000000000000000 \<le> uint w" for w :: u64
proof -
  let ?d = "uint w div 0x8000000000000000"
  have m: "uint w = 0x8000000000000000 * ?d + uint w mod 0x8000000000000000" "0 \<le> uint w mod 0x8000000000000000"
    "uint w mod 0x8000000000000000 < 0x8000000000000000" "uint w < 0x10000000000000000"
    using uint_range(2) [of w] by simp_all
  have "bit w 63 \<longleftrightarrow> odd ?d"
    using bit_iff_odd [of "uint w" 63] by (simp add: bit_uint_iff)
  moreover have "?d = 0 \<or> ?d = 1"
    using m uint_range(1) [of w] by linarith
  moreover have "?d = 1 \<longleftrightarrow> 0x8000000000000000 \<le> uint w"
    using m by linarith
  ultimately show ?thesis
    by auto
qed

lemma drop_bit_63: "drop_bit 63 w = of_bool (bit w 63)" for w :: u64
proof (rule bit_word_eqI)
  fix n
  have "bit w (63 + n) \<Longrightarrow> n = 0"
    using bit_imp_le_length [of w "63 + n"] by simp
  then show "bit (drop_bit 63 w) n \<longleftrightarrow> bit (of_bool (bit w 63) :: u64) n"
    by (auto simp: bit_simps)
qed

lemma eq_mask: "u64_eq_mask a b = (if a = b then - 1 else 0)"
proof -
  have "bit x 63 \<or> bit (- x) 63" if "x \<noteq> 0" for x :: u64
  proof -
    have "uint x \<noteq> 0" 
      using that uint_0_iff [of x] by simp
    moreover have "uint (- x) = (- uint x) mod 2 ^ 64"
      by (simp add: uint_word_ariths)
    moreover have "(- uint x) mod 2 ^ 64 = 2 ^ 64 - uint x" if "uint x \<noteq> 0"
      using that uint_range [of x] by (simp add: zmod_zminus1_eq_if)
    ultimately show ?thesis
      unfolding top_bit_64 by (simp; linarith)
  qed
  moreover have "a XOR b = 0 \<longleftrightarrow> a = b"
    by (auto simp: bit_eq_iff bit_xor_iff)
  ultimately show ?thesis
    by (auto simp: u64_eq_mask_def Let_def drop_bit_63 bit_or_iff minus_eq_not_plus_1 [symmetric])
qed

lemma gte_mask:
  assumes "uint a < 0x8000000000000000" and "uint b < 0x8000000000000000"
  shows "u64_gte_mask a b = (if uint b \<le> uint a then - 1 else 0)"
proof -
  have "bit (a - b) 63 \<longleftrightarrow> \<not> uint b \<le> uint a"
  proof (cases "uint b \<le> uint a")
    case True
    then have "uint (a - b) < 0x8000000000000000"
      using assms uint_range(1) [of b] uint_sub_small [of b a] by linarith
    then show ?thesis
      using True unfolding top_bit_64 by linarith
  next
    case False
    then have "uint (a - b) = uint a - uint b + two64"
      by (simp add: uint_sub_if')
    then show ?thesis
      using False assms uint_range(1) [of a] unfolding top_bit_64 by linarith
  qed
  moreover have "\<not> bit a 63" "\<not> bit b 63"
    using assms by (simp_all add: top_bit_64)
  ultimately show ?thesis
    by (simp add: u64_gte_mask_def Let_def drop_bit_63 bit_xor_iff bit_or_iff)
qed

subsection \<open>The canonical representative\<close>

lemma carry_pass:
  assumes "limbs_below two52 a"
    and eq: "format_fcontract_first_carry_pass a = Felem r0 r1 r2 r3 r4"
  shows "fval (Felem r0 r1 r2 r3 r4) = fval a" "uint r0 < two51" "uint r1 < two51" "uint r2 < two51" "uint r3 < two51" "uint r4 < two53"
proof -
  obtain t0 t1 t2 t3 t4 where a: "a = Felem t0 t1 t2 t3 t4"
    by (cases a)
  have b: "uint t0 < two52" "uint t1 < two52" "uint t2 < two52" "uint t3 < two52" "uint t4 < two52"
    using assms(1) unfolding a by simp_all
  have c: "uint (t + drop_bit 51 s) = uint t + uint s div two51" if "uint t < two52" "uint s < two53" for s t :: u64
    using that limb_split [of "uint s"] by (subst uint_add_small) (simp_all add: uint_drop_bit)
  define u1 where "u1 = t1 + drop_bit 51 t0"
  define u2 where "u2 = t2 + drop_bit 51 u1"
  define u3 where "u3 = t3 + drop_bit 51 u2"
  define u4 where "u4 = t4 + drop_bit 51 u3"
  have r: "r0 = t0 AND limb_mask" "r1 = u1 AND limb_mask" "r2 = u2 AND limb_mask" "r3 = u3 AND limb_mask" "r4 = u4"
    using eq unfolding a u1_def u2_def u3_def u4_def by (simp_all add: Let_def)
  note l = limb_split [of "uint t0"] limb_split [of "uint u1"] limb_split [of "uint u2"] limb_split [of "uint u3"]
  have v0: "uint t0 < two53"
    using b by linarith
  note 1 = c [OF b(2) v0, folded u1_def]
  have v1: "uint u1 < two53"
    using 1 b l v0 by linarith
  note 2 = c [OF b(3) v1, folded u2_def]
  have v2: "uint u2 < two53"
    using 2 b l v1 by linarith
  note 3 = c [OF b(4) v2, folded u3_def]
  have v3: "uint u3 < two53"
    using 3 b l v2 by linarith
  note 4 = c [OF b(5) v3, folded u4_def]
  have v4: "uint u4 < two53"
    using 4 b l v3 by linarith
  show "fval (Felem r0 r1 r2 r3 r4) = fval a"
    unfolding a r fval.simps uint_and_limb using l 1 2 3 4 by linarith
  show "uint r0 < two51" "uint r1 < two51" "uint r2 < two51" "uint r3 < two51" "uint r4 < two53"
    unfolding r uint_and_limb using l v4 by linarith+
qed

lemma modulo_carry:
  assumes "uint t0 < two51" "uint t4 < two53" and eq: "modulo_carry_top (Felem t0 t1 t2 t3 t4) = Felem r0 r1 r2 r3 r4"
  shows "fval (Felem t0 t1 t2 t3 t4) = fval (Felem r0 r1 r2 r3 r4) + p25519 * (uint t4 div two51)"
    and "uint r0 = uint t0 + 19 * (uint t4 div two51)" "r1 = t1" "r2 = t2" "r3 = t3" "uint r4 = uint t4 mod two51"
proof -
  have c: "uint t4 div two51 < 4" "0 \<le> uint t4 div two51"
    using assms(2) limb_split [of "uint t4"] uint_range(1) [of t4] by linarith+
  then have "uint (19 * drop_bit 51 t4) = 19 * (uint t4 div two51)"
    by (subst uint_mult_small) (simp_all add: uint_drop_bit)
  then show r: "uint r0 = uint t0 + 19 * (uint t4 div two51)" "r1 = t1" "r2 = t2" "r3 = t3" "uint r4 = uint t4 mod two51"
    using eq assms(1) c by (auto simp: uint_add_small)
  show "fval (Felem t0 t1 t2 t3 t4) = fval (Felem r0 r1 r2 r3 r4) + p25519 * (uint t4 div two51)"
    unfolding fval.simps r p25519_numeral using limb_split [of "uint t4"] by linarith
qed

lemma carry_passes: "format_fcontract_second_carry_pass a = format_fcontract_first_carry_pass a"
  by (cases a) (simp add: Let_def)

lemma first_carry_full:
  assumes "limbs_below two52 a" and eq: "format_fcontract_first_carry_full a = Felem r0 r1 r2 r3 r4"
  shows "fe (Felem r0 r1 r2 r3 r4) = fe a" "uint r0 < two51 + 76" "uint r1 < two51" "uint r2 < two51" "uint r3 < two51" "uint r4 < two51"
proof -
  obtain t0 t1 t2 t3 t4 where t: "format_fcontract_first_carry_pass a = Felem t0 t1 t2 t3 t4"
    by (cases "format_fcontract_first_carry_pass a")
  note c = carry_pass [OF assms(1) t]
  have "modulo_carry_top (Felem t0 t1 t2 t3 t4) = Felem r0 r1 r2 r3 r4"
    using eq unfolding format_fcontract_first_carry_full_def t .
  note m = modulo_carry [OF c(2,6) this]
  show "fe (Felem r0 r1 r2 r3 r4) = fe a"
    unfolding fe_def c(1) [symmetric] m(1) by simp
  show "uint r0 < two51 + 76" "uint r1 < two51" "uint r2 < two51" "uint r3 < two51" "uint r4 < two51"
    using m(2-6) c(2-6) limb_split [of "uint t4"] by simp_all
qed

lemma second_carry_full:
  assumes "uint a0 < two51 + 76" "uint a1 < two51" "uint a2 < two51" "uint a3 < two51" "uint a4 < two51"
  shows "fe (format_fcontract_second_carry_full (Felem a0 a1 a2 a3 a4)) = fe (Felem a0 a1 a2 a3 a4)"
    and "limbs_below two51 (format_fcontract_second_carry_full (Felem a0 a1 a2 a3 a4))"
proof -
  let ?a = "Felem a0 a1 a2 a3 a4"
  have l: "limbs_below two52 ?a"
    using assms by simp
  obtain t0 t1 t2 t3 t4 where t: "format_fcontract_first_carry_pass ?a = Felem t0 t1 t2 t3 t4"
    by (cases "format_fcontract_first_carry_pass ?a")
  note c = carry_pass [OF l t]
  obtain r0 r1 r2 r3 r4 where r: "modulo_carry_top (Felem t0 t1 t2 t3 t4) = Felem r0 r1 r2 r3 r4"
    by (cases "modulo_carry_top (Felem t0 t1 t2 t3 t4)")
  note m = modulo_carry [OF c(2,6) r]
  have v: "uint t0 + two51 * uint t1 + two102 * uint t2 + two153 * uint t3 + two204 * uint t4 =
      uint a0 + two51 * uint a1 + two102 * uint a2 + two153 * uint a3 + two204 * uint a4"
    using c(1) by simp
  have p: "0 \<le> uint t0" "0 \<le> uint t1" "0 \<le> uint t2" "0 \<le> uint t3" "0 \<le> uint t4"
    by simp_all
  have "uint t4 \<le> two51"
    using v p assms by linarith
  then have "uint t4 div two51 = 0 \<or> uint t4 div two51 = 1 \<and> two51 \<le> uint t4"
    using limb_split [of "uint t4"] p by linarith
  then have r0: "uint r0 < two51"
  proof
    assume "uint t4 div two51 = 0"
    then show ?thesis
      using m(2) c(2) by simp
  next
    assume q: "uint t4 div two51 = 1 \<and> two51 \<le> uint t4"
    then have "uint t0 < 76"
      using v p assms by linarith
    then show ?thesis
      using m(2) q by simp
  qed
  then have d: "uint r0 div two51 = 0" "uint r0 mod two51 = uint r0"
    using uint_range(1) [of r0] by simp_all
  have u: "uint (r1 + drop_bit 51 r0) = uint r1"
    using d(1) m(3) c(3) by (subst uint_add_small) (simp_all add: uint_drop_bit)
  have g: "format_fcontract_second_carry_full ?a = Felem (r0 AND limb_mask) (r1 + drop_bit 51 r0) r2 r3 r4"
    unfolding format_fcontract_second_carry_full_def carry_passes t r by simp
  have "fe (Felem (r0 AND limb_mask) (r1 + drop_bit 51 r0) r2 r3 r4) = fe (Felem r0 r1 r2 r3 r4)"
    unfolding fe_def fval.simps u uint_and_limb d ..
  also have "\<dots> = fe ?a"
    unfolding fe_def c(1) [symmetric] m(1) by simp
  finally show "fe (format_fcontract_second_carry_full ?a) = fe ?a"
    unfolding g .
  show "limbs_below two51 (format_fcontract_second_carry_full ?a)"
    unfolding g limbs_below.simps u uint_and_limb d using r0 m(3-6) c(2-6) by simp
qed

lemma trim:
  assumes "limbs_below two51 a"
  shows "limbs_below two51 (format_fcontract_trim a)" and "fval (format_fcontract_trim a) = fe a"
proof -
  obtain a0 a1 a2 a3 a4 where a: "a = Felem a0 a1 a2 a3 a4"
    by (cases a)
  have b: "uint a0 < two51" "uint a1 < two51" "uint a2 < two51" "uint a3 < two51" "uint a4 < two51"
    using assms unfolding a by simp_all
  have p: "0 \<le> uint a0" "0 \<le> uint a1" "0 \<le> uint a2" "0 \<le> uint a3" "0 \<le> uint a4"
    by simp_all
  let ?max = "0x7ffffffffffff :: int"
  define full where "full \<longleftrightarrow> 0x7ffffffffffed \<le> uint a0 \<and> uint a1 = ?max \<and> uint a2 = ?max \<and> uint a3 = ?max \<and> uint a4 = ?max"
  have e: "x = limb_mask \<longleftrightarrow> uint x = ?max" for x :: u64
    using word_uint_eq_iff [of x limb_mask] by simp
  have "u64_gte_mask a0 0x7ffffffffffed = (if 0x7ffffffffffed \<le> uint a0 then - 1 else 0)"
    using b(1) by (subst gte_mask) simp_all
  then have t: "format_fcontract_trim a = (if full
      then Felem (a0 - 0x7ffffffffffed) (a1 - limb_mask) (a2 - limb_mask) (a3 - limb_mask) (a4 - limb_mask) else a)"
    unfolding a format_fcontract_trim.simps eq_mask e full_def by (simp add: Let_def)
  show "limbs_below two51 (format_fcontract_trim a)" "fval (format_fcontract_trim a) = fe a"
  proof (atomize (full), cases full)
    case True
    then have f: "0x7ffffffffffed \<le> uint a0" "uint a1 = ?max" "uint a2 = ?max" "uint a3 = ?max" "uint a4 = ?max"
      unfolding full_def by blast+
    have s: "uint (a0 - 0x7ffffffffffed) = uint a0 - 0x7ffffffffffed"
      using f(1) by (subst uint_sub_small) simp_all
    have z: "a1 = limb_mask" "a2 = limb_mask" "a3 = limb_mask" "a4 = limb_mask"
      using e f(2-5) by blast+
    have "fe a = (uint a0 - 0x7ffffffffffed) mod p25519"
      unfolding fe_def by (rule p25519_mod [where k = 1]) (simp add: a f p25519_numeral)
    also have "\<dots> = uint a0 - 0x7ffffffffffed"
      using f(1) b(1) by (simp add: p25519_numeral)
    finally show "limbs_below two51 (format_fcontract_trim a) \<and> fval (format_fcontract_trim a) = fe a"
      using True b(1) by (simp add: t z s)
  next
    case False
    have "fval a < p25519"
    proof (rule ccontr)
      assume "\<not> fval a < p25519"
      then have "p25519 \<le> fval a" by simp
      then have "uint a4 = ?max" "uint a3 = ?max" "uint a2 = ?max" "uint a1 = ?max" "0x7ffffffffffed \<le> uint a0"
        unfolding a fval.simps p25519_numeral using b by linarith+
      then show False
        using False unfolding full_def by blast
    qed
    moreover have "0 \<le> fval a"
      unfolding a by simp
    ultimately show "limbs_below two51 (format_fcontract_trim a) \<and> fval (format_fcontract_trim a) = fe a"
      using False assms by (simp add: t fe_def)
  qed
qed

lemma or_disjoint:
  fixes a b :: u64
  assumes "uint b < 2 ^ k" and "k \<le> 64"
  shows "uint (push_bit k a OR b) = uint b + 2 ^ k * (uint a mod 2 ^ (64 - k))"
proof -
  have "uint (push_bit k a OR b) = concat_bit k (uint b) (take_bit (64 - k) (uint a))"
  proof (rule bit_eqI)
    fix n
    have "\<not> bit (uint b) n" if "k \<le> n"
      using that assms(1) by (metis bit_take_bit_iff leD take_bit_int_eq_self uint_range(1))
    then show "bit (uint (push_bit k a OR b)) n \<longleftrightarrow> bit (concat_bit k (uint b) (take_bit (64 - k) (uint a))) n"
      using assms(2) by (auto simp: bit_simps bit_uint_iff not_less)
  qed
  then show ?thesis
    using assms by (simp add: concat_bit_eq take_bit_int_eq_self push_bit_eq_mult take_bit_eq_mod mult.commute)
qed

lemma store_sum:
  fixes t0 t1 t2 t3 t4 :: int
  assumes "t1 = 0x2000 * c1 + m1" "t2 = 0x4000000 * c2 + m2" "t3 = 0x8000000000 * c3 + m3"
  shows "t0 + two51 * m1 + two64 * (c1 + 0x4000000000 * m2 + two64 * (c2 + 0x2000000 * m3 + two64 * (c3 + 0x1000 * t4))) =
    t0 + two51 * t1 + two102 * t2 + two153 * t3 + two204 * t4"
  unfolding assms by simp

lemma store:
  assumes "limbs_below two51 a"
  shows "le_value (format_fcontract_store a) = fval a" and "length (format_fcontract_store a) = 32"
proof -
  obtain t0 t1 t2 t3 t4 where a: "a = Felem t0 t1 t2 t3 t4"
    by (cases a)
  have b: "uint t0 < two51" "uint t1 < two51" "uint t2 < two51" "uint t3 < two51" "uint t4 < two51"
    using assms unfolding a by simp_all
  have q: "0 \<le> uint t1 mod 0x2000" "0 \<le> uint t2 mod 0x4000000" "0 \<le> uint t3 mod 0x8000000000"
    by simp_all
  have d: "uint t1 div 0x2000 < 0x4000000000" "uint t2 div 0x4000000 < 0x2000000" "uint t3 div 0x8000000000 < 0x1000"
    using b mult_div_mod_eq [of "0x2000" "uint t1"] mult_div_mod_eq [of "0x4000000" "uint t2"] mult_div_mod_eq [of "0x8000000000" "uint t3"] q by linarith+
  have o0: "uint (push_bit 51 t1 OR t0) = uint t0 + two51 * (uint t1 mod 0x2000)"
    using b(1) or_disjoint [of t0 51 t1] by simp
  have o1: "uint (push_bit 38 t2 OR drop_bit 13 t1) = uint t1 div 0x2000 + 0x4000000000 * (uint t2 mod 0x4000000)"
    using d(1) or_disjoint [of "drop_bit 13 t1" 38 t2, unfolded uint_drop_bit] by simp
  have o2: "uint (push_bit 25 t3 OR drop_bit 26 t2) = uint t2 div 0x4000000 + 0x2000000 * (uint t3 mod 0x8000000000)"
    using d(2) or_disjoint [of "drop_bit 26 t2" 25 t3, unfolded uint_drop_bit] by simp
  have o3: "uint (push_bit 12 t4 OR drop_bit 39 t3) = uint t3 div 0x8000000000 + 0x1000 * (uint t4 mod 0x10000000000000)"
    using d(3) or_disjoint [of "drop_bit 39 t3" 12 t4, unfolded uint_drop_bit] by simp
  show "length (format_fcontract_store a) = 32"
    unfolding a by (simp add: put_unaligned_le64_def Let_def)
  have t4: "uint t4 mod 0x10000000000000 = uint t4"
    using b(5) by simp
  have l: "length (put_unaligned_le64 s) = 8" for s
    by (simp add: put_unaligned_le64_def)
  have "le_value (format_fcontract_store a) = uint (push_bit 51 t1 OR t0) + two64 * (uint (push_bit 38 t2 OR drop_bit 13 t1) +
      two64 * (uint (push_bit 25 t3 OR drop_bit 26 t2) + two64 * uint (push_bit 12 t4 OR drop_bit 39 t3)))"
    unfolding a format_fcontract_store.simps Let_def le_value_append le_value_put_le64 l by simp
  also have "\<dots> = fval a"
    unfolding o0 o1 o2 o3 a fval.simps t4 by (rule store_sum) simp_all
  finally show "le_value (format_fcontract_store a) = fval a" .
qed

lemma fcontract:
  assumes "limbs_below two52 a"
  shows "le_value (format_fcontract a) = fe a" and "length (format_fcontract a) = 32"
proof -
  obtain r0 r1 r2 r3 r4 where r: "format_fcontract_first_carry_full a = Felem r0 r1 r2 r3 r4"
    by (cases "format_fcontract_first_carry_full a")
  note f = first_carry_full [OF assms r]
  note s = second_carry_full [OF f(2-6)]
  note t = trim [OF s(2)]
  show "le_value (format_fcontract a) = fe a" "length (format_fcontract a) = 32"
    unfolding format_fcontract_def r using store [OF t(1)] t(2) s(1) f(1) by simp_all
qed

end
