(* ===== verification/Curve25519_RFC7748.thy ===== *)
theory Curve25519_RFC7748
  imports Curve25519_Ladder
begin

unbundle bit_operations_syntax

text \<open>
  The function X25519 of RFC 7748, section 5, as the RFC writes it, and the equality with the implementation.
\<close>

subsection \<open>The function of RFC 7748\<close>

text \<open>The scalar of section 5: the three lowest bits and the highest one are cleared, the one below it is set.\<close>

definition decode_scalar :: "int \<Rightarrow> int" where
  "decode_scalar k = (k div 8 * 8) mod 2 ^ 254 + 2 ^ 254"

text \<open>One round of the loop of section 5, with the exchange that is put off to the next round.\<close>

definition rfc_round :: "int \<Rightarrow> int \<Rightarrow> nat \<Rightarrow> ((int \<times> int) \<times> (int \<times> int)) \<times> bool \<Rightarrow> ((int \<times> int) \<times> (int \<times> int)) \<times> bool" where
  "rfc_round k x1 t st =
     (let (s, swap) = st; k_t = bit k t; swap = (swap \<noteq> k_t); s = cswap swap s
      in (ladder_step x1 s, k_t))"

definition rfc_ladder :: "nat \<Rightarrow> int \<Rightarrow> int \<Rightarrow> (int \<times> int) \<times> (int \<times> int)" where
  "rfc_ladder bits k u =
     (let (s, swap) = fold (rfc_round k u) (rev [0..<bits]) (((1, 0), (u, 1)), False) in cswap swap s)"

text \<open>The affine of the coordinates, with the inverse of section 5.\<close>

definition affine :: "int \<times> int \<Rightarrow> int" where
  "affine P = fst P * snd P ^ nat (p25519 - 2) mod p25519"

definition X25519 :: "int \<Rightarrow> int \<Rightarrow> int" where
  "X25519 k u = affine (fst (rfc_ladder 255 k (u mod p25519)))"

lemma cswap_cswap [simp]: "cswap b (cswap c s) = cswap (c \<noteq> b) s"
  by (auto simp: cswap_def)

lemma rfc_round_bits:
  "(case fold (rfc_round k u) ts (s, b) of (s', b') \<Rightarrow> cswap b' s') = fold (ladder_bit u) (map (bit k) ts) (cswap b s)"
  by (induction ts arbitrary: s b) (simp_all add: rfc_round_def Let_def ladder_bit_def)

lemma rfc_ladder_bits: "rfc_ladder bits k u = fold (ladder_bit u) (map (bit k) (rev [0..<bits])) ((1, 0), (u, 1))"
  using rfc_round_bits [of k u "rev [0..<bits]" "((1, 0), (u, 1))" False] by (simp add: rfc_ladder_def cswap_def)

lemma bit_decode_scalar: "bit (decode_scalar k) n \<longleftrightarrow> (3 \<le> n \<and> n < 254 \<and> bit k n) \<or> n = 254"
proof -
  have "take_bit 254 (push_bit 3 (drop_bit 3 k)) + push_bit 254 1 = take_bit 254 (push_bit 3 (drop_bit 3 k)) OR push_bit 254 1"
    by (rule disjunctive_add) (auto simp only: bit_take_bit_iff bit_push_bit_iff bit_1_iff)
  then have "decode_scalar k = take_bit 254 (push_bit 3 (drop_bit 3 k)) OR push_bit 254 1"
    by (simp add: decode_scalar_def take_bit_eq_mod drop_bit_eq_div push_bit_eq_mult)
  then show ?thesis
    by (auto simp only: bit_or_iff bit_take_bit_iff bit_push_bit_iff bit_drop_bit_eq bit_1_iff comp_apply) (simp_all, arith?)
qed

lemma clamp_scalar:
  assumes "length secret = 32"
  shows "le_value (curve25519_clamp_secret secret) = decode_scalar (le_value secret)"
proof (rule bit_eqI)
  fix n
  let ?c = "curve25519_clamp_secret secret"
  have len: "length ?c = 32"
    using assms by (simp add: curve25519_clamp_secret_def)
  have m: "bit (248 :: u8) j \<longleftrightarrow> 3 \<le> j" "bit (127 :: u8) j \<longleftrightarrow> j < 7" "bit (64 :: u8) j \<longleftrightarrow> j = 6" if "j < 8" for j
  proof -
    have "j \<in> set [0..<8]"
      using that by simp
    moreover have "list_all (\<lambda>j. (bit (248 :: u8) j \<longleftrightarrow> 3 \<le> j) \<and> (bit (127 :: u8) j \<longleftrightarrow> j < 7) \<and> (bit (64 :: u8) j \<longleftrightarrow> j = 6)) [0..<8]"
      by code_simp
    ultimately show "bit (248 :: u8) j \<longleftrightarrow> 3 \<le> j" "bit (127 :: u8) j \<longleftrightarrow> j < 7" "bit (64 :: u8) j \<longleftrightarrow> j = 6"
      unfolding list_all_iff by blast+
  qed
  have c: "bit (?c ! i) j \<longleftrightarrow> (3 \<le> 8 * i + j \<and> 8 * i + j < 254 \<and> bit (secret ! i) j) \<or> 8 * i + j = 254" if "i < 32" "j < 8" for i j
  proof -
    consider "i = 0" | "i = 31" | "i \<noteq> 0" "i \<noteq> 31" by blast
    then show ?thesis
      using that assms m [OF that(2)] by cases (auto simp: curve25519_clamp_secret_def bit_and_iff bit_or_iff)
  qed
  show "bit (le_value ?c) n \<longleftrightarrow> bit (decode_scalar (le_value secret)) n"
  proof (cases "n < 256")
    case True
    then have "bit (le_value ?c) (8 * (n div 8) + n mod 8) \<longleftrightarrow> bit (?c ! (n div 8)) (n mod 8)"
      "bit (le_value secret) (8 * (n div 8) + n mod 8) \<longleftrightarrow> bit (secret ! (n div 8)) (n mod 8)"
      using len assms by (intro bit_le_value; simp add: less_mult_imp_div_less)+
    then show ?thesis
      using True c [of "n div 8" "n mod 8"] by (simp add: bit_decode_scalar less_mult_imp_div_less)
  next
    case False
    have t: "le_value ?c = take_bit 256 (le_value ?c)"
      using le_value_take [of 32 ?c] len by simp
    show ?thesis
      using False by (subst t) (simp add: bit_take_bit_iff bit_decode_scalar)
  qed
qed

subsection \<open>The whole function\<close>

lemma curve25519_ladder:
  assumes "length secret = 32" and "length basepoint = 32"
  shows "length (curve25519 secret basepoint) = 32"
    and "le_value (curve25519 secret basepoint) =
      affine (fst (rfc_ladder 256 (decode_scalar (le_value secret)) (le_value basepoint mod 2 ^ 255 mod p25519)))"
proof -
  define q where "q = (format_fexpand basepoint, one_felem)"
  define e where "e = curve25519_clamp_secret secret"
  have e: "length e = 32" "le_value e = decode_scalar (le_value secret)"
    using assms(1) clamp_scalar [OF assms(1)] by (simp_all add: e_def curve25519_clamp_secret_def)
  have q: "reduced (fst q)" "fe (fst q) = le_value basepoint mod 2 ^ 255 mod p25519" "snd q = one_felem"
    using expand_limbs [OF assms(2)] limbs_below_mono [of two51 _ "0x8000000002000"] by (simp_all add: q_def fe_def)
  obtain x z where xz: "ladder_cmult e q = (x, z)"
    by (cases "ladder_cmult e q")
  have r: "reduced x" "reduced z" "(fe x, fe z) = fst (rfc_ladder 256 (decode_scalar (le_value secret)) (le_value basepoint mod 2 ^ 255 mod p25519))"
    using ladder_cmult_ok [OF q(1,3) e(1)] unfolding xz q(2) e(2) rfc_ladder_bits by simp_all
  note c = crecip_fe [OF r(2)]
  note m = fmul_fe [OF reduced_below(2) [OF r(1)] reduced_below(3) [OF c(2)]]
  have "limbs_below two52 (fmul_fmul x (crecip z))"
    using m(2) by (rule limbs_below_mono) simp
  note f = fcontract [OF this]
  have g: "curve25519 secret basepoint = format_fcontract (fmul_fmul x (crecip z))"
    using assms(1) xz unfolding q_def e_def
    by (simp add: curve25519_def curve25519_generic_def format_scalar_of_point_def fmul_def Let_def)
  show "length (curve25519 secret basepoint) = 32"
    unfolding g by (rule f(2))
  have "le_value (curve25519 secret basepoint) = affine (fe x, fe z)"
    unfolding g f(1) m(1) c(1) affine_def by (simp add: mod_mult_right_eq)
  then show "le_value (curve25519 secret basepoint) =
      affine (fst (rfc_ladder 256 (decode_scalar (le_value secret)) (le_value basepoint mod 2 ^ 255 mod p25519)))"
    unfolding r(3) .
qed

subsection \<open>An instance of Fermat's theorem\<close>

text \<open>Powers modulo the prime by squaring on binary numerals: the bits above the 255th are worth nineteen times the number they
  form.\<close>

fun low_bits :: "nat \<Rightarrow> num \<Rightarrow> num option" where
  "low_bits 0 n = None"
| "low_bits (Suc k) num.One = Some num.One"
| "low_bits (Suc k) (num.Bit0 n) = map_option num.Bit0 (low_bits k n)"
| "low_bits (Suc k) (num.Bit1 n) = Some (case low_bits k n of None \<Rightarrow> num.One | Some m \<Rightarrow> num.Bit1 m)"

fun high_bits :: "nat \<Rightarrow> num \<Rightarrow> num option" where
  "high_bits 0 n = Some n"
| "high_bits (Suc k) num.One = None"
| "high_bits (Suc k) (num.Bit0 n) = high_bits k n"
| "high_bits (Suc k) (num.Bit1 n) = high_bits k n"

definition nineteen :: num where "nineteen = num.Bit1 (num.Bit1 (num.Bit0 (num.Bit0 num.One)))"

definition fold_num :: "num \<Rightarrow> num" where
  "fold_num w = (case high_bits 255 w of
       None \<Rightarrow> w
     | Some h \<Rightarrow> (case low_bits 255 w of None \<Rightarrow> nineteen * h | Some l \<Rightarrow> l + nineteen * h))"

primrec squares :: "nat \<Rightarrow> num \<Rightarrow> num" where
  "squares 0 y = y"
| "squares (Suc n) y = squares n (fold_num (fold_num (Num.sqr y)))"

definition num_value :: "num option \<Rightarrow> int" where
  "num_value m = (case m of None \<Rightarrow> 0 | Some n \<Rightarrow> numeral n)"

lemma num_value_simps: "num_value None = 0" "num_value (Some n) = numeral n"
  by (simp_all only: num_value_def option.case)

lemma numeral_Bit1_eq: "numeral (num.Bit1 n) = 2 * (numeral n :: int) + 1"
  by (simp only: numeral_Bit1 mult_2)

lemma bits_value: "numeral n = num_value (low_bits k n) + 2 ^ k * num_value (high_bits k n)"
proof (induction k n rule: low_bits.induct)
  case (3 k n)
  have l: "num_value (map_option num.Bit0 m) = 2 * num_value m" for m
    by (cases m) (simp_all only: option.map num_value_simps mult_zero_right, rule numeral_Bit0_eq_double)
  show ?case
    unfolding low_bits.simps high_bits.simps l numeral_Bit0_eq_double [of n] 3 power_Suc by (simp only: algebra_simps)
next
  case (4 k n)
  have l: "num_value (Some (case m of None \<Rightarrow> num.One | Some m \<Rightarrow> num.Bit1 m)) = 2 * num_value m + 1" for m
    by (cases m) (simp_all only: option.case num_value_simps mult_zero_right numeral_One add_0_left, rule numeral_Bit1_eq)
  show ?case
    unfolding low_bits.simps high_bits.simps l numeral_Bit1_eq [of n] 4 power_Suc by (simp only: algebra_simps)
qed (simp_all only: low_bits.simps high_bits.simps num_value_simps numeral_One power_0 mult_1 mult_zero_right add_0_left add_0_right)

lemma fold_num_value: "numeral (fold_num w) mod p25519 = numeral w mod p25519"
proof (cases "high_bits 255 w")
  case (Some h)
  have n: "(numeral nineteen :: int) = 19"
    unfolding nineteen_def ..
  have "(numeral w :: int) = num_value (low_bits 255 w) + 2 ^ 255 * numeral h"
    using bits_value [of w 255] unfolding Some num_value_simps .
  then have w: "numeral w = num_value (low_bits 255 w) + 19 * numeral h + p25519 * numeral h"
    unfolding p25519_def left_diff_distrib by linarith
  have "(numeral (fold_num w) :: int) = num_value (low_bits 255 w) + 19 * numeral h"
    by (cases "low_bits 255 w") (simp_all only: fold_num_def Some option.case num_value_simps numeral_mult numeral_add n add_0_left)
  then show ?thesis
    unfolding w by (simp only: mod_mult_self2)
qed (simp only: fold_num_def option.case)

lemma squares_value: "numeral (squares n y) mod p25519 = numeral y ^ 2 ^ n mod p25519"
proof (induction n arbitrary: y)
  case (Suc n)
  have "numeral (fold_num (fold_num (Num.sqr y))) mod p25519 = numeral y ^ 2 mod p25519"
    by (simp only: fold_num_value numeral_sqr power2_eq_square)
  then have "numeral (fold_num (fold_num (Num.sqr y))) ^ 2 ^ n mod p25519 = (numeral y ^ 2) ^ 2 ^ n mod p25519"
    by (metis power_mod)
  then show ?case
    unfolding squares.simps Suc power_Suc power_mult .
qed (simp only: squares.simps power_0 power_one_right)

definition squares_to :: "nat \<Rightarrow> int \<Rightarrow> int \<Rightarrow> bool" where
  "squares_to n a b \<longleftrightarrow> (\<forall>m. a = numeral m \<longrightarrow> b = numeral (squares n m))"

lemma squares_to_power:
  assumes "squares_to n (numeral a) b"
  shows "numeral a ^ 2 ^ n mod p25519 = b mod p25519"
  using assms squares_value [of n a] by (simp add: squares_to_def)

lemma squares_1: "squares_to 64 (1679616) (48451609311450529746156806817537074854176885121227782468737321925477503457849)"
  unfolding squares_to_def by (intro allI impI, simp only: numeral_eq_iff, hypsubst, code_simp)

lemma squares_2: "squares_to 63 (48451609311450529746156806817537074854176885121227782468737321925477503457849) (24003027792845712271030588117008144544246358855614056729853770083004932980994)"
  unfolding squares_to_def by (intro allI impI, simp only: numeral_eq_iff, hypsubst, code_simp)

lemma squares_3: "squares_to 63 (24003027792845712271030588117008144544246358855614056729853770083004932980994) (25339203619733577086786175218722439409895035183597836543959069526601631840999)"
  unfolding squares_to_def by (intro allI impI, simp only: numeral_eq_iff, hypsubst, code_simp)

lemma squares_4: "squares_to 63 (25339203619733577086786175218722439409895035183597836543959069526601631840999) (13367494538843734067838845976576)"
  unfolding squares_to_def by (intro allI impI, simp only: numeral_eq_iff, hypsubst, code_simp)

text \<open>The chain takes $6^8$ to $6^{40}$, so that the order of 6 divides $2^{256} - 40$, twice the prime less one.\<close>

lemma six_power: "(6 :: int) ^ 2 ^ 256 mod p25519 = 6 ^ 40 mod p25519"
proof -
  have chain: "a ^ 2 ^ (m + n) mod p25519 = c mod p25519" if "a ^ 2 ^ m mod p25519 = b mod p25519" "b ^ 2 ^ n mod p25519 = c mod p25519"
    for a b c :: int and m n
  proof -
    have "a ^ 2 ^ (m + n) mod p25519 = (a ^ 2 ^ m) ^ 2 ^ n mod p25519"
      by (simp add: power_add power_mult)
    also have "\<dots> = b ^ 2 ^ n mod p25519"
      using that(1) by (metis power_mod)
    finally show ?thesis
      using that(2) by simp
  qed
  have lit: "(6 :: int) ^ 8 = 1679616" "(6 :: int) ^ 40 = 13367494538843734067838845976576"
    by simp_all
  have e: "8 * 2 ^ (64 + 63 + 63 + 63) = (2 ^ 256 :: nat)"
    by simp
  have "(6 ^ 8) ^ 2 ^ (64 + 63 + 63 + 63) mod p25519 = 6 ^ 40 mod p25519"
    unfolding lit by (rule chain [OF chain [OF chain [OF squares_to_power [OF squares_1] squares_to_power [OF squares_2]]
      squares_to_power [OF squares_3]] squares_to_power [OF squares_4]])
  then show ?thesis
    unfolding power_mult [symmetric] e .
qed

lemma one_mod_p: "1 mod p25519 = 1"
  by (simp add: p25519_numeral)

lemma six_inverse: "(6 :: int) * 48246703848881748093154577086953294938862493610683568349773993336630470683291 mod p25519 = 1"
  by (simp add: p25519_numeral)

lemma fermat_36: "36 ^ nat (p25519 - 1) mod p25519 = 1"
proof -
  let ?v = "48246703848881748093154577086953294938862493610683568349773993336630470683291 :: int"
  have e: "2 * nat (p25519 - 1) + 40 = 2 ^ 256"
    by (simp add: p25519_numeral)
  have inv: "6 ^ 40 * ?v ^ 40 mod p25519 = 1"
    unfolding power_mult_distrib [symmetric] power_mod [of "6 * ?v", symmetric] six_inverse by (simp only: power_one one_mod_p)
  have "36 ^ nat (p25519 - 1) * 6 ^ 40 = (6 :: int) ^ 2 ^ 256"
    unfolding e [symmetric] power_add power_mult by (simp only: power2_eq_square) simp
  then have "36 ^ nat (p25519 - 1) * 6 ^ 40 * ?v ^ 40 mod p25519 = 6 ^ 40 * ?v ^ 40 mod p25519"
    using mod_mult_cong [OF six_power refl, of "?v ^ 40"] by (simp only:)
  moreover have "36 ^ nat (p25519 - 1) * 6 ^ 40 * ?v ^ 40 mod p25519 = 36 ^ nat (p25519 - 1) * (6 ^ 40 * ?v ^ 40 mod p25519) mod p25519"
    by (simp only: mod_mult_right_eq mult.assoc)
  ultimately show ?thesis
    unfolding inv by (simp only: mult_1_right)
qed

subsection \<open>Multiples of a point\<close>

text \<open>The implementation runs the ladder over 256 bits, the RFC over 255. The additional round, on the cleared highest bit,
  multiplies the coordinates of the second point by four times the base coordinate, and the ladder carries powers of this factor along.\<close>

definition scaled :: "int \<Rightarrow> int \<times> int \<Rightarrow> int \<times> int \<Rightarrow> bool" where
  "scaled c P P' \<longleftrightarrow> (\<exists>i. fst P' mod p25519 = c ^ i * fst P mod p25519 \<and> snd P' mod p25519 = c ^ i * snd P mod p25519)"

lemma ladder_step_cong:
  assumes "x2 mod p25519 = x2' mod p25519" "z2 mod p25519 = z2' mod p25519" "x3 mod p25519 = x3' mod p25519" "z3 mod p25519 = z3' mod p25519"
  shows "ladder_step u ((x2, z2), (x3, z3)) = ladder_step u ((x2', z2'), (x3', z3'))"
  unfolding ladder_step_def Let_def prod.case prod.inject power2_eq_square
  by (intro conjI mod_mult_cong mod_add_cong mod_diff_cong refl assms)

lemma ladder_step_scaled:
  assumes "scaled c (fst s) (fst s')" and "scaled c (snd s) (snd s')"
  shows "scaled c (fst (ladder_step u s)) (fst (ladder_step u s'))" and "scaled c (snd (ladder_step u s)) (snd (ladder_step u s'))"
proof -
  obtain x2 z2 x3 z3 where s: "s = ((x2, z2), (x3, z3))"
    by (metis surj_pair)
  obtain i where i: "fst (fst s') mod p25519 = c ^ i * x2 mod p25519" "snd (fst s') mod p25519 = c ^ i * z2 mod p25519"
    using assms(1) unfolding scaled_def s by auto
  obtain j where j: "fst (snd s') mod p25519 = c ^ j * x3 mod p25519" "snd (snd s') mod p25519 = c ^ j * z3 mod p25519"
    using assms(2) unfolding scaled_def s by auto
  have s': "ladder_step u s' = ladder_step u ((c ^ i * x2, c ^ i * z2), (c ^ j * x3, c ^ j * z3))"
    using ladder_step_cong [OF i j, of u] by simp
  have four: "4 * i = i + i + (i + i)"
    by simp
  have "fst (ladder_step u s') = (c ^ (4 * i) * fst (fst (ladder_step u s)) mod p25519, c ^ (4 * i) * snd (fst (ladder_step u s)) mod p25519)"
    unfolding s' unfolding s ladder_step_def Let_def mult_2 power_add four
    by (simp add: mod_simps; simp add: power2_eq_square algebra_simps)
  then show "scaled c (fst (ladder_step u s)) (fst (ladder_step u s'))"
    unfolding scaled_def by (intro exI [of _ "4 * i"]) simp
  have "snd (ladder_step u s') =
      (c ^ (2 * (i + j)) * fst (snd (ladder_step u s)) mod p25519, c ^ (2 * (i + j)) * snd (snd (ladder_step u s)) mod p25519)"
    unfolding s' unfolding s ladder_step_def Let_def mult_2 power_add
    by (simp add: mod_simps; simp add: power2_eq_square algebra_simps)
  then show "scaled c (snd (ladder_step u s)) (snd (ladder_step u s'))"
    unfolding scaled_def by (intro exI [of _ "2 * (i + j)"]) simp
qed

lemma ladder_bits_scaled:
  assumes "scaled c (fst s) (fst s')" and "scaled c (snd s) (snd s')"
  shows "scaled c (fst (fold (ladder_bit u) bs s)) (fst (fold (ladder_bit u) bs s'))"
  using assms
proof (induction bs arbitrary: s s')
  case (Cons b bs)
  have "scaled c (fst (cswap b s)) (fst (cswap b s'))" "scaled c (snd (cswap b s)) (snd (cswap b s'))"
    using Cons.prems by (simp_all add: cswap_def)
  note l = ladder_step_scaled [OF this, of u]
  show ?case
    unfolding fold.simps comp_apply by (rule Cons.IH) (use l in \<open>cases b; simp add: ladder_bit_def cswap_def\<close>)+
qed simp

lemma affine_scaled:
  assumes "scaled c P P'" and "c ^ nat (p25519 - 1) mod p25519 = 1"
  shows "affine P' = affine P"
proof -
  let ?e = "nat (p25519 - 2)"
  obtain i where i: "fst P' mod p25519 = c ^ i * fst P mod p25519" "snd P' mod p25519 = c ^ i * snd P mod p25519"
    using assms(1) unfolding scaled_def by blast
  have e: "Suc ?e = nat (p25519 - 1)"
    by (simp add: p25519_numeral)
  have "(c ^ i) ^ nat (p25519 - 1) mod p25519 = (c ^ nat (p25519 - 1)) ^ i mod p25519"
    by (simp only: power_mult [symmetric] mult.commute)
  also have "\<dots> = (c ^ nat (p25519 - 1) mod p25519) ^ i mod p25519"
    by (simp only: power_mod)
  finally have f: "(c ^ i) ^ nat (p25519 - 1) mod p25519 = 1"
    by (simp only: assms(2) power_one one_mod_p)
  have "affine P' = (c ^ i * fst P) * (c ^ i * snd P) ^ ?e mod p25519"
    unfolding affine_def by (rule mod_mult_cong [OF i(1)]) (metis i(2) power_mod)
  also have "(c ^ i * fst P) * (c ^ i * snd P) ^ ?e = (c ^ i) ^ Suc ?e * (fst P * snd P ^ ?e)"
    by (simp only: power_mult_distrib power_Suc ac_simps)
  also have "\<dots> mod p25519 = (c ^ i) ^ nat (p25519 - 1) mod p25519 * (fst P * snd P ^ ?e) mod p25519"
    unfolding e by (simp only: mod_mult_left_eq)
  finally show ?thesis
    unfolding f affine_def by (simp only: mult_1)
qed

lemma first_round: "\<not> bit k 255 \<Longrightarrow> rfc_ladder 256 k u = fold (ladder_bit u) (map (bit k) (rev [0..<255])) ((1, 0), (4 * u * u mod p25519, 4 * u * 1 mod p25519))"
proof -
  assume k: "\<not> bit k 255"
  have "rev [0..<Suc 255] = 255 # rev [0..<255]"
    using upt_Suc_append [of 0 255] by (simp only: zero_le rev_append rev.simps append.simps)
  then have r: "rev [0..<256] = 255 # rev [0..<255]"
    by (simp only: Suc_numeral semiring_norm)
  have f: "ladder_bit u False ((1, 0), (u, 1)) = ((1, 0), (4 * u * u mod p25519, 4 * u * 1 mod p25519))"
    by (simp add: ladder_bit_def cswap_def ladder_step_def Let_def one_mod_p power2_eq_square algebra_simps)
  show ?thesis
    unfolding rfc_ladder_bits r list.map fold.simps comp_apply using k by (simp only: f)
qed

lemma generate_public_x25519:
  assumes "length secret = 32"
  shows "length (curve25519_generate_public secret) = 32 \<and>
    le_value (curve25519_generate_public secret) = X25519 (decode_scalar (le_value secret)) 9"
proof -
  let ?b = "9 # replicate 31 (0 :: u8)" and ?k = "decode_scalar (le_value secret)"
  have "le_value (replicate n 0) = 0" for n
    by (induction n) simp_all
  then have "le_value ?b = 9"
    by simp
  then have b: "le_value ?b mod 2 ^ 255 mod p25519 = 9" "9 mod p25519 = 9"
    by (simp_all add: p25519_numeral)
  have "\<not> bit ?k 255"
    by (simp add: bit_decode_scalar)
  note r = first_round [OF this, of 9]
  have "scaled 36 (9, 1) (4 * 9 * 9 mod p25519, 4 * 9 * 1 mod p25519)" "scaled 36 (1, 0) (1, 0)"
    unfolding scaled_def by (rule exI [of _ 1], simp) (rule exI [of _ 0], simp)
  then have "scaled 36 (fst (rfc_ladder 255 ?k 9)) (fst (rfc_ladder 256 ?k 9))"
    unfolding r rfc_ladder_bits [of 255] by (intro ladder_bits_scaled) (simp_all only: fst_conv snd_conv)
  then have "affine (fst (rfc_ladder 256 ?k 9)) = X25519 ?k 9"
    unfolding X25519_def b(2) by (rule affine_scaled [OF _ fermat_36])
  then show ?thesis
    using curve25519_ladder [OF assms, of ?b] unfolding b(1) curve25519_generate_public_def by simp
qed

text \<open>C2. The public key of every private key is the function X25519 of RFC 7748 at the base point 9: the limbs never
  overflow, the inversion raises to the power of the prime less two, and the bytes are those of the canonical residue.\<close>

theorem curve25519_generate_public_rfc7748:
  assumes "length secret = 32"
  shows "length (curve25519_generate_public secret) = 32 \<and>
    le_value (curve25519_generate_public secret) = X25519 (decode_scalar (le_value secret)) 9"
  by (rule generate_public_x25519 [OF assms])

theorem curve25519_generate_public_rfc7748_witness:
  "length (curve25519_generate_public (replicate 32 7)) = 32 \<and>
   le_value (curve25519_generate_public (replicate 32 7)) = X25519 (decode_scalar (le_value (replicate 32 7))) 9"
  by (rule curve25519_generate_public_rfc7748) simp

end
