(* ===== verification/Keytools.thy ===== *)
theory Keytools
  imports Showconf Curve25519_RFC7748
begin

unbundle bit_operations_syntax

text \<open>
  The commands on keys, \<open>src/genkey.c\<close> and \<open>src/pubkey.c\<close> under \<open>src/tunnel/tools/amneziawg-tools\<close>. The sources of
  random bytes and standard input are arguments; the input may have no end. A command gives its exit code and what it writes to
  standard output, or \<open>None\<close> when it never returns. The warning about a file that everyone can read goes to standard error and is not modelled.
\<close>

subsection \<open>Random bytes\<close>

text \<open>The answer of a call of \<open>read\<close>: the bytes that were available, none at the end of the file, or an error.\<close>

datatype read_answer = Read_bytes "u8 list" | Read_error int

text \<open>\<open>getentropy\<close> and the system call \<open>getrandom\<close> give the bytes they have written; a platform without one of them
  gives none. \<open>/dev/urandom\<close> may not open.\<close>

record random_source =
  getentropy :: "nat \<Rightarrow> u8 list option"
  getrandom :: "nat \<Rightarrow> u8 list"
  urandom :: "read_answer list option"

text \<open>The reads of the loop: the bytes so far, until there are \<open>len\<close> of them or a read gives none. \<open>read\<close> stores no more
  than it is asked for.\<close>

fun urandom_loop :: "u8 list \<Rightarrow> nat \<Rightarrow> read_answer list \<Rightarrow> u8 list" where
  "urandom_loop out len [] = out"
| "urandom_loop out len (a # as) =
     (if length out < len
      then case a of
             Read_error e \<Rightarrow> out
           | Read_bytes bs \<Rightarrow> if bs = [] then out else urandom_loop (out @ take (len - length out) bs) len as
      else out)"

definition get_random_bytes :: "random_source \<Rightarrow> nat \<Rightarrow> u8 list option" where
  "get_random_bytes src len =
     (if len > 256 then None
      else case getentropy src len of
        Some bs \<Rightarrow> Some bs
      | None \<Rightarrow>
          if length (getrandom src len) = len then Some (getrandom src len)
          else case urandom src of
            None \<Rightarrow> None
          | Some as \<Rightarrow>
              let out = urandom_loop [] len as
              in if length out = len then Some out else None)"

subsection \<open>The commands\<close>

definition genkey_main :: "random_source \<Rightarrow> string list \<Rightarrow> int \<times> string" where
  "genkey_main src argv =
     (if length argv \<noteq> 1 then (1, [])
      else case get_random_bytes src WG_KEY_LEN of
        None \<Rightarrow> (1, [])
      | Some key \<Rightarrow>
          let key = (if argv ! 0 = ''genkey'' then curve25519_clamp_secret key else key)
          in (0, key_to_base64 key @ [NL]))"

text \<open>Standard input: the characters \<open>getc\<close> gives in turn, \<open>None\<close> for \<open>EOF\<close>. It need not end.\<close>

type_synonym stdin = "nat \<Rightarrow> char option"

definition text_input :: "string \<Rightarrow> stdin" where
  "text_input s k = (if k < length s then Some (s ! k) else None)"

text \<open>\<open>fread\<close> of up to \<open>n\<close> characters.\<close>

fun read_chars :: "stdin \<Rightarrow> nat \<Rightarrow> nat \<Rightarrow> string" where
  "read_chars inp k 0 = []"
| "read_chars inp k (Suc n) = (case inp k of None \<Rightarrow> [] | Some c \<Rightarrow> c # read_chars inp (Suc k) n)"

text \<open>The loop over the characters after the key, whether it ends at \<open>EOF\<close>; \<open>None\<close> when it never ends.\<close>

partial_function (option) trailing :: "stdin \<Rightarrow> nat \<Rightarrow> bool option" where
  "trailing inp k =
     (let trailing_char = (case inp k of None \<Rightarrow> - 1 | Some c \<Rightarrow> uchar c)
      in if trailing_char = 0 \<or> char_is_space trailing_char then trailing inp (Suc k)
         else if trailing_char = - 1 then Some True
         else Some False)"

text \<open>\<open>key0\<close> is what the array of the key holds before.\<close>

definition pubkey_main :: "u8 list \<Rightarrow> string list \<Rightarrow> stdin \<Rightarrow> (int \<times> string) option" where
  "pubkey_main key0 argv inp =
     (let base64 = read_chars inp 0 (WG_KEY_LEN_BASE64 - 1)
      in if length argv \<noteq> 1 then Some (1, [])
         else if length base64 \<noteq> WG_KEY_LEN_BASE64 - 1 then Some (1, [])
         else case trailing inp (WG_KEY_LEN_BASE64 - 1) of
           None \<Rightarrow> None
         | Some False \<Rightarrow> Some (1, [])
         | Some True \<Rightarrow>
             (case key_from_base64 key0 (c_string base64) of
                (False, key) \<Rightarrow> Some (1, [])
              | (True, key) \<Rightarrow> Some (0, key_to_base64 (curve25519_generate_public key) @ [NL])))"

subsection \<open>Lengths\<close>

lemma length_urandom_loop: "length out \<le> len \<Longrightarrow> length (urandom_loop out len as) \<le> len"
  by (induction out len as rule: urandom_loop.induct) (auto split: read_answer.split)

lemma length_random_bytes:
  assumes "\<And>n bs. getentropy src n = Some bs \<Longrightarrow> length bs = n" and "get_random_bytes src len = Some bs"
  shows "length bs = len"
  using assms by (auto simp: get_random_bytes_def Let_def split: if_splits option.splits)

lemma length_clamp [simp]: "length (curve25519_clamp_secret k) = length k"
  by (simp add: curve25519_clamp_secret_def)

subsection \<open>The characters after the key\<close>

lemma eof_no_space: "\<not> char_is_space (- 1)"
  by code_simp

lemma uchar_not_eof: "uchar c \<noteq> - 1"
  using sint_uchar [of c] by auto

text \<open>A character that is skipped: NUL or white space.\<close>

definition skipped :: "char option \<Rightarrow> bool" where
  "skipped x = (case x of None \<Rightarrow> False | Some c \<Rightarrow> uchar c = 0 \<or> char_is_space (uchar c))"

lemma trailing_step: "trailing inp k = (if skipped (inp k) then trailing inp (Suc k) else Some (inp k = None))"
  by (subst trailing.simps) (auto simp: skipped_def Let_def eof_no_space uchar_not_eof split: option.split)

lemma trailing_skip: "\<forall>j. k \<le> j \<and> j < k + n \<longrightarrow> skipped (inp j) \<Longrightarrow> trailing inp k = trailing inp (k + n)"
proof (induction n arbitrary: k)
  case (Suc n)
  then have "trailing inp k = trailing inp (Suc k)"
    by (subst trailing_step) simp
  also have "\<dots> = trailing inp (Suc k + n)"
    using Suc.prems by (intro Suc.IH) simp
  finally show ?case
    by simp
qed simp

lemma trailing_stop:
  assumes "k \<le> n" and "\<forall>j. k \<le> j \<and> j < n \<longrightarrow> skipped (inp j)" and "\<not> skipped (inp n)"
  shows "trailing inp k = Some (inp n = None)"
proof -
  have "trailing inp k = trailing inp n"
    using trailing_skip [of k "n - k" inp] assms(1,2) by simp
  then show ?thesis
    using assms(3) by (simp add: trailing_step)
qed

lemma trailing_returns:
  assumes "trailing inp k = Some b"
  shows "\<exists>n \<ge> k. (\<forall>j. k \<le> j \<and> j < n \<longrightarrow> skipped (inp j)) \<and> \<not> skipped (inp n) \<and> b = (inp n = None)"
proof (rule trailing.raw_induct [rotated, OF assms, where P = "\<lambda>inp k b.
    \<exists>n \<ge> k. (\<forall>j. k \<le> j \<and> j < n \<longrightarrow> skipped (inp j)) \<and> \<not> skipped (inp n) \<and> b = (inp n = None)"])
  fix trailing' :: "stdin \<Rightarrow> nat \<Rightarrow> bool option" and inp k b
  assume ih: "\<And>inp k b. trailing' inp k = Some b \<Longrightarrow>
      \<exists>n \<ge> k. (\<forall>j. k \<le> j \<and> j < n \<longrightarrow> skipped (inp j)) \<and> \<not> skipped (inp n) \<and> b = (inp n = None)"
    and step: "(let trailing_char = (case inp k of None \<Rightarrow> - 1 | Some c \<Rightarrow> uchar c)
      in if trailing_char = 0 \<or> char_is_space trailing_char then trailing' inp (Suc k)
         else if trailing_char = - 1 then Some True else Some False) = Some b"
  have step: "(if skipped (inp k) then trailing' inp (Suc k) else Some (inp k = None)) = Some b"
    using step by (auto simp: skipped_def Let_def eof_no_space uchar_not_eof split: option.splits if_splits)
  show "\<exists>n \<ge> k. (\<forall>j. k \<le> j \<and> j < n \<longrightarrow> skipped (inp j)) \<and> \<not> skipped (inp n) \<and> b = (inp n = None)"
  proof (cases "skipped (inp k)")
    case True
    then obtain n where "n \<ge> Suc k" "\<forall>j. Suc k \<le> j \<and> j < n \<longrightarrow> skipped (inp j)" "\<not> skipped (inp n)" "b = (inp n = None)"
      using ih [of inp "Suc k" b] step by auto
    then show ?thesis
      using True by (intro exI [of _ n]) (metis Suc_leD le_less_Suc_eq not_less_eq_eq order_le_less)
  qed (use step in auto)
qed

lemma trailing_never: "trailing inp k = None \<longleftrightarrow> (\<forall>j \<ge> k. skipped (inp j))"
proof
  assume n: "trailing inp k = None"
  show "\<forall>j \<ge> k. skipped (inp j)"
  proof (rule ccontr)
    assume "\<not> (\<forall>j \<ge> k. skipped (inp j))"
    then obtain j where "k \<le> j" "\<not> skipped (inp j)" "\<And>i. i < j \<Longrightarrow> \<not> (k \<le> i \<and> \<not> skipped (inp i))"
      using exists_least_iff [of "\<lambda>j. k \<le> j \<and> \<not> skipped (inp j)"] by blast
    then show False
      using trailing_stop [of k j inp] n by auto
  qed
next
  assume "\<forall>j \<ge> k. skipped (inp j)"
  then show "trailing inp k = None"
    using trailing_returns [of inp k] by (cases "trailing inp k") auto
qed

subsection \<open>The key\<close>

lemma length_read_chars: "length (read_chars inp k n) = n \<longleftrightarrow> (\<forall>j < n. inp (k + j) \<noteq> None)"
  by (induction n arbitrary: k) (auto simp: All_less_Suc2 split: option.split)

lemma read_chars_map: "\<forall>j < n. inp (k + j) \<noteq> None \<Longrightarrow> read_chars inp k n = map (\<lambda>j. the (inp j)) [k..<k + n]"
  by (induction n arbitrary: k) (auto simp: All_less_Suc2 upt_conv_Cons simp del: upt_Suc split: option.splits)

lemma read_chars_iff:
  assumes "length s = n"
  shows "read_chars inp 0 n = s \<longleftrightarrow> (\<forall>j < n. inp j = Some (s ! j))"
proof
  assume r: "read_chars inp 0 n = s"
  then have "\<forall>j < n. inp j \<noteq> None"
    using length_read_chars [of inp 0 n] assms by simp
  then show "\<forall>j < n. inp j = Some (s ! j)"
    using r read_chars_map [of n inp 0] by auto
next
  assume "\<forall>j < n. inp j = Some (s ! j)"
  then show "read_chars inp 0 n = s"
    using read_chars_map [of n inp 0] assms by (auto intro: nth_equalityI)
qed

lemma c_string_base64: "c_string (key_to_base64 key) = key_to_base64 key"
  using b64.enc_codec_char [of "CHR 0x00" key] by (intro c_string_id) (auto simp: codec_char_def b64_value_def)

lemma key_accepted:
  assumes "length key0 = 32" and "length s = 44"
  shows "key_from_base64 key0 (c_string s) = (True, key) \<longleftrightarrow> length key = 32 \<and> s = key_to_base64 key"
proof
  assume a: "key_from_base64 key0 (c_string s) = (True, key)"
  then have k: "base64_key_string (c_string s)" "key = b64_bytes (c_string s)"
    using assms(1) by (auto simp: key_from_base64_ok split: if_splits)
  then have l: "length key = 32" "c_string s = key_to_base64 key"
    by (simp_all add: key_to_base64_bytes)
  then have "length (c_string s) = length s"
    using assms(2) length_key_to_base64 by simp
  then have "c_string s = s"
    unfolding c_string_def by (metis length_takeWhile_le takeWhile_eq_take take_all)
  then show "length key = 32 \<and> s = key_to_base64 key"
    using l by simp
next
  assume "length key = 32 \<and> s = key_to_base64 key"
  then show "key_from_base64 key0 (c_string s) = (True, key)"
    using b64.dec_enc [OF assms(1)] by (simp add: c_string_base64)
qed

text \<open>The input is an encoded key, then characters that are skipped up to the end of the input.\<close>

definition key_input :: "stdin \<Rightarrow> u8 list \<Rightarrow> bool" where
  "key_input inp key \<longleftrightarrow> length key = 32 \<and> (\<forall>j < 44. inp j = Some (key_to_base64 key ! j)) \<and>
     (\<exists>n \<ge> 44. inp n = None \<and> (\<forall>j. 44 \<le> j \<and> j < n \<longrightarrow> skipped (inp j)))"

lemma trailing_True: "trailing inp k = Some True \<longleftrightarrow> (\<exists>n \<ge> k. inp n = None \<and> (\<forall>j. k \<le> j \<and> j < n \<longrightarrow> skipped (inp j)))"
proof
  assume "trailing inp k = Some True"
  then show "\<exists>n \<ge> k. inp n = None \<and> (\<forall>j. k \<le> j \<and> j < n \<longrightarrow> skipped (inp j))"
    using trailing_returns [of inp k True] by auto
next
  assume "\<exists>n \<ge> k. inp n = None \<and> (\<forall>j. k \<le> j \<and> j < n \<longrightarrow> skipped (inp j))"
  then show "trailing inp k = Some True"
    using trailing_stop [of k _ inp] by (force simp: skipped_def)
qed

lemma pubkey_main_cases:
  "pubkey_main key0 argv inp =
     (if length argv \<noteq> 1 \<or> length (read_chars inp 0 44) \<noteq> 44 \<or> trailing inp 44 = Some False then Some (1, [])
      else if trailing inp 44 = None then None
      else if fst (key_from_base64 key0 (c_string (read_chars inp 0 44)))
      then Some (0, key_to_base64 (curve25519_generate_public (snd (key_from_base64 key0 (c_string (read_chars inp 0 44))))) @ [NL])
      else Some (1, []))"
  by (auto simp: pubkey_main_def WG_KEY_LEN_BASE64_def WG_KEY_LEN_def Let_def split: option.split bool.split prod.split)

text \<open>C12. The outcomes of \<open>pubkey\<close>. It never returns exactly when 44 characters are followed by NUL and white space without an end,
  as on \<open>/dev/zero\<close>. It prints a key with exit code 0 exactly when the input is an encoded key of 32 bytes followed by nothing else but
  NUL and white space, and the key it prints is the public key of that one. In any other case it prints nothing and the exit code is 1.\<close>

theorem pubkey_main_outcomes:
  assumes "length key0 = 32"
  shows "(pubkey_main key0 argv inp = None \<longleftrightarrow> length argv = 1 \<and> (\<forall>j < 44. inp j \<noteq> None) \<and> (\<forall>j \<ge> 44. skipped (inp j))) \<and>
    (pubkey_main key0 argv inp = Some (0, text) \<longleftrightarrow>
      length argv = 1 \<and> (\<exists>key. key_input inp key \<and> text = key_to_base64 (curve25519_generate_public key) @ [NL])) \<and>
    (pubkey_main key0 argv inp = Some (code, text) \<and> code \<noteq> 0 \<longrightarrow> code = 1 \<and> text = [])"
proof (intro conjI)
  let ?s = "read_chars inp 0 44"
  let ?r = "key_from_base64 key0 (c_string ?s)"
  show "pubkey_main key0 argv inp = None \<longleftrightarrow> length argv = 1 \<and> (\<forall>j < 44. inp j \<noteq> None) \<and> (\<forall>j \<ge> 44. skipped (inp j))"
    using length_read_chars [of inp 0 44] by (simp add: pubkey_main_cases flip: trailing_never)
  have "length ?s = 44 \<and> fst ?r \<and> key = snd ?r \<longleftrightarrow> length key = 32 \<and> ?s = key_to_base64 key" for key
  proof (cases "length ?s = 44")
    case True
    then show ?thesis
      using key_accepted [OF assms, of ?s key] by (cases ?r) auto
  next
    case False
    then show ?thesis
      using length_key_to_base64 [of key] by auto
  qed
  then have k: "length ?s = 44 \<and> fst ?r \<and> key = snd ?r \<longleftrightarrow> length key = 32 \<and> (\<forall>j < 44. inp j = Some (key_to_base64 key ! j))" for key
    using read_chars_iff [OF length_key_to_base64, of inp key] by simp
  have t: "trailing inp 44 = Some True \<longleftrightarrow> trailing inp 44 \<noteq> Some False \<and> trailing inp 44 \<noteq> None"
    by (cases "trailing inp 44") auto
  have "pubkey_main key0 argv inp = Some (0, text) \<longleftrightarrow> length argv = 1 \<and> trailing inp 44 = Some True \<and>
      (\<exists>key. (length ?s = 44 \<and> fst ?r \<and> key = snd ?r) \<and> text = key_to_base64 (curve25519_generate_public key) @ [NL])"
    unfolding t by (auto simp: pubkey_main_cases)
  then show "pubkey_main key0 argv inp = Some (0, text) \<longleftrightarrow>
      length argv = 1 \<and> (\<exists>key. key_input inp key \<and> text = key_to_base64 (curve25519_generate_public key) @ [NL])"
    unfolding k trailing_True key_input_def by auto
  show "pubkey_main key0 argv inp = Some (code, text) \<and> code \<noteq> 0 \<longrightarrow> code = 1 \<and> text = []"
    by (auto simp: pubkey_main_cases split: if_splits)
qed

theorem pubkey_main_outcomes_witness:
  "pubkey_main (replicate 32 0) [''pubkey''] (\<lambda>_. Some (CHR 0x00)) = None \<and>
   pubkey_main (replicate 32 0) [''pubkey''] (text_input (key_to_base64 (replicate 32 7)))
     = Some (0, key_to_base64 (curve25519_generate_public (replicate 32 7)) @ [NL])"
proof -
  have "skipped (Some (CHR 0x00))"
    by (simp add: skipped_def uchar_def u8_of_char_def)
  moreover have "key_input (text_input (key_to_base64 (replicate 32 7))) (replicate 32 7)"
    using length_key_to_base64 [of "replicate 32 7"] by (auto simp: key_input_def text_input_def intro!: exI [of _ 44])
  ultimately show ?thesis
    using pubkey_main_outcomes [of "replicate 32 0" "[''pubkey'']" "\<lambda>_. Some (CHR 0x00)"]
      pubkey_main_outcomes [of "replicate 32 0" "[''pubkey'']" "text_input (key_to_base64 (replicate 32 7))"] by auto
qed

lemma decode_scalar_idem: "decode_scalar (decode_scalar k) = decode_scalar k"
  by (rule bit_eqI) (auto simp: bit_decode_scalar)

lemma pubkey_of_key:
  assumes "length key0 = 32" and "length key = 32"
  shows "pubkey_main key0 [cmd] (text_input (key_to_base64 key @ [NL])) = Some (0, key_to_base64 (curve25519_generate_public key) @ [NL])"
proof -
  let ?inp = "text_input (key_to_base64 key @ [NL])"
  have "skipped (Some NL)"
    by code_simp
  then have "\<forall>j. 44 \<le> j \<and> j < 45 \<longrightarrow> skipped (?inp j)"
    using length_key_to_base64 [of key] by (auto simp: text_input_def nth_append)
  then have "trailing ?inp 44 = Some True"
    unfolding trailing_True using length_key_to_base64 [of key] by (intro exI [of _ 45]) (simp add: text_input_def)
  moreover have "read_chars ?inp 0 44 = key_to_base64 key"
    using length_key_to_base64 [of key] by (simp add: read_chars_iff text_input_def nth_append)
  ultimately show ?thesis
    using b64.dec_enc [OF assms] length_key_to_base64 [of key] by (simp add: pubkey_main_cases c_string_base64)
qed

text \<open>C11. \<open>genkey\<close> fails exactly when no source gives 32 random bytes. Otherwise it prints these bytes as a clamped scalar, and \<open>pubkey\<close>
  reads what it has printed and prints X25519 of the clamped bytes at the base point.\<close>

theorem genkey_pubkey:
  assumes "\<And>n bs. getentropy src n = Some bs \<Longrightarrow> length bs = n" and "length key0 = 32"
  shows "case get_random_bytes src 32 of
      None \<Rightarrow> genkey_main src [''genkey''] = (1, [])
    | Some bs \<Rightarrow>
        (\<exists>text pub. genkey_main src [''genkey''] = (0, text) \<and> text = key_to_base64 (curve25519_clamp_secret bs) @ [NL] \<and>
           le_value (curve25519_clamp_secret bs) = decode_scalar (le_value bs) \<and>
           pubkey_main key0 [''pubkey''] (text_input text) = Some (0, key_to_base64 pub @ [NL]) \<and>
           length pub = 32 \<and> le_value pub = X25519 (decode_scalar (le_value bs)) 9)"
proof (cases "get_random_bytes src 32")
  case (Some bs)
  have l: "length bs = 32"
    using length_random_bytes [OF assms(1) Some] .
  let ?key = "curve25519_clamp_secret bs"
  have k: "length ?key = 32" "le_value ?key = decode_scalar (le_value bs)"
    using l by (simp_all add: clamp_scalar)
  show ?thesis
    using Some pubkey_of_key [OF assms(2) k(1)] generate_public_x25519 [OF k(1)] k(2)
    by (auto simp: genkey_main_def WG_KEY_LEN_def Let_def decode_scalar_idem)
qed (simp add: genkey_main_def WG_KEY_LEN_def)

definition sample_random :: random_source where
  "sample_random = \<lparr>getentropy = (\<lambda>n. None), getrandom = (\<lambda>n. []), urandom = Some [Read_bytes (replicate 20 7), Read_bytes (replicate 20 9)]\<rparr>"

theorem genkey_pubkey_witness:
  "\<exists>pub. pubkey_main (replicate 32 0) [''pubkey''] (text_input (snd (genkey_main sample_random [''genkey'']))) = Some (0, key_to_base64 pub @ [NL]) \<and>
    le_value pub = X25519 (decode_scalar (le_value (replicate 20 7 @ replicate 12 9))) 9"
proof -
  have "get_random_bytes sample_random 32 = Some (replicate 20 7 @ replicate 12 9)"
    by (simp add: get_random_bytes_def sample_random_def take_replicate)
  then show ?thesis
    using genkey_pubkey [of sample_random "replicate 32 0"] by (auto simp: sample_random_def)
qed

end
