(* ===== verification/Uapi.thy ===== *)
theory Uapi
  imports Showconf
begin

unbundle bit_operations_syntax

text \<open>
  The configuration protocol of a userspace implementation,
  \<open>src/tunnel/tools/amneziawg-tools/src/ipc-uapi.h\<close>: the request \<open>userspace_set_device\<close> writes, its
  reading of the answer, and the device \<open>userspace_get_device\<close> builds from an answer. The stream is
  split in lines as \<open>getline\<close> does; what the peer of the connection answers is an argument, and so are
  the value of \<open>errno\<close> when the answer ends early and the public key of a private key.
\<close>

abbreviation EINVAL :: int where "EINVAL \<equiv> 22"
abbreviation EPROTO :: int where "EPROTO \<equiv> 71"
abbreviation ENETUNREACH :: int where "ENETUNREACH \<equiv> 101"

subsection \<open>The request of set\<close>

definition uapi_line :: "string \<Rightarrow> string \<Rightarrow> string" where
  "uapi_line k v = k @ ''='' @ v @ [NL]"

definition uapi_device_lines :: "wgdevice \<Rightarrow> string" where
  "uapi_device_lines d =
     (let f = dev_flags d in
      print_if (f AND WGDEVICE_HAS_PRIVATE_KEY \<noteq> 0) (uapi_line ''private_key'' (key_to_hex (private_key d))) @
      print_if (f AND WGDEVICE_HAS_LISTEN_PORT \<noteq> 0) (uapi_line ''listen_port'' (show_dec (unat (listen_port d)))) @
      print_if (f AND WGDEVICE_HAS_FWMARK \<noteq> 0) (uapi_line ''fwmark'' (show_dec (unat (fwmark d)))) @
      print_if (f AND WGDEVICE_REPLACE_PEERS \<noteq> 0) (uapi_line ''replace_peers'' ''true'') @
      print_if (f AND WGDEVICE_HAS_JC \<noteq> 0) (uapi_line ''jc'' (show_dec (unat (junk_packet_count d)))) @
      print_if (f AND WGDEVICE_HAS_JMIN \<noteq> 0) (uapi_line ''jmin'' (show_dec (unat (junk_packet_min_size d)))) @
      print_if (f AND WGDEVICE_HAS_JMAX \<noteq> 0) (uapi_line ''jmax'' (show_dec (unat (junk_packet_max_size d)))) @
      print_if (f AND WGDEVICE_HAS_S1 \<noteq> 0) (uapi_line ''s1'' (show_dec (unat (init_packet_junk_size d)))) @
      print_if (f AND WGDEVICE_HAS_S2 \<noteq> 0) (uapi_line ''s2'' (show_dec (unat (response_packet_junk_size d)))) @
      print_if (f AND WGDEVICE_HAS_S3 \<noteq> 0) (uapi_line ''s3'' (show_dec (unat (cookie_reply_packet_junk_size d)))) @
      print_if (f AND WGDEVICE_HAS_S4 \<noteq> 0) (uapi_line ''s4'' (show_dec (unat (transport_packet_junk_size d)))) @
      print_if (f AND WGDEVICE_HAS_H1 \<noteq> 0) (uapi_line ''h1'' (fmt_s (init_packet_magic_header d))) @
      print_if (f AND WGDEVICE_HAS_H2 \<noteq> 0) (uapi_line ''h2'' (fmt_s (response_packet_magic_header d))) @
      print_if (f AND WGDEVICE_HAS_H3 \<noteq> 0) (uapi_line ''h3'' (fmt_s (underload_packet_magic_header d))) @
      print_if (f AND WGDEVICE_HAS_H4 \<noteq> 0) (uapi_line ''h4'' (fmt_s (transport_packet_magic_header d))) @
      print_if (f AND WGDEVICE_HAS_I1 \<noteq> 0) (uapi_line ''i1'' (fmt_s (i1 d))) @
      print_if (f AND WGDEVICE_HAS_I2 \<noteq> 0) (uapi_line ''i2'' (fmt_s (i2 d))) @
      print_if (f AND WGDEVICE_HAS_I3 \<noteq> 0) (uapi_line ''i3'' (fmt_s (i3 d))) @
      print_if (f AND WGDEVICE_HAS_I4 \<noteq> 0) (uapi_line ''i4'' (fmt_s (i4 d))) @
      print_if (f AND WGDEVICE_HAS_I5 \<noteq> 0) (uapi_line ''i5'' (fmt_s (i5 d))))"

fun uapi_allowedip_lines :: "env \<Rightarrow> wgallowedip list \<Rightarrow> string" where
  "uapi_allowedip_lines env [] = []"
| "uapi_allowedip_lines env (a # as) =
     (if family a = AF_INET \<or> family a = AF_INET6
      then uapi_line ''allowed_ip''
             ((if family a = AF_INET then inet_ntop4 env (ip4 a) else inet_ntop6 env (ip6 a)) @ ''/'' @ show_dec (unat (cidr a)))
      else []) @ uapi_allowedip_lines env as"

definition uapi_peer_lines :: "env \<Rightarrow> wgpeer \<Rightarrow> string" where
  "uapi_peer_lines env p =
     print_if (flags p AND WGPEER_HAS_PRESHARED_KEY \<noteq> 0) (uapi_line ''preshared_key'' (key_to_hex (preshared_key p))) @
     (case fmt_endpoint env (endpoint p) of None \<Rightarrow> [] | Some e \<Rightarrow> uapi_line ''endpoint'' e) @
     print_if (flags p AND WGPEER_HAS_PERSISTENT_KEEPALIVE_INTERVAL \<noteq> 0)
       (uapi_line ''persistent_keepalive_interval'' (show_dec (unat (persistent_keepalive_interval p)))) @
     print_if (flags p AND WGPEER_REPLACE_ALLOWEDIPS \<noteq> 0) (uapi_line ''replace_allowed_ips'' ''true'') @
     uapi_allowedip_lines env (allowedips p)"

text \<open>The loop over the peers: what it wrote, and whether it ended without the error of a peer with
  the advanced security flag.\<close>

fun uapi_peers :: "env \<Rightarrow> wgpeer list \<Rightarrow> string \<times> bool" where
  "uapi_peers env [] = ([], True)"
| "uapi_peers env (p # ps) =
     (let pk = uapi_line ''public_key'' (key_to_hex (public_key p))
      in if flags p AND WGPEER_HAS_AWG \<noteq> 0 then (pk, False)
         else let (rest, ok) = uapi_peers env ps
              in (pk @ (if flags p AND WGPEER_REMOVE_ME \<noteq> 0 then uapi_line ''remove'' ''true'' else uapi_peer_lines env p) @ rest, ok))"

subsection \<open>Lines of an answer\<close>

text \<open>What a line of an answer is: the empty line that ends it, a line \<open>getline\<close> and the scan for
  \<open>=\<close> cannot use, or a key and its value.\<close>

datatype uapi_token = End_line | Bad_line | Pair string string

definition uapi_token :: "string \<Rightarrow> uapi_token" where
  "uapi_token line =
     (let key = c_string line
      in if key = [NL] then End_line
         else case strchr key CHR ''='' of
             None \<Rightarrow> Bad_line
           | Some v \<Rightarrow> if last key \<noteq> NL then Bad_line
                       else Pair (takeWhile (\<lambda>c. c \<noteq> CHR ''='') key) (butlast (tl v)))"

text \<open>The errno a set answer reports, and how the loop over the lines ends: with a code, or early
  (\<open>None\<close>).\<close>

definition INT_MAX :: int where "INT_MAX = 2 ^ 31 - 1"
definition INT_MIN :: int where "INT_MIN = - (2 ^ 31)"

definition set_errno_value :: "string \<Rightarrow> int option" where
  "set_errno_value v =
     (if first_char v \<noteq> schar CHR ''-'' \<and> \<not> char_is_digit (first_char v) then None
      else let (num, end) = strtoll 10 v
           in if end \<noteq> [] \<or> num > INT_MAX \<or> num < INT_MIN then None else Some num)"

fun uapi_set_answer :: "int \<Rightarrow> string list \<Rightarrow> int option" where
  "uapi_set_answer set_errno [] = None"
| "uapi_set_answer set_errno (l # ls) =
     (case uapi_token l of
        End_line \<Rightarrow> Some set_errno
      | Bad_line \<Rightarrow> None
      | Pair k v \<Rightarrow>
          if k = ''errno'' then (case set_errno_value v of None \<Rightarrow> None | Some num \<Rightarrow> uapi_set_answer num ls)
          else uapi_set_answer set_errno ls)"

text \<open>\<open>userspace_set_device\<close>: the connection is the error of opening it, or the function from the text
  written to the text answered. The result is the code returned and what was written.\<close>

definition userspace_set_device ::
  "env \<Rightarrow> (string \<Rightarrow> int + (string \<Rightarrow> string)) \<Rightarrow> int \<Rightarrow> wgdevice \<Rightarrow> int \<times> string" where
  "userspace_set_device env interface_file eno d =
     (case interface_file (dev_name d) of
        Inl e \<Rightarrow> (- e, [])
      | Inr server \<Rightarrow>
          let (ps, ok) = uapi_peers env (peers d);
              request = uapi_line ''set'' ''1'' @ uapi_device_lines d @ ps
          in if \<not> ok then (- EINVAL, request)
             else (case uapi_set_answer (- EPROTO) (getlines (server (request @ [NL]))) of
                     Some ret \<Rightarrow> (ret, request @ [NL])
                   | None \<Rightarrow> (if eno \<noteq> 0 then - eno else - EPROTO, request @ [NL])))"

subsection \<open>The answer of get\<close>

record uapi_state =
  udev :: wgdevice
  upeer :: "nat option"
  uallowedip :: "nat option"
  uret :: int

text \<open>How a line ends: the loop goes on, it is left by \<open>break\<close>, or by \<open>goto err\<close> with a code.\<close>

datatype uapi_step = Next uapi_state | Break | Goto_err int

text \<open>The macro \<open>NUM\<close>; \<open>None\<close> is the \<open>break\<close> inside it.\<close>

definition NUM :: "u64 \<Rightarrow> string \<Rightarrow> u64 option" where
  "NUM limit v =
     (if \<not> char_is_digit (first_char v) then None
      else let (num, end) = strtoul 10 v in if end \<noteq> [] \<or> num > limit then None else Some num)"

definition next_if :: "'a option \<Rightarrow> ('a \<Rightarrow> uapi_state) \<Rightarrow> uapi_step" where
  "next_if r f = (case r of None \<Rightarrow> Break | Some x \<Rightarrow> Next (f x))"

definition uset :: "uapi_state \<Rightarrow> u32 \<Rightarrow> (wgdevice \<Rightarrow> wgdevice) \<Rightarrow> uapi_state" where
  "uset s fl f = s\<lparr>udev := (f (udev s))\<lparr>dev_flags := dev_flags (udev s) OR fl\<rparr>\<rparr>"

definition hex_option :: "bool \<times> u8 list \<Rightarrow> u8 list option" where
  "hex_option r = (if fst r then Some (snd r) else None)"

definition uapi_device_keys :: "(u8 list \<Rightarrow> u8 list) \<Rightarrow> uapi_state \<Rightarrow> (string \<times> (string \<Rightarrow> uapi_step)) list" where
  "uapi_device_keys generate_public s =
     [(''private_key'', \<lambda>v. next_if (hex_option (key_from_hex (private_key (udev s)) v)) (\<lambda>k.
         uset s (WGDEVICE_HAS_PRIVATE_KEY OR WGDEVICE_HAS_PUBLIC_KEY) (\<lambda>d. d\<lparr>private_key := k, dev_public_key := generate_public k\<rparr>))),
      (''listen_port'', \<lambda>v. next_if (NUM 0xffff v) (\<lambda>n. uset s WGDEVICE_HAS_LISTEN_PORT (listen_port_update (\<lambda>_. ucast n)))),
      (''fwmark'', \<lambda>v. next_if (NUM 0xffffffff v) (\<lambda>n. uset s WGDEVICE_HAS_FWMARK (fwmark_update (\<lambda>_. ucast n)))),
      (''jc'', \<lambda>v. next_if (NUM 0xffff v) (\<lambda>n. uset s WGDEVICE_HAS_JC (junk_packet_count_update (\<lambda>_. ucast n)))),
      (''jmin'', \<lambda>v. next_if (NUM 0xffff v) (\<lambda>n. uset s WGDEVICE_HAS_JMIN (junk_packet_min_size_update (\<lambda>_. ucast n)))),
      (''jmax'', \<lambda>v. next_if (NUM 0xffff v) (\<lambda>n. uset s WGDEVICE_HAS_JMAX (junk_packet_max_size_update (\<lambda>_. ucast n)))),
      (''s1'', \<lambda>v. next_if (NUM 0xffff v) (\<lambda>n. uset s WGDEVICE_HAS_S1 (init_packet_junk_size_update (\<lambda>_. ucast n)))),
      (''s2'', \<lambda>v. next_if (NUM 0xffff v) (\<lambda>n. uset s WGDEVICE_HAS_S2 (response_packet_junk_size_update (\<lambda>_. ucast n)))),
      (''s3'', \<lambda>v. next_if (NUM 0xffff v) (\<lambda>n. uset s WGDEVICE_HAS_S3 (cookie_reply_packet_junk_size_update (\<lambda>_. ucast n)))),
      (''s4'', \<lambda>v. next_if (NUM 0xffff v) (\<lambda>n. uset s WGDEVICE_HAS_S4 (transport_packet_junk_size_update (\<lambda>_. ucast n)))),
      (''h1'', \<lambda>v. Next (uset s WGDEVICE_HAS_H1 (init_packet_magic_header_update (\<lambda>_. Some v)))),
      (''h2'', \<lambda>v. Next (uset s WGDEVICE_HAS_H2 (response_packet_magic_header_update (\<lambda>_. Some v)))),
      (''h3'', \<lambda>v. Next (uset s WGDEVICE_HAS_H3 (underload_packet_magic_header_update (\<lambda>_. Some v)))),
      (''h4'', \<lambda>v. Next (uset s WGDEVICE_HAS_H4 (transport_packet_magic_header_update (\<lambda>_. Some v)))),
      (''i1'', \<lambda>v. Next (uset s WGDEVICE_HAS_I1 (i1_update (\<lambda>_. Some v)))),
      (''i2'', \<lambda>v. Next (uset s WGDEVICE_HAS_I2 (i2_update (\<lambda>_. Some v)))),
      (''i3'', \<lambda>v. Next (uset s WGDEVICE_HAS_I3 (i3_update (\<lambda>_. Some v)))),
      (''i4'', \<lambda>v. Next (uset s WGDEVICE_HAS_I4 (i4_update (\<lambda>_. Some v)))),
      (''i5'', \<lambda>v. Next (uset s WGDEVICE_HAS_I5 (i5_update (\<lambda>_. Some v))))]"

definition uapi_new_peer :: "uapi_state \<Rightarrow> string \<Rightarrow> uapi_step" where
  "uapi_new_peer s v =
     next_if (hex_option (key_from_hex (public_key zero_peer) v)) (\<lambda>k.
       s\<lparr>udev := (udev s)\<lparr>peers := link_node (peers (udev s)) (upeer s)
                 (zero_peer\<lparr>public_key := k, flags := WGPEER_HAS_PUBLIC_KEY\<rparr>)\<rparr>,
         upeer := linked_cursor (upeer s), uallowedip := None\<rparr>)"

text \<open>The change of the peer the cursor \<open>peer\<close> points to.\<close>

definition uapi_upd :: "uapi_state \<Rightarrow> nat \<Rightarrow> (wgpeer \<Rightarrow> wgpeer) \<Rightarrow> uapi_state" where
  "uapi_upd s i f = s\<lparr>udev := (udev s)\<lparr>peers := (peers (udev s))[i := f (peers (udev s) ! i)]\<rparr>\<rparr>"

definition uapi_endpoint :: "env \<Rightarrow> uapi_state \<Rightarrow> nat \<Rightarrow> string \<Rightarrow> uapi_step" where
  "uapi_endpoint env s i v =
     (if v = [] then Break
      else case split_endpoint v of
          Inl e \<Rightarrow> Break
        | Inr (host, port) \<Rightarrow>
            (case getaddrinfo env 0 host port of
               Gai_error e \<Rightarrow> Goto_err ENETUNREACH
             | Resolved a \<Rightarrow> if a = SA_UNSPEC then Break else Next (uapi_upd s i (\<lambda>p. p\<lparr>endpoint := a\<rparr>))))"

definition uapi_allowedip :: "env \<Rightarrow> string \<Rightarrow> wgallowedip option" where
  "uapi_allowedip env v =
     (case strsep v CHR ''/'' of
        (s, None) \<Rightarrow> None
      | (s, Some m) \<Rightarrow>
          if \<not> char_is_digit (first_char m) then None
          else let a = (if strchr s CHR '':'' \<noteq> None
                        then (case inet_pton6 env s of None \<Rightarrow> zero_allowedip | Some i \<Rightarrow> zero_allowedip\<lparr>family := AF_INET6, ip := i\<rparr>)
                        else (case inet_pton4 env s of None \<Rightarrow> zero_allowedip
                              | Some i \<Rightarrow> zero_allowedip\<lparr>family := AF_INET, ip := i @ replicate 12 0\<rparr>));
                   (num, end) = strtoul 10 m;
                   a = a\<lparr>cidr := ucast num\<rparr>
               in if end \<noteq> [] \<or> family a = AF_UNSPEC \<or> (family a = AF_INET6 \<and> cidr a > 128) \<or> (family a = AF_INET \<and> cidr a > 32)
                  then None else Some a)"

definition uapi_peer_keys :: "env \<Rightarrow> uapi_state \<Rightarrow> nat \<Rightarrow> (string \<times> (string \<Rightarrow> uapi_step)) list" where
  "uapi_peer_keys env s i =
     [(''preshared_key'', \<lambda>v. next_if (hex_option (key_from_hex (preshared_key (peers (udev s) ! i)) v)) (\<lambda>k.
         uapi_upd s i (\<lambda>p. p\<lparr>preshared_key := k,
           flags := (if \<not> key_is_zero k then flags p OR WGPEER_HAS_PRESHARED_KEY else flags p)\<rparr>))),
      (''endpoint'', uapi_endpoint env s i),
      (''persistent_keepalive_interval'', \<lambda>v. next_if (NUM 0xffff v) (\<lambda>n.
         uapi_upd s i (\<lambda>p. p\<lparr>persistent_keepalive_interval := ucast n,
           flags := flags p OR WGPEER_HAS_PERSISTENT_KEEPALIVE_INTERVAL\<rparr>))),
      (''allowed_ip'', \<lambda>v. next_if (uapi_allowedip env v) (\<lambda>a.
         (uapi_upd s i (\<lambda>p. p\<lparr>allowedips := link_node (allowedips p) (uallowedip s) a\<rparr>))\<lparr>uallowedip := linked_cursor (uallowedip s)\<rparr>)),
      (''last_handshake_time_sec'', \<lambda>v. next_if (NUM 0x7fffffffffffffff v) (\<lambda>n.
         uapi_upd s i (\<lambda>p. p\<lparr>last_handshake_time := (last_handshake_time p)\<lparr>tv_sec := n\<rparr>\<rparr>))),
      (''last_handshake_time_nsec'', \<lambda>v. next_if (NUM 0x7fffffffffffffff v) (\<lambda>n.
         uapi_upd s i (\<lambda>p. p\<lparr>last_handshake_time := (last_handshake_time p)\<lparr>tv_nsec := n\<rparr>\<rparr>))),
      (''rx_bytes'', \<lambda>v. next_if (NUM 0xffffffffffffffff v) (\<lambda>n. uapi_upd s i (\<lambda>p. p\<lparr>rx_bytes := n\<rparr>))),
      (''tx_bytes'', \<lambda>v. next_if (NUM 0xffffffffffffffff v) (\<lambda>n. uapi_upd s i (\<lambda>p. p\<lparr>tx_bytes := n\<rparr>)))]"

text \<open>One line: the keys the chain of comparisons knows in this state; another key is ignored.\<close>

definition uapi_get_pair :: "env \<Rightarrow> (u8 list \<Rightarrow> u8 list) \<Rightarrow> uapi_state \<Rightarrow> string \<Rightarrow> string \<Rightarrow> uapi_step" where
  "uapi_get_pair env generate_public s k v =
     (case map_of ((case upeer s of None \<Rightarrow> uapi_device_keys generate_public s | Some i \<Rightarrow> uapi_peer_keys env s i) @
                   [(''public_key'', uapi_new_peer s),
                    (''errno'', \<lambda>v. next_if (NUM 0x7fffffff v) (\<lambda>n. s\<lparr>uret := - uint n\<rparr>))]) k of
        None \<Rightarrow> Next s
      | Some h \<Rightarrow> h v)"

fun uapi_get_lines :: "env \<Rightarrow> (u8 list \<Rightarrow> u8 list) \<Rightarrow> uapi_state \<Rightarrow> string list \<Rightarrow> int \<times> wgdevice" where
  "uapi_get_lines env gp s [] = (- EPROTO, udev s)"
| "uapi_get_lines env gp s (l # ls) =
     (case uapi_token l of
        End_line \<Rightarrow> (uret s, udev s)
      | Bad_line \<Rightarrow> (- EPROTO, udev s)
      | Pair k v \<Rightarrow>
          (case uapi_get_pair env gp s k v of
             Next s \<Rightarrow> uapi_get_lines env gp s ls
           | Break \<Rightarrow> (- EPROTO, udev s)
           | Goto_err e \<Rightarrow> (e, udev s)))"

definition uapi_init :: "string \<Rightarrow> uapi_state" where
  "uapi_init iface = \<lparr>udev = zero_device\<lparr>dev_name := take (IFNAMSIZ - 1) iface\<rparr>, upeer = None, uallowedip = None, uret = - EPROTO\<rparr>"

text \<open>The code returned, and the device \<open>*out\<close> points to (\<open>None\<close> is a null pointer).\<close>

definition userspace_get_device ::
  "env \<Rightarrow> (u8 list \<Rightarrow> u8 list) \<Rightarrow> (string \<Rightarrow> int + (string \<Rightarrow> string)) \<Rightarrow> string \<Rightarrow> int \<times> wgdevice option" where
  "userspace_get_device env gp interface_file iface =
     (case interface_file iface of
        Inl e \<Rightarrow> (- e, None)
      | Inr server \<Rightarrow>
          let (ret, d) = uapi_get_lines env gp (uapi_init iface) (getlines (server (uapi_line ''get'' ''1'' @ [NL])))
          in (ret, if ret \<noteq> 0 then None else Some d))"

subsection \<open>Reading the lines that are written\<close>

definition uapi_value :: "string \<Rightarrow> bool" where
  "uapi_value v = (CHR 0x00 \<notin> set v \<and> NL \<notin> set v)"

definition uapi_key :: "string \<Rightarrow> bool" where
  "uapi_key k = (uapi_value k \<and> CHR ''='' \<notin> set k)"

lemma uapi_keys [simp]:
  "uapi_key ''private_key''" "uapi_key ''listen_port''" "uapi_key ''fwmark''" "uapi_key ''replace_peers''" "uapi_key ''jc''"
  "uapi_key ''jmin''" "uapi_key ''jmax''" "uapi_key ''s1''" "uapi_key ''s2''" "uapi_key ''s3''" "uapi_key ''s4''" "uapi_key ''h1''"
  "uapi_key ''h2''" "uapi_key ''h3''" "uapi_key ''h4''" "uapi_key ''i1''" "uapi_key ''i2''" "uapi_key ''i3''" "uapi_key ''i4''"
  "uapi_key ''i5''" "uapi_key ''public_key''" "uapi_key ''preshared_key''" "uapi_key ''endpoint''"
  "uapi_key ''persistent_keepalive_interval''" "uapi_key ''replace_allowed_ips''" "uapi_key ''allowed_ip''" "uapi_key ''set''"
  "uapi_key ''errno''"
  by (simp_all add: uapi_key_def uapi_value_def)

lemma word_value_uapi [simp]: "word_value v \<Longrightarrow> uapi_value v"
  by (simp add: word_value_def text_value_def uapi_value_def)

lemma uapi_token_line:
  assumes "uapi_key k" and "uapi_value v"
  shows "uapi_token (k @ CHR ''='' # v @ [NL]) = Pair k v"
proof -
  have "c_string (k @ CHR ''='' # v @ [NL]) = k @ CHR ''='' # v @ [NL]"
    using assms by (auto simp: c_string_def uapi_key_def uapi_value_def takeWhile_eq_all_conv)
  moreover have "k @ CHR ''='' # v @ [NL] \<noteq> [NL]"
    by (cases k) auto
  moreover have "strchr (k @ CHR ''='' # v @ [NL]) CHR ''='' = Some (CHR ''='' # v @ [NL])"
    "takeWhile (\<lambda>c. c \<noteq> CHR ''='') (k @ CHR ''='' # v @ [NL]) = k"
    using assms(1) split_at_char [of "CHR ''=''" k "v @ [NL]"] by (simp_all add: strchr_def uapi_key_def)
  ultimately show ?thesis
    by (simp add: uapi_token_def)
qed

definition uapi_text :: "env \<Rightarrow> (u8 list \<Rightarrow> u8 list) \<Rightarrow> uapi_state \<Rightarrow> string \<Rightarrow> int \<times> wgdevice" where
  "uapi_text env gp s t = uapi_get_lines env gp s (getlines t)"

lemma uapi_text_line:
  assumes "uapi_key k" and "uapi_value v" and "uapi_get_pair env gp s k v = Next s'"
  shows "uapi_text env gp s (uapi_line k v @ rest) = uapi_text env gp s' rest"
proof -
  have "getlines (uapi_line k v @ rest) = (k @ CHR ''='' # v @ [NL]) # getlines rest"
    using getlines_line [of "k @ CHR ''='' # v" rest] assms(1,2) by (simp add: uapi_line_def uapi_key_def uapi_value_def)
  then show ?thesis
    using uapi_token_line [OF assms(1,2)] assms(3) by (simp add: uapi_text_def)
qed

lemma NUM_show:
  assumes "n \<le> unat m"
  shows "NUM m (show_dec n) = Some (of_nat n)"
proof -
  have b: "n < 2 ^ 64"
    using assms unsigned_less [of m, where 'a = nat] by simp
  have st: "strtoul 10 (show_dec n) = (of_nat n, [])"
    using strtoul_show_dec [of n "[]"] b by simp
  have d: "char_is_digit (first_char (show_dec n))"
    using hd_show_dec [of n "[]"] by (simp add: isdigit_first_char)
  have "\<not> (of_nat n :: u64) > m"
    using b assms by (simp add: word_less_nat_alt unat_of_nat take_bit_nat_eq_self)
  then show ?thesis
    by (simp add: NUM_def st d)
qed

lemma NUM_show_u16 [simp]: "NUM 0xffff (show_dec (unat (v :: u16))) = Some (ucast v)"
  using NUM_show [of "unat v" "0xffff"] unsigned_less [of v, where 'a = nat] by simp

lemma NUM_show_u32 [simp]: "NUM 0xffffffff (show_dec (unat (v :: u32))) = Some (ucast v)"
  using NUM_show [of "unat v" "0xffffffff"] unsigned_less [of v, where 'a = nat] by simp

lemma ucast_up_down [simp]: "(ucast (ucast (v :: u16) :: u64) :: u16) = v" "(ucast (ucast (w :: u32) :: u64) :: u32) = w"
  by (rule bit_word_eqI, simp add: bit_simps)+

lemma uapi_device_pairs:
  assumes "upeer s = None"
  shows
    "uapi_get_pair env gp s ''private_key'' v = next_if (hex_option (key_from_hex (private_key (udev s)) v)) (\<lambda>k.
       uset s (WGDEVICE_HAS_PRIVATE_KEY OR WGDEVICE_HAS_PUBLIC_KEY) (\<lambda>d. d\<lparr>private_key := k, dev_public_key := gp k\<rparr>))"
    "uapi_get_pair env gp s ''listen_port'' v = next_if (NUM 0xffff v) (\<lambda>n. uset s WGDEVICE_HAS_LISTEN_PORT (listen_port_update (\<lambda>_. ucast n)))"
    "uapi_get_pair env gp s ''fwmark'' v = next_if (NUM 0xffffffff v) (\<lambda>n. uset s WGDEVICE_HAS_FWMARK (fwmark_update (\<lambda>_. ucast n)))"
    "uapi_get_pair env gp s ''jc'' v = next_if (NUM 0xffff v) (\<lambda>n. uset s WGDEVICE_HAS_JC (junk_packet_count_update (\<lambda>_. ucast n)))"
    "uapi_get_pair env gp s ''jmin'' v = next_if (NUM 0xffff v) (\<lambda>n. uset s WGDEVICE_HAS_JMIN (junk_packet_min_size_update (\<lambda>_. ucast n)))"
    "uapi_get_pair env gp s ''jmax'' v = next_if (NUM 0xffff v) (\<lambda>n. uset s WGDEVICE_HAS_JMAX (junk_packet_max_size_update (\<lambda>_. ucast n)))"
    "uapi_get_pair env gp s ''s1'' v = next_if (NUM 0xffff v) (\<lambda>n. uset s WGDEVICE_HAS_S1 (init_packet_junk_size_update (\<lambda>_. ucast n)))"
    "uapi_get_pair env gp s ''s2'' v = next_if (NUM 0xffff v) (\<lambda>n. uset s WGDEVICE_HAS_S2 (response_packet_junk_size_update (\<lambda>_. ucast n)))"
    "uapi_get_pair env gp s ''s3'' v = next_if (NUM 0xffff v) (\<lambda>n. uset s WGDEVICE_HAS_S3 (cookie_reply_packet_junk_size_update (\<lambda>_. ucast n)))"
    "uapi_get_pair env gp s ''s4'' v = next_if (NUM 0xffff v) (\<lambda>n. uset s WGDEVICE_HAS_S4 (transport_packet_junk_size_update (\<lambda>_. ucast n)))"
    "uapi_get_pair env gp s ''h1'' v = Next (uset s WGDEVICE_HAS_H1 (init_packet_magic_header_update (\<lambda>_. Some v)))"
    "uapi_get_pair env gp s ''h2'' v = Next (uset s WGDEVICE_HAS_H2 (response_packet_magic_header_update (\<lambda>_. Some v)))"
    "uapi_get_pair env gp s ''h3'' v = Next (uset s WGDEVICE_HAS_H3 (underload_packet_magic_header_update (\<lambda>_. Some v)))"
    "uapi_get_pair env gp s ''h4'' v = Next (uset s WGDEVICE_HAS_H4 (transport_packet_magic_header_update (\<lambda>_. Some v)))"
    "uapi_get_pair env gp s ''i1'' v = Next (uset s WGDEVICE_HAS_I1 (i1_update (\<lambda>_. Some v)))"
    "uapi_get_pair env gp s ''i2'' v = Next (uset s WGDEVICE_HAS_I2 (i2_update (\<lambda>_. Some v)))"
    "uapi_get_pair env gp s ''i3'' v = Next (uset s WGDEVICE_HAS_I3 (i3_update (\<lambda>_. Some v)))"
    "uapi_get_pair env gp s ''i4'' v = Next (uset s WGDEVICE_HAS_I4 (i4_update (\<lambda>_. Some v)))"
    "uapi_get_pair env gp s ''i5'' v = Next (uset s WGDEVICE_HAS_I5 (i5_update (\<lambda>_. Some v)))"
    "uapi_get_pair env gp s ''replace_peers'' v = Next s"
    "uapi_get_pair env gp s ''set'' v = Next s"
  using assms by (simp_all add: uapi_get_pair_def uapi_device_keys_def)

lemma uapi_put:
  assumes "f AND fl \<noteq> 0 \<Longrightarrow> uapi_value v \<and> uapi_get_pair env gp s k v = Next (uset s fl (upd (\<lambda>_. x)))" and "uapi_key k"
  shows "uapi_text env gp s (print_if (f AND fl \<noteq> 0) (uapi_line k v) @ rest)
    = uapi_text env gp (s\<lparr>udev := put_flagged f fl upd x (udev s)\<rparr>) rest"
  using assms uapi_text_line [of k v env gp s "uset s fl (upd (\<lambda>_. x))" rest]
  by (auto simp: print_if_def put_flagged_def uset_def)

definition uapi_string_ok :: "bool \<Rightarrow> string option \<Rightarrow> bool" where
  "uapi_string_ok present s = (present \<longrightarrow> (case s of None \<Rightarrow> False | Some v \<Rightarrow> uapi_value v))"

lemma uapi_put_counts:
  assumes "upeer s = None"
  shows
    "uapi_text env gp s (print_if (f AND WGDEVICE_HAS_LISTEN_PORT \<noteq> 0) (uapi_line ''listen_port'' (show_dec (unat v))) @ rest)
      = uapi_text env gp (s\<lparr>udev := put_flagged f WGDEVICE_HAS_LISTEN_PORT listen_port_update v (udev s)\<rparr>) rest"
    "uapi_text env gp s (print_if (f AND WGDEVICE_HAS_FWMARK \<noteq> 0) (uapi_line ''fwmark'' (show_dec (unat w))) @ rest)
      = uapi_text env gp (s\<lparr>udev := put_flagged f WGDEVICE_HAS_FWMARK fwmark_update w (udev s)\<rparr>) rest"
    "uapi_text env gp s (print_if (f AND WGDEVICE_HAS_JC \<noteq> 0) (uapi_line ''jc'' (show_dec (unat v))) @ rest)
      = uapi_text env gp (s\<lparr>udev := put_flagged f WGDEVICE_HAS_JC junk_packet_count_update v (udev s)\<rparr>) rest"
    "uapi_text env gp s (print_if (f AND WGDEVICE_HAS_JMIN \<noteq> 0) (uapi_line ''jmin'' (show_dec (unat v))) @ rest)
      = uapi_text env gp (s\<lparr>udev := put_flagged f WGDEVICE_HAS_JMIN junk_packet_min_size_update v (udev s)\<rparr>) rest"
    "uapi_text env gp s (print_if (f AND WGDEVICE_HAS_JMAX \<noteq> 0) (uapi_line ''jmax'' (show_dec (unat v))) @ rest)
      = uapi_text env gp (s\<lparr>udev := put_flagged f WGDEVICE_HAS_JMAX junk_packet_max_size_update v (udev s)\<rparr>) rest"
    "uapi_text env gp s (print_if (f AND WGDEVICE_HAS_S1 \<noteq> 0) (uapi_line ''s1'' (show_dec (unat v))) @ rest)
      = uapi_text env gp (s\<lparr>udev := put_flagged f WGDEVICE_HAS_S1 init_packet_junk_size_update v (udev s)\<rparr>) rest"
    "uapi_text env gp s (print_if (f AND WGDEVICE_HAS_S2 \<noteq> 0) (uapi_line ''s2'' (show_dec (unat v))) @ rest)
      = uapi_text env gp (s\<lparr>udev := put_flagged f WGDEVICE_HAS_S2 response_packet_junk_size_update v (udev s)\<rparr>) rest"
    "uapi_text env gp s (print_if (f AND WGDEVICE_HAS_S3 \<noteq> 0) (uapi_line ''s3'' (show_dec (unat v))) @ rest)
      = uapi_text env gp (s\<lparr>udev := put_flagged f WGDEVICE_HAS_S3 cookie_reply_packet_junk_size_update v (udev s)\<rparr>) rest"
    "uapi_text env gp s (print_if (f AND WGDEVICE_HAS_S4 \<noteq> 0) (uapi_line ''s4'' (show_dec (unat v))) @ rest)
      = uapi_text env gp (s\<lparr>udev := put_flagged f WGDEVICE_HAS_S4 transport_packet_junk_size_update v (udev s)\<rparr>) rest"
  by (rule uapi_put; simp add: uapi_device_pairs [OF assms] next_if_def)+

lemma uapi_put_string:
  assumes "uapi_key k" and "uapi_string_ok (f AND fl \<noteq> 0) t"
    and "\<And>v. uapi_get_pair env gp s k v = Next (uset s fl (upd (\<lambda>_. Some v)))"
  shows "uapi_text env gp s (print_if (f AND fl \<noteq> 0) (uapi_line k (fmt_s t)) @ rest)
    = uapi_text env gp (s\<lparr>udev := put_flagged f fl upd t (udev s)\<rparr>) rest"
proof (rule uapi_put [OF _ assms(1)])
  assume "f AND fl \<noteq> 0"
  then obtain v where "t = Some v" "uapi_value v"
    using assms(2) by (auto simp: uapi_string_ok_def split: option.splits)
  then show "uapi_value (fmt_s t) \<and> uapi_get_pair env gp s k (fmt_s t) = Next (uset s fl (upd (\<lambda>_. t)))"
    using assms(3) by (simp add: fmt_s_def)
qed

lemma uapi_put_strings:
  assumes "upeer s = None"
  shows
    "uapi_string_ok (f AND WGDEVICE_HAS_H1 \<noteq> 0) t \<Longrightarrow> uapi_text env gp s (print_if (f AND WGDEVICE_HAS_H1 \<noteq> 0) (uapi_line ''h1'' (fmt_s t)) @ rest)
      = uapi_text env gp (s\<lparr>udev := put_flagged f WGDEVICE_HAS_H1 init_packet_magic_header_update t (udev s)\<rparr>) rest"
    "uapi_string_ok (f AND WGDEVICE_HAS_H2 \<noteq> 0) t \<Longrightarrow> uapi_text env gp s (print_if (f AND WGDEVICE_HAS_H2 \<noteq> 0) (uapi_line ''h2'' (fmt_s t)) @ rest)
      = uapi_text env gp (s\<lparr>udev := put_flagged f WGDEVICE_HAS_H2 response_packet_magic_header_update t (udev s)\<rparr>) rest"
    "uapi_string_ok (f AND WGDEVICE_HAS_H3 \<noteq> 0) t \<Longrightarrow> uapi_text env gp s (print_if (f AND WGDEVICE_HAS_H3 \<noteq> 0) (uapi_line ''h3'' (fmt_s t)) @ rest)
      = uapi_text env gp (s\<lparr>udev := put_flagged f WGDEVICE_HAS_H3 underload_packet_magic_header_update t (udev s)\<rparr>) rest"
    "uapi_string_ok (f AND WGDEVICE_HAS_H4 \<noteq> 0) t \<Longrightarrow> uapi_text env gp s (print_if (f AND WGDEVICE_HAS_H4 \<noteq> 0) (uapi_line ''h4'' (fmt_s t)) @ rest)
      = uapi_text env gp (s\<lparr>udev := put_flagged f WGDEVICE_HAS_H4 transport_packet_magic_header_update t (udev s)\<rparr>) rest"
    "uapi_string_ok (f AND WGDEVICE_HAS_I1 \<noteq> 0) t \<Longrightarrow> uapi_text env gp s (print_if (f AND WGDEVICE_HAS_I1 \<noteq> 0) (uapi_line ''i1'' (fmt_s t)) @ rest)
      = uapi_text env gp (s\<lparr>udev := put_flagged f WGDEVICE_HAS_I1 i1_update t (udev s)\<rparr>) rest"
    "uapi_string_ok (f AND WGDEVICE_HAS_I2 \<noteq> 0) t \<Longrightarrow> uapi_text env gp s (print_if (f AND WGDEVICE_HAS_I2 \<noteq> 0) (uapi_line ''i2'' (fmt_s t)) @ rest)
      = uapi_text env gp (s\<lparr>udev := put_flagged f WGDEVICE_HAS_I2 i2_update t (udev s)\<rparr>) rest"
    "uapi_string_ok (f AND WGDEVICE_HAS_I3 \<noteq> 0) t \<Longrightarrow> uapi_text env gp s (print_if (f AND WGDEVICE_HAS_I3 \<noteq> 0) (uapi_line ''i3'' (fmt_s t)) @ rest)
      = uapi_text env gp (s\<lparr>udev := put_flagged f WGDEVICE_HAS_I3 i3_update t (udev s)\<rparr>) rest"
    "uapi_string_ok (f AND WGDEVICE_HAS_I4 \<noteq> 0) t \<Longrightarrow> uapi_text env gp s (print_if (f AND WGDEVICE_HAS_I4 \<noteq> 0) (uapi_line ''i4'' (fmt_s t)) @ rest)
      = uapi_text env gp (s\<lparr>udev := put_flagged f WGDEVICE_HAS_I4 i4_update t (udev s)\<rparr>) rest"
    "uapi_string_ok (f AND WGDEVICE_HAS_I5 \<noteq> 0) t \<Longrightarrow> uapi_text env gp s (print_if (f AND WGDEVICE_HAS_I5 \<noteq> 0) (uapi_line ''i5'' (fmt_s t)) @ rest)
      = uapi_text env gp (s\<lparr>udev := put_flagged f WGDEVICE_HAS_I5 i5_update t (udev s)\<rparr>) rest"
  by (rule uapi_put_string; simp add: uapi_device_pairs [OF assms])+

text \<open>The public key that goes with the private key.\<close>

definition put_private_key :: "(u8 list \<Rightarrow> u8 list) \<Rightarrow> u32 \<Rightarrow> u8 list \<Rightarrow> wgdevice \<Rightarrow> wgdevice" where
  "put_private_key gp f k d =
     d\<lparr>private_key := (if f AND WGDEVICE_HAS_PRIVATE_KEY \<noteq> 0 then k else private_key d),
       dev_public_key := (if f AND WGDEVICE_HAS_PRIVATE_KEY \<noteq> 0 then gp k else dev_public_key d),
       dev_flags := dev_flags d OR (if f AND WGDEVICE_HAS_PRIVATE_KEY \<noteq> 0 then WGDEVICE_HAS_PRIVATE_KEY OR WGDEVICE_HAS_PUBLIC_KEY else 0)\<rparr>"

lemma hex_option_key:
  assumes "length buf = WG_KEY_LEN" and "length k = WG_KEY_LEN"
  shows "hex_option (key_from_hex buf (key_to_hex k)) = Some k"
  using hex.dec_enc [of buf k] assms by (simp add: hex_option_def)

lemma uapi_put_private_key:
  assumes "upeer s = None" and "length (private_key (udev s)) = WG_KEY_LEN" and "length k = WG_KEY_LEN"
  shows "uapi_text env gp s (print_if (f AND WGDEVICE_HAS_PRIVATE_KEY \<noteq> 0) (uapi_line ''private_key'' (key_to_hex k)) @ rest)
    = uapi_text env gp (s\<lparr>udev := put_private_key gp f k (udev s)\<rparr>) rest"
proof -
  have "uapi_value (key_to_hex k)"
    using hex.word_value_enc [of k] assms(3) by simp
  then show ?thesis
    using assms uapi_text_line [OF uapi_keys(1), of "key_to_hex k" env gp s]
    by (simp add: print_if_def uapi_device_pairs hex_option_key next_if_def put_private_key_def uset_def)
qed

lemma uapi_ignore:
  assumes "upeer s = None"
  shows "uapi_text env gp s (print_if c (uapi_line ''replace_peers'' ''true'') @ rest) = uapi_text env gp s rest"
    "uapi_text env gp s (uapi_line ''set'' ''1'' @ rest) = uapi_text env gp s rest"
  using uapi_text_line [of "''replace_peers''" "''true''" env gp s s rest] uapi_text_line [of "''set''" "''1''" env gp s s rest]
  by (simp_all add: print_if_def uapi_device_pairs [OF assms] uapi_value_def)

definition uapi_strings :: "wgdevice \<Rightarrow> bool" where
  "uapi_strings d \<longleftrightarrow> (let f = dev_flags d in
     uapi_string_ok (f AND WGDEVICE_HAS_H1 \<noteq> 0) (init_packet_magic_header d) \<and>
     uapi_string_ok (f AND WGDEVICE_HAS_H2 \<noteq> 0) (response_packet_magic_header d) \<and>
     uapi_string_ok (f AND WGDEVICE_HAS_H3 \<noteq> 0) (underload_packet_magic_header d) \<and>
     uapi_string_ok (f AND WGDEVICE_HAS_H4 \<noteq> 0) (transport_packet_magic_header d) \<and>
     uapi_string_ok (f AND WGDEVICE_HAS_I1 \<noteq> 0) (i1 d) \<and>
     uapi_string_ok (f AND WGDEVICE_HAS_I2 \<noteq> 0) (i2 d) \<and>
     uapi_string_ok (f AND WGDEVICE_HAS_I3 \<noteq> 0) (i3 d) \<and>
     uapi_string_ok (f AND WGDEVICE_HAS_I4 \<noteq> 0) (i4 d) \<and>
     uapi_string_ok (f AND WGDEVICE_HAS_I5 \<noteq> 0) (i5 d))"

definition load_uapi :: "(u8 list \<Rightarrow> u8 list) \<Rightarrow> wgdevice \<Rightarrow> wgdevice \<Rightarrow> wgdevice" where
  "load_uapi gp d d0 = load_params d
     (put_flagged (dev_flags d) WGDEVICE_HAS_FWMARK fwmark_update (fwmark d)
     (put_flagged (dev_flags d) WGDEVICE_HAS_LISTEN_PORT listen_port_update (listen_port d)
     (put_private_key gp (dev_flags d) (private_key d) d0)))"

lemma uapi_state_dev:
  "upeer (s\<lparr>udev := d\<rparr>) = upeer s" "udev (s\<lparr>udev := d\<rparr>) = d" "s\<lparr>udev := d, udev := d'\<rparr> = s\<lparr>udev := d'\<rparr>"
  by simp_all

lemma uapi_read_device:
  assumes "uapi_strings d" and "upeer s = None" and "length (private_key (udev s)) = WG_KEY_LEN" and "length (private_key d) = WG_KEY_LEN"
  shows "uapi_text env gp s (uapi_device_lines d @ rest)
    = uapi_text env gp (s\<lparr>udev := load_uapi gp d (udev s)\<rparr>) rest"
proof -
  note strings = assms(1) [unfolded uapi_strings_def Let_def]
  show ?thesis
    unfolding uapi_device_lines_def Let_def append_assoc load_uapi_def load_params_def
    by (simp only: uapi_put_private_key uapi_put_counts uapi_put_strings uapi_ignore uapi_state_dev assms(2-4) strings)
qed

text \<open>What the interface reports of the device it was given.\<close>

definition reported_interface :: "(u8 list \<Rightarrow> u8 list) \<Rightarrow> wgdevice \<Rightarrow> wgdevice" where
  "reported_interface gp d = d\<lparr>dev_name := take (IFNAMSIZ - 1) (dev_name d), ifindex := 0, peers := [],
     dev_public_key := (if dev_flags d AND WGDEVICE_HAS_PRIVATE_KEY \<noteq> 0 then gp (private_key d) else replicate WG_KEY_LEN 0),
     dev_flags := (dev_flags d AND (WGDEVICE_HAS_PRIVATE_KEY OR WGDEVICE_HAS_LISTEN_PORT OR WGDEVICE_HAS_FWMARK OR AWG_FLAGS)) OR
       (if dev_flags d AND WGDEVICE_HAS_PRIVATE_KEY \<noteq> 0 then WGDEVICE_HAS_PUBLIC_KEY else 0)\<rparr>"

lemma put_flagged_base:
  "put_flagged f WGDEVICE_HAS_LISTEN_PORT listen_port_update v d = d\<lparr>listen_port := (if f AND WGDEVICE_HAS_LISTEN_PORT \<noteq> 0 then v else listen_port d),
     dev_flags := dev_flags d OR (f AND WGDEVICE_HAS_LISTEN_PORT)\<rparr>"
  "put_flagged f WGDEVICE_HAS_FWMARK fwmark_update w d = d\<lparr>fwmark := (if f AND WGDEVICE_HAS_FWMARK \<noteq> 0 then w else fwmark d),
     dev_flags := dev_flags d OR (f AND WGDEVICE_HAS_FWMARK)\<rparr>"
  using flag_and_self [OF WGDEVICE_HAS_LISTEN_PORT_def, of f] flag_and_self [OF WGDEVICE_HAS_FWMARK_def, of f]
  by (auto simp: put_flagged_def)

lemma reported_flags:
  "(((0 OR (if f AND WGDEVICE_HAS_PRIVATE_KEY \<noteq> 0 then WGDEVICE_HAS_PRIVATE_KEY OR WGDEVICE_HAS_PUBLIC_KEY else 0)) OR
      (f AND WGDEVICE_HAS_LISTEN_PORT)) OR (f AND WGDEVICE_HAS_FWMARK)) OR (f AND AWG_FLAGS)
   = (f AND (WGDEVICE_HAS_PRIVATE_KEY OR WGDEVICE_HAS_LISTEN_PORT OR WGDEVICE_HAS_FWMARK OR AWG_FLAGS)) OR
       (if f AND WGDEVICE_HAS_PRIVATE_KEY \<noteq> 0 then WGDEVICE_HAS_PUBLIC_KEY else 0)"
  using flag_and_self [OF WGDEVICE_HAS_PRIVATE_KEY_def, of f]
  by (auto simp: bit.conj_disj_distrib ac_simps)

definition uapi_unset :: "wgdevice \<Rightarrow> bool" where
  "uapi_unset d \<longleftrightarrow> unset_default d \<and> (dev_flags d AND WGDEVICE_HAS_LISTEN_PORT = 0 \<longrightarrow> listen_port d = 0) \<and>
     (dev_flags d AND WGDEVICE_HAS_FWMARK = 0 \<longrightarrow> fwmark d = 0)"

lemma load_uapi_init:
  assumes "uapi_unset d"
  shows "load_uapi gp d (udev (uapi_init (dev_name d))) = reported_interface gp d"
proof -
  have u: "unset_default d" "dev_flags d AND WGDEVICE_HAS_LISTEN_PORT = 0 \<longrightarrow> listen_port d = 0"
    "dev_flags d AND WGDEVICE_HAS_FWMARK = 0 \<longrightarrow> fwmark d = 0"
    using assms by (simp_all add: uapi_unset_def)
  note unset = u(2,3) u(1) [unfolded unset_default_def Let_def]
  show ?thesis
    unfolding uapi_init_def uapi_state.select_convs zero_device_def wgdevice.update_convs load_uapi_def load_params_def Let_def put_private_key_def
    by (simp only: put_flagged_fields put_flagged_base wgdevice.select_convs wgdevice.update_convs awg_flags_chain reported_flags,
        rule wgdevice.equality)
      (simp_all add: reported_interface_def unset)
qed

definition peer_state :: "wgdevice \<Rightarrow> wgpeer list \<Rightarrow> wgpeer \<Rightarrow> nat option \<Rightarrow> uapi_state" where
  "peer_state d ps q ac = \<lparr>udev = d\<lparr>peers := ps @ [q]\<rparr>, upeer = Some (length ps), uallowedip = ac, uret = - EPROTO\<rparr>"

lemma uapi_upd_peer_state: "uapi_upd (peer_state d ps q ac) (length ps) f = peer_state d ps (f q) ac"
  by (simp add: uapi_upd_def peer_state_def)

lemma uapi_peer_pairs:
  "uapi_get_pair env gp (peer_state d ps q ac) ''preshared_key'' v
    = next_if (hex_option (key_from_hex (preshared_key q) v)) (\<lambda>k. peer_state d ps (q\<lparr>preshared_key := k,
        flags := (if \<not> key_is_zero k then flags q OR WGPEER_HAS_PRESHARED_KEY else flags q)\<rparr>) ac)"
  "uapi_get_pair env gp (peer_state d ps q ac) ''endpoint'' v = uapi_endpoint env (peer_state d ps q ac) (length ps) v"
  "uapi_get_pair env gp (peer_state d ps q ac) ''persistent_keepalive_interval'' v
    = next_if (NUM 0xffff v) (\<lambda>n. peer_state d ps (q\<lparr>persistent_keepalive_interval := ucast n,
           flags := flags q OR WGPEER_HAS_PERSISTENT_KEEPALIVE_INTERVAL\<rparr>) ac)"
  "uapi_get_pair env gp (peer_state d ps q ac) ''allowed_ip'' v
    = next_if (uapi_allowedip env v) (\<lambda>a. peer_state d ps (q\<lparr>allowedips := link_node (allowedips q) ac a\<rparr>) (linked_cursor ac))"
  "uapi_get_pair env gp (peer_state d ps q ac) ''replace_allowed_ips'' v = Next (peer_state d ps q ac)"
  "uapi_get_pair env gp (peer_state d ps q ac) ''errno'' v
    = next_if (NUM 0x7fffffff v) (\<lambda>n. (peer_state d ps q ac)\<lparr>uret := - uint n\<rparr>)"
proof -
  have *: "upeer (peer_state d ps q ac) = Some (length ps)" "peers (udev (peer_state d ps q ac)) ! length ps = q"
    "uallowedip (peer_state d ps q ac) = ac" "\<And>q. (peer_state d ps q ac)\<lparr>uallowedip := ac'\<rparr> = peer_state d ps q ac'" for ac'
    by (simp_all add: peer_state_def)
  show
  "uapi_get_pair env gp (peer_state d ps q ac) ''preshared_key'' v
    = next_if (hex_option (key_from_hex (preshared_key q) v)) (\<lambda>k. peer_state d ps (q\<lparr>preshared_key := k,
        flags := (if \<not> key_is_zero k then flags q OR WGPEER_HAS_PRESHARED_KEY else flags q)\<rparr>) ac)"
  "uapi_get_pair env gp (peer_state d ps q ac) ''endpoint'' v = uapi_endpoint env (peer_state d ps q ac) (length ps) v"
  "uapi_get_pair env gp (peer_state d ps q ac) ''persistent_keepalive_interval'' v
    = next_if (NUM 0xffff v) (\<lambda>n. peer_state d ps (q\<lparr>persistent_keepalive_interval := ucast n,
           flags := flags q OR WGPEER_HAS_PERSISTENT_KEEPALIVE_INTERVAL\<rparr>) ac)"
  "uapi_get_pair env gp (peer_state d ps q ac) ''allowed_ip'' v
    = next_if (uapi_allowedip env v) (\<lambda>a. peer_state d ps (q\<lparr>allowedips := link_node (allowedips q) ac a\<rparr>) (linked_cursor ac))"
  "uapi_get_pair env gp (peer_state d ps q ac) ''replace_allowed_ips'' v = Next (peer_state d ps q ac)"
  "uapi_get_pair env gp (peer_state d ps q ac) ''errno'' v
    = next_if (NUM 0x7fffffff v) (\<lambda>n. (peer_state d ps q ac)\<lparr>uret := - uint n\<rparr>)"
    by (simp_all add: uapi_get_pair_def uapi_peer_keys_def * uapi_upd_peer_state)
qed

lemma uapi_peer_put:
  assumes "b \<Longrightarrow> uapi_value v \<and> uapi_get_pair env gp (peer_state d ps q ac) k v = Next (peer_state d ps q' ac)" and "uapi_key k"
  shows "uapi_text env gp (peer_state d ps q ac) (print_if b (uapi_line k v) @ rest)
    = uapi_text env gp (peer_state d ps (if b then q' else q) ac) rest"
  using assms uapi_text_line [of k v env gp "peer_state d ps q ac" "peer_state d ps q' ac" rest] by (simp add: print_if_def)

lemma uapi_new_peer_line:
  assumes "at_end (peers (udev s)) (upeer s)" and "uret s = - EPROTO" and "length k = WG_KEY_LEN"
  shows "uapi_text env gp s (uapi_line ''public_key'' (key_to_hex k) @ rest)
    = uapi_text env gp (peer_state (udev s) (peers (udev s)) (zero_peer\<lparr>public_key := k, flags := WGPEER_HAS_PUBLIC_KEY\<rparr>) None) rest"
proof -
  have "uapi_get_pair env gp s ''public_key'' v = uapi_new_peer s v" for v
    by (cases "upeer s") (simp_all add: uapi_get_pair_def uapi_device_keys_def uapi_peer_keys_def)
  moreover have "hex_option (key_from_hex (public_key zero_peer) (key_to_hex k)) = Some k"
    using assms(3) by (intro hex_option_key) (simp_all add: zero_peer_def)
  moreover have "linked_cursor (upeer s) = Some (length (peers (udev s)))"
    using assms(1) by (auto simp: at_end_def linked_cursor_def)
  ultimately have "uapi_get_pair env gp s ''public_key'' (key_to_hex k)
      = Next (peer_state (udev s) (peers (udev s)) (zero_peer\<lparr>public_key := k, flags := WGPEER_HAS_PUBLIC_KEY\<rparr>) None)"
    using assms(1,2) by (cases s) (simp add: uapi_new_peer_def next_if_def peer_state_def)
  then show ?thesis
    using uapi_text_line [of "''public_key''" "key_to_hex k"] hex.word_value_enc [of k] assms(3) by simp
qed

lemma uapi_endpoint_text:
  assumes "endpoint_law env (endpoint p)"
  shows "uapi_text env gp (peer_state d ps q ac)
      ((case fmt_endpoint env (endpoint p) of None \<Rightarrow> [] | Some e \<Rightarrow> uapi_line ''endpoint'' e) @ rest)
    = uapi_text env gp (peer_state d ps (if endpoint p \<noteq> SA_UNSPEC then q\<lparr>endpoint := endpoint p\<rparr> else q) ac) rest"
proof (cases "endpoint p = SA_UNSPEC")
  case False
  obtain e h s where e: "fmt_endpoint env (endpoint p) = Some e" "word_value e" "split_endpoint e = Inr (h, s)"
    "getaddrinfo env 0 h s = Resolved (endpoint p)"
    using fmt_endpoint_split [OF assms False] by blast
  then have "uapi_get_pair env gp (peer_state d ps q ac) ''endpoint'' e = Next (peer_state d ps (q\<lparr>endpoint := endpoint p\<rparr>) ac)"
    using False by (simp add: uapi_peer_pairs uapi_endpoint_def uapi_upd_peer_state word_value_def)
  then show ?thesis
    using False e uapi_text_line [of "''endpoint''" e] by simp
qed (simp add: fmt_endpoint_def)

lemma uapi_allowedip_numeral:
  assumes "allowedip_law env a" and "char_is_digit (first_char m)" and "strtoul 10 m = (num, [])" and "ucast num = cidr a"
  shows "uapi_allowedip env (allowedip_text env a @ CHR ''/'' # m) = Some a"
proof -
  have sep: "strsep (allowedip_text env a @ CHR ''/'' # m) CHR ''/'' = (allowedip_text env a, Some m)"
    using assms(1) by (intro strsep_append) (simp add: allowedip_law_def)
  have "ip4 a @ replicate 12 0 = ip a" if "drop 4 (ip a) = replicate 12 0"
    using that by (metis append_take_drop_id ip4_def)
  then show ?thesis
    using assms sep
    by (cases a) (auto simp: uapi_allowedip_def Let_def allowedip_law_def allowedip_wf_def strchr_None
        zero_allowedip_def ip6_def not_less split: if_splits)
qed

lemma ucast_of_nat_u8: "(ucast (of_nat n :: u64) :: u8) = of_nat n"
  by (rule bit_word_eqI) (simp add: bit_simps)

lemma uapi_allowedip_show:
  assumes "allowedip_law env a" and "n < 2 ^ 64" and "of_nat n = cidr a"
  shows "uapi_allowedip env (allowedip_text env a @ CHR ''/'' # show_dec n) = Some a"
proof (rule uapi_allowedip_numeral [OF assms(1)])
  show "strtoul 10 (show_dec n) = (of_nat n, [])"
    using strtoul_show_dec [of n "[]"] assms(2) by simp
  show "char_is_digit (first_char (show_dec n))"
    using hd_show_dec [of n "[]"] by (simp add: isdigit_first_char)
  show "ucast (of_nat n :: u64) = cidr a"
    using assms(3) by (simp add: ucast_of_nat_u8)
qed

lemma uapi_allowedip_text:
  assumes "allowedip_law env a"
  shows "uapi_allowedip env (allowedip_text env a @ CHR ''/'' # show_dec (unat (cidr a))) = Some a"
  using uapi_allowedip_show [OF assms, of "unat (cidr a)"] unsigned_less [of "cidr a", where 'a = nat] by simp

lemma uapi_read_allowedips:
  assumes "list_all (allowedip_law env) as" and "at_end (allowedips q) ac"
  obtains ac' where "\<And>rest. uapi_text env gp (peer_state d ps q ac) (uapi_allowedip_lines env as @ rest)
    = uapi_text env gp (peer_state d ps (q\<lparr>allowedips := allowedips q @ as\<rparr>) ac') rest"
proof -
  have "\<exists>ac'. \<forall>rest. uapi_text env gp (peer_state d ps q ac) (uapi_allowedip_lines env as @ rest)
    = uapi_text env gp (peer_state d ps (q\<lparr>allowedips := allowedips q @ as\<rparr>) ac') rest"
    using assms
  proof (induction as arbitrary: q ac)
    case Nil
    then show ?case
      by (intro exI [of _ ac]) simp
  next
    case (Cons a as)
    have law: "allowedip_law env a" "list_all (allowedip_law env) as"
      using Cons.prems(1) by simp_all
    let ?v = "allowedip_text env a @ CHR ''/'' # show_dec (unat (cidr a))" and ?q = "q\<lparr>allowedips := allowedips q @ [a]\<rparr>"
    have "uapi_get_pair env gp (peer_state d ps q ac) ''allowed_ip'' ?v = Next (peer_state d ps ?q (linked_cursor ac))"
      using uapi_allowedip_text [OF law(1)] Cons.prems(2) by (simp add: uapi_peer_pairs next_if_def)
    moreover have "uapi_value ?v"
      using law(1) word_value_show [of 10 "unat (cidr a)"]
      by (simp add: uapi_value_def allowedip_law_def word_value_def text_value_def)
    moreover have "uapi_allowedip_lines env (a # as) = uapi_line ''allowed_ip'' ?v @ uapi_allowedip_lines env as"
      using law(1) by (auto simp: allowedip_law_def allowedip_wf_def allowedip_text_def)
    ultimately have "uapi_text env gp (peer_state d ps q ac) (uapi_allowedip_lines env (a # as) @ rest)
        = uapi_text env gp (peer_state d ps ?q (linked_cursor ac)) (uapi_allowedip_lines env as @ rest)" for rest
      using uapi_text_line [of "''allowed_ip''" ?v env gp] by simp
    then show ?case
      using Cons.IH [OF law(2), of ?q "linked_cursor ac"] Cons.prems(2) by simp
  qed
  then show ?thesis
    using that by blast
qed

subsubsection \<open>A whole peer\<close>

definition uapi_printable_peer :: "env \<Rightarrow> wgpeer \<Rightarrow> bool" where
  "uapi_printable_peer env p \<longleftrightarrow> printable_peer env p \<and> flags p AND WGPEER_REMOVE_ME = 0 \<and>
     (flags p AND WGPEER_HAS_PRESHARED_KEY \<noteq> 0 \<longrightarrow> \<not> key_is_zero (preshared_key p)) \<and>
     (flags p AND WGPEER_HAS_PERSISTENT_KEEPALIVE_INTERVAL = 0 \<longrightarrow> persistent_keepalive_interval p = 0)"

definition reported_peer :: "wgpeer \<Rightarrow> wgpeer" where
  "reported_peer p = p\<lparr>last_handshake_time := last_handshake_time zero_peer, rx_bytes := 0, tx_bytes := 0,
     flags := WGPEER_HAS_PUBLIC_KEY OR
       (flags p AND (WGPEER_HAS_PRESHARED_KEY OR WGPEER_HAS_PERSISTENT_KEEPALIVE_INTERVAL))\<rparr>"

lemma uapi_read_peer:
  assumes "uapi_printable_peer env p" and "flags p AND WGPEER_HAS_AWG = 0"
    and "at_end (peers (udev s)) (upeer s)" and "uret s = - EPROTO"
  obtains ac where "\<And>rest. uapi_text env gp s (uapi_line ''public_key'' (key_to_hex (public_key p)) @ uapi_peer_lines env p @ rest)
    = uapi_text env gp (peer_state (udev s) (peers (udev s)) (reported_peer p) ac) rest"
proof -
  let ?d = "udev s" and ?ps = "peers (udev s)"
  let ?q0 = "zero_peer\<lparr>public_key := public_key p, flags := WGPEER_HAS_PUBLIC_KEY\<rparr>"
  have p: "length (public_key p) = WG_KEY_LEN" "length (preshared_key p) = WG_KEY_LEN" "list_all (allowedip_law env) (allowedips p)"
    "endpoint_law env (endpoint p)"
    using assms(1) by (simp_all add: uapi_printable_peer_def printable_peer_def)
  let ?q1 = "if flags p AND WGPEER_HAS_PRESHARED_KEY \<noteq> 0
    then ?q0\<lparr>preshared_key := preshared_key p, flags := flags ?q0 OR WGPEER_HAS_PRESHARED_KEY\<rparr> else ?q0"
  let ?q2 = "if endpoint p \<noteq> SA_UNSPEC then ?q1\<lparr>endpoint := endpoint p\<rparr> else ?q1"
  let ?q3 = "if flags p AND WGPEER_HAS_PERSISTENT_KEEPALIVE_INTERVAL \<noteq> 0
    then ?q2\<lparr>persistent_keepalive_interval := persistent_keepalive_interval p,
      flags := flags ?q2 OR WGPEER_HAS_PERSISTENT_KEEPALIVE_INTERVAL\<rparr> else ?q2"
  have psk: "uapi_text env gp (peer_state ?d ?ps ?q0 None)
      (print_if (flags p AND WGPEER_HAS_PRESHARED_KEY \<noteq> 0) (uapi_line ''preshared_key'' (key_to_hex (preshared_key p))) @ rest)
    = uapi_text env gp (peer_state ?d ?ps ?q1 None) rest" for rest
    using assms(1) p(2) hex.word_value_enc [of "preshared_key p"] hex_option_key [of "preshared_key ?q0" "preshared_key p"]
    by (intro uapi_peer_put) (simp_all add: uapi_peer_pairs next_if_def zero_peer_def uapi_printable_peer_def)
  have ka: "uapi_text env gp (peer_state ?d ?ps ?q2 None)
      (print_if (flags p AND WGPEER_HAS_PERSISTENT_KEEPALIVE_INTERVAL \<noteq> 0)
       (uapi_line ''persistent_keepalive_interval'' (show_dec (unat (persistent_keepalive_interval p)))) @ rest)
    = uapi_text env gp (peer_state ?d ?ps ?q3 None) rest" for rest
    by (rule uapi_peer_put) (simp_all add: uapi_peer_pairs next_if_def)
  have repl: "uapi_text env gp (peer_state ?d ?ps ?q3 None) (print_if b (uapi_line ''replace_allowed_ips'' ''true'') @ rest)
    = uapi_text env gp (peer_state ?d ?ps ?q3 None) rest" for b rest
    using uapi_peer_put [of b "''true''" env gp ?d ?ps ?q3 None "''replace_allowed_ips''" ?q3 rest]
    by (simp add: uapi_peer_pairs uapi_value_def)
  have "at_end (allowedips ?q3) None"
    by (simp add: zero_peer_def)
  then obtain ac where as: "\<And>rest. uapi_text env gp (peer_state ?d ?ps ?q3 None) (uapi_allowedip_lines env (allowedips p) @ rest)
      = uapi_text env gp (peer_state ?d ?ps (?q3\<lparr>allowedips := allowedips ?q3 @ allowedips p\<rparr>) ac) rest"
    using uapi_read_allowedips [OF p(3)] by blast
  have "?q3\<lparr>allowedips := allowedips ?q3 @ allowedips p\<rparr> = reported_peer p"
    using assms(1,2) flag_and_self [OF WGPEER_HAS_PRESHARED_KEY_def, of "flags p"]
      flag_and_self [OF WGPEER_HAS_PERSISTENT_KEEPALIVE_INTERVAL_def, of "flags p"]
    by (cases p) (auto simp: reported_peer_def zero_peer_def uapi_printable_peer_def printable_peer_def
        bit.conj_disj_distrib ac_simps)
  then have "uapi_text env gp s (uapi_line ''public_key'' (key_to_hex (public_key p)) @ uapi_peer_lines env p @ rest)
    = uapi_text env gp (peer_state ?d ?ps (reported_peer p) ac) rest" for rest
    unfolding uapi_peer_lines_def append_assoc uapi_new_peer_line [OF assms(3,4) p(1)] psk uapi_endpoint_text [OF p(4)] ka repl as
    by simp
  then show thesis
    by (rule that)
qed

definition last_state :: "wgdevice \<Rightarrow> uapi_state \<Rightarrow> bool" where
  "last_state d s \<longleftrightarrow> udev s = d \<and> at_end (peers d) (upeer s) \<and> uret s = - EPROTO"

lemma uapi_read_peers:
  assumes "list_all (uapi_printable_peer env) ps" and "snd (uapi_peers env ps)" and "last_state d s"
  obtains s' where "last_state (d\<lparr>peers := peers d @ map reported_peer ps\<rparr>) s'"
    and "\<And>rest. uapi_text env gp s (fst (uapi_peers env ps) @ rest) = uapi_text env gp s' rest"
proof -
  have "\<exists>s'. last_state (d\<lparr>peers := peers d @ map reported_peer ps\<rparr>) s' \<and>
      (\<forall>rest. uapi_text env gp s (fst (uapi_peers env ps) @ rest) = uapi_text env gp s' rest)"
    using assms
  proof (induction ps arbitrary: d s)
    case Nil
    then show ?case by auto
  next
    case (Cons p ps)
    have p: "uapi_printable_peer env p" "list_all (uapi_printable_peer env) ps" "flags p AND WGPEER_HAS_AWG = 0"
      "snd (uapi_peers env ps)"
      using Cons.prems by (auto simp: Let_def split: if_splits prod.splits)
    have s: "udev s = d" "at_end (peers (udev s)) (upeer s)" "uret s = - EPROTO"
      using Cons.prems(3) by (auto simp: last_state_def)
    obtain ac where r: "\<And>rest. uapi_text env gp s (uapi_line ''public_key'' (key_to_hex (public_key p)) @ uapi_peer_lines env p @ rest)
        = uapi_text env gp (peer_state d (peers d) (reported_peer p) ac) rest"
      using uapi_read_peer [OF p(1,3) s(2,3)] s(1) by metis
    have "last_state (d\<lparr>peers := peers d @ [reported_peer p]\<rparr>) (peer_state d (peers d) (reported_peer p) ac)"
      by (simp add: last_state_def peer_state_def at_end_def)
    from Cons.IH [OF p(2,4) this] obtain s' where
      s': "last_state (d\<lparr>peers := peers d @ map reported_peer (p # ps)\<rparr>) s'"
        "\<forall>rest. uapi_text env gp (peer_state d (peers d) (reported_peer p) ac) (fst (uapi_peers env ps) @ rest) = uapi_text env gp s' rest"
      by auto
    have "fst (uapi_peers env (p # ps)) = uapi_line ''public_key'' (key_to_hex (public_key p)) @ uapi_peer_lines env p @ fst (uapi_peers env ps)"
      using p(1,3) by (simp add: Let_def uapi_printable_peer_def split: prod.split)
    with s' r show ?case by auto
  qed
  then show thesis
    using that by blast
qed

lemma uapi_errno_line:
  assumes "last_state d s"
  shows "uapi_text env gp s (uapi_line ''errno'' ''0'' @ [NL]) = (0, d)"
proof -
  have n: "NUM 0x7fffffff ''0'' = Some 0"
  proof -
    have "show_dec 0 = ''0''"
      by code_simp
    then show ?thesis
      using NUM_show [of 0 "0x7fffffff"] by simp
  qed
  have "uapi_get_pair env gp s ''errno'' v = next_if (NUM 0x7fffffff v) (\<lambda>n. s\<lparr>uret := - uint n\<rparr>)" for v
    by (cases "upeer s") (simp_all add: uapi_get_pair_def uapi_device_keys_def uapi_peer_keys_def)
  then have "uapi_get_pair env gp s ''errno'' ''0'' = Next (s\<lparr>uret := 0\<rparr>)"
    using n by (simp add: next_if_def)
  then have "uapi_text env gp s (uapi_line ''errno'' ''0'' @ [NL]) = uapi_text env gp (s\<lparr>uret := 0\<rparr>) [NL]"
    by (intro uapi_text_line) (simp_all add: uapi_value_def)
  also have "uapi_token [NL] = End_line"
    by (simp add: uapi_token_def c_string_def)
  then have "uapi_text env gp (s\<lparr>uret := 0\<rparr>) [NL] = (0, d)"
    using assms getlines_line [of "[]" "[]"] by (simp add: uapi_text_def last_state_def)
  finally show ?thesis .
qed

definition uapi_printable :: "env \<Rightarrow> wgdevice \<Rightarrow> bool" where
  "uapi_printable env d \<longleftrightarrow> length (private_key d) = WG_KEY_LEN \<and> uapi_unset d \<and> uapi_strings d \<and>
     list_all (uapi_printable_peer env) (peers d)"

definition reported_device :: "(u8 list \<Rightarrow> u8 list) \<Rightarrow> wgdevice \<Rightarrow> wgdevice" where
  "reported_device gp d = (reported_interface gp d)\<lparr>peers := map reported_peer (peers d)\<rparr>"

lemma uapi_read_request:
  assumes "uapi_printable env d" and "snd (uapi_peers env (peers d))"
  shows "uapi_text env gp (uapi_init (dev_name d))
      (uapi_line ''set'' ''1'' @ uapi_device_lines d @ fst (uapi_peers env (peers d)) @ uapi_line ''errno'' ''0'' @ [NL])
    = (0, reported_device gp d)"
proof -
  let ?s = "uapi_init (dev_name d)"
  have p: "length (private_key d) = WG_KEY_LEN" "uapi_unset d" "uapi_strings d" "list_all (uapi_printable_peer env) (peers d)"
    using assms(1) by (simp_all add: uapi_printable_def)
  have s: "upeer ?s = None" "length (private_key (udev ?s)) = WG_KEY_LEN" "uret ?s = - EPROTO"
    by (simp_all add: uapi_init_def zero_device_def)
  let ?d = "reported_interface gp d"
  have e: "peers ?d = []"
    by (simp add: reported_interface_def)
  have "last_state ?d (?s\<lparr>udev := ?d\<rparr>)"
    using s e by (simp add: last_state_def)
  then obtain s' where s': "last_state (?d\<lparr>peers := peers ?d @ map reported_peer (peers d)\<rparr>) s'"
    "\<And>rest. uapi_text env gp (?s\<lparr>udev := ?d\<rparr>) (fst (uapi_peers env (peers d)) @ rest) = uapi_text env gp s' rest"
    using uapi_read_peers [OF p(4) assms(2)] by blast
  then show ?thesis
    using uapi_errno_line [OF s'(1)] e
    by (simp only: uapi_ignore [OF s(1)] uapi_read_device [OF p(3) s(1,2) p(1)] load_uapi_init [OF p(2)]
        append_Nil reported_device_def)
qed

text \<open>C4. The two directions of the protocol agree: when \<open>userspace_set_device\<close> has written the whole request for
  a device, and the implementation answers a get request with the settings it was sent and \<open>errno=0\<close>,
  \<open>userspace_get_device\<close> returns 0 and the same settings: the private key with its public key, the numbers and
  strings, and every peer with its keys, endpoint, interval and allowed addresses in order.\<close>

theorem uapi_set_get_roundtrip:
  assumes "uapi_printable env d"
    and "userspace_set_device env set_file eno d = (ret, request @ [NL])" and "ret \<noteq> - EINVAL" and "set_file (dev_name d) = Inr server"
    and "get_file (dev_name d) = Inr (\<lambda>_. request @ uapi_line ''errno'' ''0'' @ [NL])"
  shows "userspace_get_device env gp get_file (dev_name d) = (0, Some (reported_device gp d))"
proof -
  have ok: "snd (uapi_peers env (peers d))"
    and r: "request = uapi_line ''set'' ''1'' @ uapi_device_lines d @ fst (uapi_peers env (peers d))"
    using assms(2-4) by (auto simp: userspace_set_device_def Let_def split: prod.splits if_splits option.splits)
  show ?thesis
    using uapi_read_request [OF assms(1) ok, of gp] assms(5) r
    by (simp add: userspace_get_device_def uapi_text_def split: prod.split)
qed

definition sample_uapi_device :: wgdevice where
  "sample_uapi_device = sample_device\<lparr>dev_name := ''wg0'', dev_flags := dev_flags sample_device OR WGDEVICE_HAS_LISTEN_PORT OR WGDEVICE_HAS_FWMARK,
     peers := map (\<lambda>p. p\<lparr>flags := flags p OR WGPEER_HAS_PERSISTENT_KEEPALIVE_INTERVAL\<rparr>) (peers sample_device)\<rparr>"

lemma sample_uapi_printable: "uapi_printable sample_env sample_uapi_device" "snd (uapi_peers sample_env (peers sample_uapi_device))"
proof -
  have "list_all (printable_peer sample_env) (peers sample_device)"
    using sample_device_printable(1) by (simp add: printable_device_def)
  moreover have "\<not> key_is_zero (replicate 32 7)"
    by (simp add: key_is_zero_iff)
  ultimately have "list_all (uapi_printable_peer sample_env) (peers sample_uapi_device)"
    by (simp add: sample_uapi_device_def sample_device_def uapi_printable_peer_def printable_peer_def zero_peer_def peer_flag_defs)
  then show "uapi_printable sample_env sample_uapi_device"
    by (simp add: uapi_printable_def sample_uapi_device_def sample_device_def uapi_unset_def unset_default_def uapi_strings_def
        uapi_string_ok_def uapi_value_def Let_def zero_device_def device_flag_defs)
  show "snd (uapi_peers sample_env (peers sample_uapi_device))"
    by (simp add: sample_uapi_device_def sample_device_def zero_peer_def peer_flag_defs Let_def)
qed

lemma uapi_set_answer_0: "uapi_set_answer r (getlines (uapi_line ''errno'' ''0'' @ [NL])) = Some 0"
proof -
  have "getlines (uapi_line ''errno'' ''0'' @ [NL]) = [''errno'' @ CHR ''='' # ''0'' @ [NL], [NL]]"
    using getlines_line [of "''errno=0''" "[NL]"] getlines_line [of "[]" "[]"] by (simp add: uapi_line_def)
  moreover have "uapi_token (''errno'' @ CHR ''='' # ''0'' @ [NL]) = Pair ''errno'' ''0''"
    by (rule uapi_token_line) (simp_all add: uapi_value_def)
  moreover have "uapi_token [NL] = End_line"
    by (simp add: uapi_token_def c_string_def)
  moreover have "set_errno_value ''0'' = Some 0"
    by code_simp
  ultimately show ?thesis
    by simp
qed

theorem uapi_set_get_roundtrip_witness:
  "\<exists>request. uapi_printable sample_env sample_uapi_device \<and>
     userspace_set_device sample_env (\<lambda>_. Inr (\<lambda>_. uapi_line ''errno'' ''0'' @ [NL])) 0 sample_uapi_device = (0, request @ [NL]) \<and>
     userspace_get_device sample_env (\<lambda>k. k) (\<lambda>_. Inr (\<lambda>_. request @ uapi_line ''errno'' ''0'' @ [NL])) (dev_name sample_uapi_device)
       = (0, Some (reported_device (\<lambda>k. k) sample_uapi_device))"
proof -
  let ?d = sample_uapi_device and ?f = "\<lambda>_. Inr (\<lambda>_. uapi_line ''errno'' ''0'' @ [NL])"
  let ?r = "uapi_line ''set'' ''1'' @ uapi_device_lines ?d @ fst (uapi_peers sample_env (peers ?d))"
  have "userspace_set_device sample_env ?f 0 ?d = (0, ?r @ [NL])"
    using sample_uapi_printable(2) uapi_set_answer_0 by (auto simp: userspace_set_device_def Let_def split: prod.split)
  moreover from uapi_set_get_roundtrip [OF sample_uapi_printable(1) this, of "\<lambda>_. uapi_line ''errno'' ''0'' @ [NL]"
      "\<lambda>_. Inr (\<lambda>_. ?r @ uapi_line ''errno'' ''0'' @ [NL])" "\<lambda>k. k"]
  have "userspace_get_device sample_env (\<lambda>k. k) (\<lambda>_. Inr (\<lambda>_. ?r @ uapi_line ''errno'' ''0'' @ [NL])) (dev_name ?d)
      = (0, Some (reported_device (\<lambda>k. k) ?d))"
    by simp
  ultimately show ?thesis
    using sample_uapi_printable(1) by blast
qed

subsection \<open>The device get returns\<close>

text \<open>The invariant of the loop: the cursors are at the ends of their lists, and the device is well-formed.\<close>

definition uapi_wf :: "uapi_state \<Rightarrow> bool" where
  "uapi_wf s \<longleftrightarrow> device_wf (udev s) \<and> at_end (peers (udev s)) (upeer s) \<and>
     (case upeer s of None \<Rightarrow> True | Some i \<Rightarrow> at_end (allowedips (peers (udev s) ! i)) (uallowedip s)) \<and>
     list_all (\<lambda>p. flags p AND WGPEER_HAS_PUBLIC_KEY \<noteq> 0) (peers (udev s))"

lemma map_of_list_all: "map_of hs k = Some h \<Longrightarrow> list_all (\<lambda>(k, h). P h) hs \<Longrightarrow> P h"
  by (induction hs) (auto split: if_splits)

lemma next_if_Next: "next_if r f = Next s' \<longleftrightarrow> (\<exists>x. r = Some x \<and> s' = f x)"
  by (auto simp: next_if_def split: option.splits)

definition steps_to :: "(uapi_state \<Rightarrow> bool) \<Rightarrow> (string \<Rightarrow> uapi_step) \<Rightarrow> bool" where
  "steps_to P h \<longleftrightarrow> (\<forall>v s'. h v = Next s' \<longrightarrow> P s')"

lemma hex_option_length:
  "hex_option (key_from_hex buf v) = Some k \<Longrightarrow> length buf = WG_KEY_LEN \<Longrightarrow> length k = WG_KEY_LEN"
  using hex.dec_length [of buf v] by (auto simp: hex_option_def split: if_splits)

lemma steps_to_iff [simp]:
  "steps_to P (\<lambda>v. next_if (r v) f) \<longleftrightarrow> (\<forall>v x. r v = Some x \<longrightarrow> P (f x))" "steps_to P (\<lambda>v. Next (g v)) \<longleftrightarrow> (\<forall>v. P (g v))"
  by (auto simp: steps_to_def next_if_Next)

lemma flag_kept: "f AND k \<noteq> 0 \<Longrightarrow> (f OR m) AND k \<noteq> (0 :: u32)"
  by (auto simp: bit_eq_iff bit_simps)

definition same_name :: "uapi_state \<Rightarrow> uapi_state \<Rightarrow> bool" where
  "same_name s s' \<longleftrightarrow> uapi_wf s' \<and> dev_name (udev s') = dev_name (udev s)"

lemma uapi_device_keys_wf:
  assumes "\<And>k. length (gp k) = WG_KEY_LEN" and "uapi_wf s" and "upeer s = None"
  shows "list_all (\<lambda>(k, h). steps_to (same_name s) h) (uapi_device_keys gp s)"
proof -
  have "length (private_key (udev s)) = WG_KEY_LEN"
    using assms(2) by (simp add: uapi_wf_def device_wf_def)
  then show ?thesis
    using assms hex_option_length [of "private_key (udev s)"]
    by (simp add: uapi_device_keys_def uset_def same_name_def uapi_wf_def device_wf_def)
qed

lemma uapi_new_peer_wf:
  assumes "uapi_wf s"
  shows "steps_to (same_name s) (uapi_new_peer s)"
proof -
  let ?ps = "peers (udev s)"
  have e: "at_end ?ps (upeer s)"
    using assms by (simp add: uapi_wf_def)
  then have "linked_cursor (upeer s) = Some (length ?ps)"
    by (auto simp: at_end_def linked_cursor_def)
  moreover have "at_end (?ps @ [p]) (Some (length ?ps))" for p
    by (simp add: at_end_Some)
  ultimately show ?thesis
    using assms e hex_option_length [of "public_key zero_peer"]
    by (auto simp: uapi_new_peer_def steps_to_def next_if_Next same_name_def uapi_wf_def device_wf_def peer_wf_def
        zero_peer_def c_flags)
qed

lemma uapi_upd_wf:
  assumes "uapi_wf s" and "upeer s = Some i"
    and "peer_wf (peers (udev s) ! i) \<Longrightarrow> peer_wf (f (peers (udev s) ! i))"
    and "flags (f (peers (udev s) ! i)) = flags (peers (udev s) ! i) OR m"
    and "at_end (allowedips (f (peers (udev s) ! i))) c"
  shows "same_name s ((uapi_upd s i f)\<lparr>uallowedip := c\<rparr>)"
proof -
  have i: "i < length (peers (udev s))" "at_end (peers (udev s)) (upeer s)"
    using assms(1,2) by (auto simp: uapi_wf_def at_end_Some)
  have w: "list_all peer_wf (peers (udev s))" "list_all (\<lambda>p. flags p AND WGPEER_HAS_PUBLIC_KEY \<noteq> 0) (peers (udev s))"
    using assms(1) by (simp_all add: uapi_wf_def device_wf_def)
  have a: "peer_wf (peers (udev s) ! i)" "flags (peers (udev s) ! i) AND WGPEER_HAS_PUBLIC_KEY \<noteq> 0"
    using w i(1) by (simp_all add: list_all_length)
  then have "flags (f (peers (udev s) ! i)) AND WGPEER_HAS_PUBLIC_KEY \<noteq> 0"
    by (simp add: assms(4) flag_kept)
  moreover have "list_all P (xs[i := x])" if "list_all P xs" "P x" for P x and xs :: "wgpeer list"
    using that set_update_subset_insert [of xs i x] by (auto simp: list_all_iff)
  moreover have "at_end ((peers (udev s))[i := x]) (upeer s)" for x
    using i assms(2) by (simp add: at_end_Some)
  ultimately show ?thesis
    using assms a w i by (simp add: same_name_def uapi_upd_def uapi_wf_def device_wf_def)
qed

lemma uapi_allowedip_wf:
  assumes "env_sizes env" and "uapi_allowedip env v = Some a"
  shows "allowedip_wf a"
  using assms env_sizesD [OF assms(1)]
  by (auto simp: uapi_allowedip_def allowedip_wf_def zero_allowedip_def Let_def not_less split: prod.splits option.splits if_splits)

lemma uapi_peer_keys_wf:
  assumes "env_sizes env" and "uapi_wf s" and i: "upeer s = Some i"
  shows "list_all (\<lambda>(k, h). steps_to (same_name s) h) (uapi_peer_keys env s i)"
proof -
  let ?p = "peers (udev s) ! i"
  have c: "at_end (allowedips ?p) (uallowedip s)"
    using assms(2) i by (simp add: uapi_wf_def)
  have "i < length (peers (udev s))" "list_all peer_wf (peers (udev s))"
    using assms(2) i by (auto simp: uapi_wf_def at_end_Some device_wf_def)
  then have len: "length (preshared_key ?p) = WG_KEY_LEN"
    by (simp add: list_all_length peer_wf_def)
  have upd: "same_name s (uapi_upd s i f)"
    if "peer_wf ?p \<Longrightarrow> peer_wf (f ?p)" "flags (f ?p) = flags ?p OR m" "allowedips (f ?p) = allowedips ?p" for f m
    using uapi_upd_wf [where f = f and m = m and c = "uallowedip s", OF assms(2) i that(1,2)] c that(3) by (simp add: uapi_upd_def)
  note keep = upd [where m = 0, simplified]
  have "steps_to (same_name s) (uapi_endpoint env s i)"
    using env_sizesD(3) [OF assms(1)]
    by (force simp: steps_to_def uapi_endpoint_def gai_wf_def peer_wf_def intro: keep split: if_splits sum.splits prod.splits gai.splits)
  moreover have "same_name s ((uapi_upd s i (\<lambda>p. p\<lparr>allowedips := link_node (allowedips p) (uallowedip s) a\<rparr>))\<lparr>uallowedip := linked_cursor (uallowedip s)\<rparr>)"
    if "uapi_allowedip env v = Some a" for v a
    using uapi_allowedip_wf [OF assms(1) that] c
    by (intro uapi_upd_wf [OF assms(2) i, where m = 0]) (simp_all add: peer_wf_def)
  moreover have "same_name s (uapi_upd s i (\<lambda>p. p\<lparr>preshared_key := k,
      flags := (if \<not> key_is_zero k then flags p OR WGPEER_HAS_PRESHARED_KEY else flags p)\<rparr>))"
    if "hex_option (key_from_hex (preshared_key ?p) v) = Some k" for v k
    using hex_option_length [OF that len]
    by (cases "key_is_zero k") (auto intro: keep upd simp: peer_wf_def)
  moreover have "same_name s (uapi_upd s i (\<lambda>p. p\<lparr>persistent_keepalive_interval := n,
      flags := flags p OR WGPEER_HAS_PERSISTENT_KEEPALIVE_INTERVAL\<rparr>))" for n
    by (rule upd) (simp_all add: peer_wf_def)
  moreover have "same_name s (uapi_upd s i (\<lambda>p. p\<lparr>last_handshake_time := t (last_handshake_time p)\<rparr>))"
    "same_name s (uapi_upd s i (\<lambda>p. p\<lparr>rx_bytes := n\<rparr>))" "same_name s (uapi_upd s i (\<lambda>p. p\<lparr>tx_bytes := n\<rparr>))" for t n
    by (rule keep; simp add: peer_wf_def)+
  ultimately show ?thesis
    by (simp add: uapi_peer_keys_def)
qed

lemma uapi_get_pair_wf:
  assumes "env_sizes env" and "\<And>k. length (gp k) = WG_KEY_LEN" and "uapi_wf s" and "uapi_get_pair env gp s k v = Next s'"
  shows "same_name s s'"
proof -
  let ?hs = "(case upeer s of None \<Rightarrow> uapi_device_keys gp s | Some i \<Rightarrow> uapi_peer_keys env s i) @
    [(''public_key'', uapi_new_peer s), (''errno'', \<lambda>v. next_if (NUM 0x7fffffff v) (\<lambda>n. s\<lparr>uret := - uint n\<rparr>))]"
  have s: "same_name s (s\<lparr>uret := r\<rparr>)" "same_name s s" for r
    using assms(3) by (auto simp: same_name_def uapi_wf_def split: option.splits)
  have "list_all (\<lambda>(k, h). steps_to (same_name s) h) ?hs"
    using uapi_device_keys_wf [OF assms(2,3)] uapi_peer_keys_wf [OF assms(1,3)] uapi_new_peer_wf [OF assms(3)] s
    by (simp split: option.split)
  then have "steps_to (same_name s) h" if "map_of ?hs k = Some h" for h
    using map_of_list_all [OF that] by blast
  then show ?thesis
    using assms(4) s unfolding uapi_get_pair_def by (auto simp: steps_to_def split: option.splits)
qed

lemma uapi_get_pair_err:
  assumes "uapi_get_pair env gp s k v = Goto_err e"
  shows "e = ENETUNREACH"
proof -
  let ?hs = "(case upeer s of None \<Rightarrow> uapi_device_keys gp s | Some i \<Rightarrow> uapi_peer_keys env s i) @
    [(''public_key'', uapi_new_peer s), (''errno'', \<lambda>v. next_if (NUM 0x7fffffff v) (\<lambda>n. s\<lparr>uret := - uint n\<rparr>))]"
  have n: "next_if r f = Goto_err e \<longleftrightarrow> False" for r :: "'x option" and f e
    by (simp add: next_if_def split: option.split)
  have "list_all (\<lambda>(k, h). \<forall>v e. h v = Goto_err e \<longrightarrow> e = ENETUNREACH) ?hs"
    by (cases "upeer s") (auto simp: uapi_device_keys_def uapi_peer_keys_def uapi_new_peer_def uapi_endpoint_def n
        split: if_splits sum.splits gai.splits)
  then have "h v = Goto_err e \<longrightarrow> e = ENETUNREACH" if "map_of ?hs k = Some h" for h
    using map_of_list_all [OF that] by blast
  then show ?thesis
    using assms unfolding uapi_get_pair_def by (auto split: option.splits)
qed

lemma uapi_get_lines_wf:
  assumes "env_sizes env" and "\<And>k. length (gp k) = WG_KEY_LEN" and "uapi_wf s"
  shows "uapi_get_lines env gp s ls = (ret, d) \<Longrightarrow> ret = 0 \<Longrightarrow>
    device_wf d \<and> dev_name d = dev_name (udev s) \<and> list_all (\<lambda>p. flags p AND WGPEER_HAS_PUBLIC_KEY \<noteq> 0) (peers d)"
  using assms(3)
proof (induction ls arbitrary: s)
  case (Cons l ls)
  show ?case
  proof (cases "uapi_token l")
    case (Pair k v)
    show ?thesis
    proof (cases "uapi_get_pair env gp s k v")
      case (Next s')
      then show ?thesis
        using Cons Pair uapi_get_pair_wf [OF assms(1,2) Cons.prems(3) Next] by (auto simp: same_name_def)
    next
      case (Goto_err e)
      then show ?thesis
        using Cons.prems Pair uapi_get_pair_err [OF Goto_err] by simp
    qed (use Cons.prems Pair in simp)
  qed (use Cons.prems in \<open>auto simp: uapi_wf_def\<close>)
qed simp

text \<open>C7. Whatever the other end of the connection answers, \<open>userspace_get_device\<close> gives a device exactly when
  it returns 0, and that device is well-formed: keys of 32 bytes, a name that fits, every peer with a public
  key, every allowed address of a known family with a prefix within its length. The cursors of the loop are at
  the ends of their lists throughout, so no node is lost.\<close>

theorem userspace_get_device_wf:
  assumes "env_sizes env" and "\<And>k. length (gp k) = WG_KEY_LEN"
    and "userspace_get_device env gp interface_file iface = (ret, out)" and "\<And>e. interface_file iface = Inl e \<Longrightarrow> e \<noteq> 0"
  shows "(out = None \<longleftrightarrow> ret \<noteq> 0) \<and>
    (\<forall>d. out = Some d \<longrightarrow> device_wf d \<and> length (dev_name d) < IFNAMSIZ \<and>
       list_all (\<lambda>p. flags p AND WGPEER_HAS_PUBLIC_KEY \<noteq> 0) (peers d))"
proof (cases "interface_file iface")
  case (Inl e)
  then show ?thesis
    using assms(3,4) by (auto simp: userspace_get_device_def)
next
  case (Inr server)
  have "uapi_wf (uapi_init iface)"
    by (simp add: uapi_wf_def uapi_init_def device_wf_def zero_device_def)
  note wf = uapi_get_lines_wf [OF assms(1,2) this]
  show ?thesis
    using assms(3) wf Inr
    by (auto simp: userspace_get_device_def uapi_init_def IFNAMSIZ_def split: prod.splits if_splits)
qed

theorem userspace_get_device_wf_witness:
  "\<exists>d. userspace_get_device sample_env (\<lambda>k. replicate 32 0) (\<lambda>_. Inr (\<lambda>_. uapi_line ''errno'' ''0'' @ [NL])) ''wg0'' = (0, Some d) \<and>
     device_wf d"
proof -
  let ?f = "\<lambda>_. Inr (\<lambda>_. uapi_line ''errno'' ''0'' @ [NL])"
  have "last_state (udev (uapi_init ''wg0'')) (uapi_init ''wg0'')"
    by (simp add: last_state_def uapi_init_def zero_device_def)
  from uapi_errno_line [OF this]
  have r: "userspace_get_device sample_env (\<lambda>k. replicate 32 0) ?f ''wg0'' = (0, Some (udev (uapi_init ''wg0'')))"
    by (simp add: userspace_get_device_def uapi_text_def)
  from userspace_get_device_wf [OF sample_env_sizes _ this] show ?thesis
    using r by simp
qed

subsection \<open>The code a set answer gives\<close>

text \<open>The values of the lines \<open>errno=\<close>.\<close>

definition errno_values :: "(string \<times> string) list \<Rightarrow> int option list" where
  "errno_values ps = map (\<lambda>(k, v). set_errno_value v) (filter (\<lambda>(k, v). k = ''errno'') ps)"

lemma uapi_set_answer_pairs:
  assumes "list_all (\<lambda>(k, v). uapi_key k \<and> uapi_value v) ps" and "errno_values ps = map Some codes"
  shows "uapi_set_answer r (getlines (concat (map (\<lambda>(k, v). uapi_line k v) ps) @ NL # rest)) = Some (last (r # codes))"
  using assms
proof (induction ps arbitrary: r codes)
  case Nil
  have "uapi_token [NL] = End_line"
    by (simp add: uapi_token_def c_string_def)
  then show ?case
    using Nil getlines_line [of "[]" rest] by (simp add: errno_values_def)
next
  case (Cons p ps)
  obtain k v where p: "p = (k, v)"
    by (cases p)
  then have kv: "uapi_key k" "uapi_value v" "list_all (\<lambda>(k, v). uapi_key k \<and> uapi_value v) ps"
    using Cons.prems by simp_all
  have "getlines (uapi_line k v @ r') = (k @ CHR ''='' # v @ [NL]) # getlines r'" for r'
    using getlines_line [of "k @ CHR ''='' # v" r'] kv by (simp add: uapi_line_def uapi_key_def uapi_value_def)
  note line = this
  show ?case
  proof (cases "k = ''errno''")
    case True
    then obtain c cs where "codes = c # cs" "set_errno_value v = Some c" "errno_values ps = map Some cs"
      using Cons.prems(2) by (auto simp: p errno_values_def)
    then show ?thesis
      using Cons.IH [OF kv(3)] uapi_token_line [OF kv(1,2)] True line by (simp add: p)
  next
    case False
    then show ?thesis
      using Cons.IH [OF kv(3)] Cons.prems(2) uapi_token_line [OF kv(1,2)] line by (simp add: p errno_values_def)
  qed
qed

lemma uapi_set_answer_unterminated:
  assumes "list_all (\<lambda>(k, v). uapi_key k \<and> uapi_value v) ps"
  shows "uapi_set_answer r (getlines (concat (map (\<lambda>(k, v). uapi_line k v) ps))) = None"
  using assms
proof (induction ps arbitrary: r)
  case (Cons p ps)
  obtain k v where p: "p = (k, v)"
    by (cases p)
  then have kv: "uapi_key k" "uapi_value v" "list_all (\<lambda>(k, v). uapi_key k \<and> uapi_value v) ps"
    using Cons.prems by simp_all
  have "getlines (uapi_line k v @ r') = (k @ CHR ''='' # v @ [NL]) # getlines r'" for r'
    using getlines_line [of "k @ CHR ''='' # v" r'] kv by (simp add: uapi_line_def uapi_key_def uapi_value_def)
  then show ?case
    using Cons.IH [OF kv(3)] uapi_token_line [OF kv(1,2)] by (simp add: p split: option.split)
qed simp

text \<open>C30. What a set request reports: for an answer of key lines ended by an empty line, the code is that of the
  last \<open>errno=\<close> line and a protocol error when there is none; for an answer that ends without the empty line
  it is the error of the stream, and never 0.\<close>

theorem userspace_set_device_code:
  assumes "interface_file (dev_name d) = Inr (\<lambda>_. answer)" and "snd (uapi_peers env (peers d))"
    and "list_all (\<lambda>(k, v). uapi_key k \<and> uapi_value v) ps" and "errno_values ps = map Some codes" and "0 \<le> eno"
  shows "(answer = concat (map (\<lambda>(k, v). uapi_line k v) ps) @ NL # rest \<longrightarrow>
      fst (userspace_set_device env interface_file eno d) = last (- EPROTO # codes)) \<and>
    (answer = concat (map (\<lambda>(k, v). uapi_line k v) ps) \<longrightarrow> fst (userspace_set_device env interface_file eno d) < 0)"
  using assms uapi_set_answer_pairs [OF assms(3,4), of "- EPROTO" rest] uapi_set_answer_unterminated [OF assms(3), of "- EPROTO"]
  by (auto simp: userspace_set_device_def Let_def split: prod.split)

theorem userspace_set_device_code_witness:
  "fst (userspace_set_device sample_env (\<lambda>_. Inr (\<lambda>_. uapi_line ''errno'' ''-22'' @ [NL])) 0 sample_uapi_device) = - 22"
proof -
  let ?ps = "[(''errno'', ''-22'')]"
  have "set_errno_value ''-22'' = Some (- 22)"
    by code_simp
  then have "list_all (\<lambda>(k, v). uapi_key k \<and> uapi_value v) ?ps" "errno_values ?ps = map Some [- 22]"
    by (simp_all add: uapi_value_def errno_values_def)
  from userspace_set_device_code [OF _ sample_uapi_printable(2) this, where interface_file = "\<lambda>_. Inr (\<lambda>_. uapi_line ''errno'' ''-22'' @ [NL])"
      and eno = 0 and rest = "[]" and answer = "uapi_line ''errno'' ''-22'' @ [NL]"]
  show ?thesis by simp
qed

text \<open>C36. The length of a prefix is reduced modulo 256 before its range is checked: an answer with a prefix
  of 256 more than an admissible one is accepted, with the reduced prefix.\<close>

theorem uapi_allowedip_truncates:
  assumes "allowedip_law env a"
  shows "uapi_allowedip env (allowedip_text env a @ ''/'' @ show_dec (unat (cidr a) + 256)) = Some a"
proof -
  have "of_nat (unat (cidr a) + 256) = cidr a"
    by simp
  then show ?thesis
    using uapi_allowedip_show [OF assms, of "unat (cidr a) + 256"] unsigned_less [of "cidr a", where 'a = nat] by simp
qed

theorem uapi_allowedip_truncates_witness:
  "uapi_allowedip sample_env ''10.0.0.0/264'' = Some \<lparr>family = AF_INET, ip = 10 # replicate 15 0, cidr = 8\<rparr>"
proof -
  let ?a = "\<lparr>family = AF_INET, ip = 10 # replicate 15 0, cidr = 8\<rparr>"
  have t: "take 4 (10 # replicate 15 0) = [10, 0, 0, 0 :: u8]" "drop 4 (10 # replicate 15 0) = replicate 12 (0 :: u8)"
    by (simp_all add: numeral_eq_Suc)
  then have law: "allowedip_law sample_env ?a" and addr: "allowedip_text sample_env ?a = ''10.0.0.0''"
    by (simp_all add: allowedip_law_def allowedip_text_def allowedip_wf_def ip4_def sample_env_def word_value_def
        text_value_def c_char)
  have "show_dec (unat (cidr ?a) + 256) = ''264''"
    by code_simp
  then show ?thesis
    using uapi_allowedip_truncates [OF law] unfolding addr by simp
qed

text \<open>An endpoint the answer gives and the resolver does not know ends the request with a positive code and
  no device.\<close>

lemma uapi_unresolved:
  assumes "interface_file iface = Inr (\<lambda>_. uapi_line ''public_key'' (key_to_hex k) @ uapi_line ''endpoint'' e @ rest)"
    and "length k = WG_KEY_LEN" and "uapi_value e" and "split_endpoint e = Inr (host, port)" and "e \<noteq> []"
    and "getaddrinfo env 0 host port = Gai_error x"
  shows "userspace_get_device env gp interface_file iface = (ENETUNREACH, None)"
proof -
  let ?s = "uapi_init iface" and ?q = "zero_peer\<lparr>public_key := k, flags := WGPEER_HAS_PUBLIC_KEY\<rparr>"
  let ?p = "peer_state (udev ?s) (peers (udev ?s)) ?q None"
  have "at_end (peers (udev ?s)) (upeer ?s)" "uret ?s = - EPROTO"
    by (simp_all add: uapi_init_def zero_device_def)
  from uapi_new_peer_line [OF this assms(2)]
  have "uapi_text env gp ?s (uapi_line ''public_key'' (key_to_hex k) @ uapi_line ''endpoint'' e @ rest)
      = uapi_text env gp ?p (uapi_line ''endpoint'' e @ rest)" .
  moreover have "getlines (uapi_line ''endpoint'' e @ rest) = (''endpoint'' @ CHR ''='' # e @ [NL]) # getlines rest"
    using getlines_line [of "''endpoint'' @ CHR ''='' # e" rest] assms(3) by (simp add: uapi_line_def uapi_value_def)
  moreover have "uapi_get_pair env gp ?p ''endpoint'' e = Goto_err ENETUNREACH"
    using assms(4-6) by (simp add: uapi_peer_pairs uapi_endpoint_def)
  ultimately show ?thesis
    using assms(1) uapi_token_line [OF uapi_keys(23) assms(3)]
    by (simp add: userspace_get_device_def uapi_text_def)
qed

text \<open>C37. A peer with the advanced security flag cannot be set over this protocol: the request fails with
  \<open>EINVAL\<close>, after the settings before it were written, and without the empty line that ends a request.\<close>

theorem userspace_set_device_awg:
  assumes "interface_file (dev_name d) = Inr server" and "peers d = ps @ p # qs" and "flags p AND WGPEER_HAS_AWG \<noteq> 0"
    and "list_all (\<lambda>p. flags p AND WGPEER_HAS_AWG = 0) ps"
  shows "userspace_set_device env interface_file eno d
    = (- EINVAL, uapi_line ''set'' ''1'' @ uapi_device_lines d @ fst (uapi_peers env ps) @ uapi_line ''public_key'' (key_to_hex (public_key p)))"
proof -
  have "uapi_peers env (ps @ p # qs) = (fst (uapi_peers env ps) @ uapi_line ''public_key'' (key_to_hex (public_key p)), False)"
    using assms(4) by (induction ps) (auto simp: Let_def assms(3) split: prod.splits)
  then show ?thesis
    using assms(1,2) by (simp add: userspace_set_device_def)
qed

theorem userspace_set_device_awg_witness:
  "fst (userspace_set_device sample_env (\<lambda>_. Inr (\<lambda>_. [])) 0 (zero_device\<lparr>peers := [zero_peer\<lparr>flags := WGPEER_HAS_AWG\<rparr>]\<rparr>)) = - EINVAL"
  by (subst userspace_set_device_awg [where ps = "[]" and qs = "[]" and p = "zero_peer\<lparr>flags := WGPEER_HAS_AWG\<rparr>"])
     (simp_all add: peer_flag_defs)

end
