(* ===== verification/Ipc.thy ===== *)
theory Ipc
  imports Uapi
begin

text \<open>
  The choice of the interface a command talks to,
  \<open>src/tunnel/tools/amneziawg-tools/src/ipc.c\<close>, and the sockets of userspace implementations,
  \<open>ipc-uapi-unix.h\<close> beside it: the growing list of interface names, the socket of an interface, and the
  dispatch between a userspace implementation and the kernel. The system calls are the fields of a state;
  removing a stale socket changes that state. The kernel side is an argument.
\<close>

abbreviation ENOENT :: int where "ENOENT \<equiv> 2"
abbreviation EBADF :: int where "EBADF \<equiv> 9"
abbreviation ECONNREFUSED :: int where "ECONNREFUSED \<equiv> 111"
abbreviation NUL :: char where "NUL \<equiv> CHR 0x00"

subsection \<open>The list of names\<close>

text \<open>The buffer is the memory of the allocation, a byte not written yet is \<open>None\<close>. A write outside of it
  is undefined behaviour, the result \<open>None\<close>. Allocation does not fail, and sizes stay below \<open>2 ^ 63\<close>.\<close>

record string_list =
  buffer :: "char option list"
  sl_len :: nat
  cap :: nat

definition empty_string_list :: string_list where
  "empty_string_list = \<lparr>buffer = [], sl_len = 0, cap = 0\<rparr>"

definition realloc :: "'a option list \<Rightarrow> nat \<Rightarrow> 'a option list" where
  "realloc buf n = take n buf @ replicate (n - length buf) None"

definition memcpy :: "'a list \<Rightarrow> nat \<Rightarrow> 'a list \<Rightarrow> 'a list option" where
  "memcpy dest off src =
     (if off + length src \<le> length dest then Some (take off dest @ src @ drop (off + length src) dest) else None)"

definition string_list_grow :: "string_list \<Rightarrow> nat \<Rightarrow> string_list" where
  "string_list_grow l len =
     (if len \<ge> cap l - sl_len l
      then let new_cap = cap l * 2;
               new_cap = (if new_cap < sl_len l + len + 1 then sl_len l + len + 1 else new_cap)
           in l\<lparr>buffer := realloc (buffer l) new_cap, cap := new_cap\<rparr>
      else l)"

definition string_list_add :: "string_list \<Rightarrow> string \<Rightarrow> string_list option" where
  "string_list_add l str =
     (let len = length str + 1
      in if len = 1 then Some l
         else let l = string_list_grow l len
              in case memcpy (buffer l) (sl_len l) (map Some (str @ [NUL])) of
                   None \<Rightarrow> None
                 | Some buf \<Rightarrow>
                     (case memcpy buf (sl_len l + len) [Some NUL] of
                        None \<Rightarrow> None
                      | Some buf \<Rightarrow> Some (l\<lparr>buffer := buf, sl_len := sl_len l + len\<rparr>)))"

text \<open>How \<open>show\<close> walks the result: the strings up to an empty one; \<open>None\<close> is a read outside of the buffer
  or of a byte not written.\<close>

function walk_names :: "char option list \<Rightarrow> string list option" where
  "walk_names mem =
     (let s = takeWhile (\<lambda>c. c \<noteq> Some NUL) mem
      in if length s = length mem \<or> None \<in> set s then None
         else if s = [] then Some []
         else map_option (\<lambda>ns. map the s # ns) (walk_names (drop (length s + 1) mem)))"
  by pat_completeness auto
termination by (relation "measure length") (auto intro!: diff_less)

subsection \<open>Sockets of userspace implementations\<close>

record unix_sys =
  runstatedir :: string
  stat_sock :: "string \<Rightarrow> int + bool"
  socket_err :: "int option"
  connect_path :: "string \<Rightarrow> int + (string \<Rightarrow> string)"
  unlink_err :: "string \<Rightarrow> int option"
  opendir_sock :: "int + string list"

definition SOCK_SUFFIX :: string where "SOCK_SUFFIX = ''.sock''"

text \<open>\<open>sun_path\<close> holds 107 characters and the terminator.\<close>

definition SOCK_PATH :: "unix_sys \<Rightarrow> string" where
  "SOCK_PATH sys = runstatedir sys @ ''/amneziawg/''"

definition sock_file :: "unix_sys \<Rightarrow> string \<Rightarrow> string" where
  "sock_file sys iface = take 107 (SOCK_PATH sys @ iface @ SOCK_SUFFIX)"

text \<open>\<open>unlink\<close>: the value of \<open>errno\<close> afterwards, and the state.\<close>

definition unlink_file :: "unix_sys \<Rightarrow> string \<Rightarrow> int \<Rightarrow> int \<times> unix_sys" where
  "unlink_file sys path eno =
     (case unlink_err sys path of
        Some e \<Rightarrow> (e, sys)
      | None \<Rightarrow> (eno, sys\<lparr>stat_sock := (stat_sock sys)(path := Inl ENOENT)\<rparr>))"

definition userspace_interface_file :: "unix_sys \<Rightarrow> string \<Rightarrow> (int + (string \<Rightarrow> string)) \<times> unix_sys" where
  "userspace_interface_file sys iface =
     (if strchr iface CHR ''/'' \<noteq> None then (Inl EINVAL, sys)
      else let path = sock_file sys iface
           in case stat_sock sys path of
                Inl e \<Rightarrow> (Inl e, sys)
              | Inr issock \<Rightarrow>
                  if \<not> issock then (Inl EBADF, sys)
                  else case socket_err sys of
                      Some e \<Rightarrow> (Inl e, sys)
                    | None \<Rightarrow>
                        (case connect_path sys path of
                           Inl e \<Rightarrow> (if e = ECONNREFUSED then let (eno, sys) = unlink_file sys path e in (Inl eno, sys)
                                     else (Inl e, sys))
                         | Inr server \<Rightarrow> (Inr server, sys)))"

definition userspace_has_wireguard_interface :: "unix_sys \<Rightarrow> string \<Rightarrow> bool \<times> unix_sys" where
  "userspace_has_wireguard_interface sys iface =
     (if strchr iface CHR ''/'' \<noteq> None then (False, sys)
      else let path = sock_file sys iface
           in case stat_sock sys path of
                Inl e \<Rightarrow> (False, sys)
              | Inr issock \<Rightarrow>
                  if \<not> issock then (False, sys)
                  else if socket_err sys \<noteq> None then (False, sys)
                  else if connect_path sys path = Inl ECONNREFUSED then (False, snd (unlink_file sys path ECONNREFUSED))
                  else (True, sys))"

text \<open>The interface a file of the directory names: its name without the suffix.\<close>

definition sock_name :: "string \<Rightarrow> string option" where
  "sock_name f =
     (let len = length f; n = length SOCK_SUFFIX
      in if len \<le> n then None
         else if drop (len - n) f \<noteq> SOCK_SUFFIX then None
         else Some (take (len - n) f))"

fun userspace_add_interfaces :: "unix_sys \<Rightarrow> string_list \<Rightarrow> string list \<Rightarrow> (string_list \<times> unix_sys) option" where
  "userspace_add_interfaces sys l [] = Some (l, sys)"
| "userspace_add_interfaces sys l (f # fs) =
     (case sock_name f of
        None \<Rightarrow> userspace_add_interfaces sys l fs
      | Some iface \<Rightarrow>
          (case userspace_has_wireguard_interface sys iface of
             (False, sys) \<Rightarrow> userspace_add_interfaces sys l fs
           | (True, sys) \<Rightarrow>
               (case string_list_add l iface of
                  None \<Rightarrow> None
                | Some l \<Rightarrow> userspace_add_interfaces sys l fs)))"

definition userspace_get_wireguard_interfaces :: "unix_sys \<Rightarrow> string_list \<Rightarrow> (int \<times> string_list \<times> unix_sys) option" where
  "userspace_get_wireguard_interfaces sys l =
     (case opendir_sock sys of
        Inl e \<Rightarrow> Some (if e = ENOENT then 0 else - e, l, sys)
      | Inr fs \<Rightarrow> map_option (\<lambda>(l, sys). (0, l, sys)) (userspace_add_interfaces sys l fs))"

subsection \<open>The entry points\<close>

text \<open>The kernel lists its interfaces by adding them to the list: \<open>kernel_names\<close> is the error code, or the
  names in the order the kernel reports them.\<close>

fun add_all :: "string_list \<Rightarrow> string list \<Rightarrow> string_list option" where
  "add_all l [] = Some l"
| "add_all l (n # ns) = (case string_list_add l n of None \<Rightarrow> None | Some l \<Rightarrow> add_all l ns)"

text \<open>The result: the memory returned, or the error in \<open>errno\<close>; \<open>None\<close> when a write went wrong.\<close>

definition ipc_list_devices :: "int + string list \<Rightarrow> unix_sys \<Rightarrow> ((int + char option list) \<times> unix_sys) option" where
  "ipc_list_devices kernel_names sys =
     (case kernel_names of
        Inl e \<Rightarrow> Some (Inl e, sys)
      | Inr ns \<Rightarrow>
          (case add_all empty_string_list ns of
             None \<Rightarrow> None
           | Some l \<Rightarrow>
               (case userspace_get_wireguard_interfaces sys l of
                  None \<Rightarrow> None
                | Some (ret, l, sys) \<Rightarrow>
                    Some (if ret \<noteq> 0 then Inl (- ret) else Inr (if buffer l = [] then [Some NUL] else buffer l), sys))))"

definition ipc_get_device ::
  "env \<Rightarrow> (u8 list \<Rightarrow> u8 list) \<Rightarrow> (string \<Rightarrow> int \<times> wgdevice option) \<Rightarrow> unix_sys \<Rightarrow> string \<Rightarrow> (int \<times> wgdevice option) \<times> unix_sys" where
  "ipc_get_device env gp kernel_get_device sys iface =
     (let (userspace, sys) = userspace_has_wireguard_interface sys iface
      in if userspace
         then let (f, sys) = userspace_interface_file sys iface in (userspace_get_device env gp (\<lambda>_. f) iface, sys)
         else (kernel_get_device iface, sys))"

definition ipc_set_device ::
  "env \<Rightarrow> (wgdevice \<Rightarrow> int) \<Rightarrow> int \<Rightarrow> unix_sys \<Rightarrow> wgdevice \<Rightarrow> int \<times> unix_sys" where
  "ipc_set_device env kernel_set_device eno sys d =
     (let (userspace, sys) = userspace_has_wireguard_interface sys (dev_name d)
      in if userspace
         then let (f, sys) = userspace_interface_file sys (dev_name d) in (fst (userspace_set_device env (\<lambda>_. f) eno d), sys)
         else (kernel_set_device d, sys))"

subsection \<open>The list as a sequence of names\<close>

text \<open>What a list holds: the names, each ended by a zero byte, then one more zero byte.\<close>

definition names_text :: "string list \<Rightarrow> string" where
  "names_text ns = concat (map (\<lambda>n. n @ [NUL]) ns)"

definition name_ok :: "string \<Rightarrow> bool" where
  "name_ok n \<longleftrightarrow> n \<noteq> [] \<and> NUL \<notin> set n"

definition holds :: "string_list \<Rightarrow> string list \<Rightarrow> bool" where
  "holds l ns \<longleftrightarrow> list_all name_ok ns \<and> length (buffer l) = cap l \<and> sl_len l = length (names_text ns) \<and>
     (if ns = [] then cap l = 0 else sl_len l < cap l \<and> take (Suc (sl_len l)) (buffer l) = map Some (names_text ns @ [NUL]))"

lemma holds_empty: "holds empty_string_list []"
  by (simp add: holds_def empty_string_list_def names_text_def)

lemma names_text_append [simp]: "names_text (ns @ ms) = names_text ns @ names_text ms"
  by (simp add: names_text_def)

lemma names_text_simps [simp]: "names_text [] = []" "names_text (n # ns) = n @ NUL # names_text ns"
  by (simp_all add: names_text_def)

lemma string_list_grow_holds:
  assumes "holds l ns" and "l' = string_list_grow l len" and "0 < len"
  shows "length (buffer l') = cap l' \<and> sl_len l' = sl_len l \<and> sl_len l + len < cap l' \<and>
    take (sl_len l) (buffer l') = map Some (names_text ns)"
proof -
  have t: "take (sl_len l) (buffer l) = map Some (names_text ns)"
  proof (cases "ns = []")
    case False
    then have "take (Suc (sl_len l)) (buffer l) = map Some (names_text ns @ [NUL])" "sl_len l = length (names_text ns)"
      using assms(1) by (auto simp: holds_def)
    then have "take (sl_len l) (take (Suc (sl_len l)) (buffer l)) = map Some (names_text ns)"
      by simp
    then show ?thesis by simp
  qed (use assms(1) in \<open>simp add: holds_def\<close>)
  have l: "length (buffer l) = cap l" "sl_len l \<le> cap l"
    using assms(1) by (auto simp: holds_def split: if_splits)
  show ?thesis
    using assms(2,3) t l by (auto simp: string_list_grow_def realloc_def Let_def)
qed

lemma string_list_add_holds:
  assumes "holds l ns" and "name_ok n"
  obtains l' where "string_list_add l n = Some l'" and "holds l' (ns @ [n])"
proof -
  define g where "g = string_list_grow l (Suc (length n))"
  have g: "length (buffer g) = cap g" "sl_len g = sl_len l" "sl_len l + Suc (length n) < cap g"
    "take (sl_len l) (buffer g) = map Some (names_text ns)"
    using string_list_grow_holds [OF assms(1) g_def] by simp_all
  have len: "sl_len l = length (names_text ns)" "list_all name_ok ns"
    using assms(1) by (auto simp: holds_def)
  obtain buf where m: "memcpy (buffer g) (sl_len g) (map Some (n @ [NUL])) = Some buf"
    and b: "length buf = cap g" "take (sl_len l + Suc (length n)) buf = map Some (names_text ns @ n @ [NUL])"
    using g len(1) by (auto simp: memcpy_def)
  obtain buf' where m': "memcpy buf (sl_len g + Suc (length n)) [Some NUL] = Some buf'"
    and b': "length buf' = cap g" "take (Suc (sl_len l + Suc (length n))) buf' = map Some (names_text ns @ n @ [NUL, NUL])"
    using g b by (auto simp: memcpy_def)
  let ?l = "g\<lparr>buffer := buf', sl_len := sl_len g + Suc (length n)\<rparr>"
  have "n \<noteq> []"
    using assms(2) by (simp add: name_ok_def)
  then have "string_list_add l n = Some ?l"
    using m m' by (simp add: string_list_add_def Let_def flip: g_def)
  moreover have "holds ?l (ns @ [n])"
    using assms(2) g b' len by (simp add: holds_def)
  ultimately show thesis
    by (rule that)
qed

declare walk_names.simps [simp del]

lemma walk_names_text:
  assumes "list_all name_ok ns"
  shows "walk_names (map Some (names_text ns @ [NUL]) @ rest) = Some ns"
  using assms
proof (induction ns)
  case Nil
  then show ?case
    by (subst walk_names.simps) (simp add: Let_def)
next
  case (Cons n ns)
  have n: "n \<noteq> []" "NUL \<notin> set n"
    using Cons.prems by (simp_all add: name_ok_def)
  let ?mem = "map Some (names_text (n # ns) @ [NUL]) @ rest"
  have mem: "?mem = map Some n @ Some NUL # map Some (names_text ns @ [NUL]) @ rest"
    by simp
  have s: "takeWhile (\<lambda>c. c \<noteq> Some NUL) ?mem = map Some n"
    unfolding mem by (rule split_at_char(1)) (use n(2) in auto)
  have "walk_names ?mem = map_option (\<lambda>ns. map the (map Some n) # ns) (walk_names (drop (length (map Some n) + 1) ?mem))"
    using n(1) unfolding walk_names.simps [of ?mem] s Let_def by auto
  also have "drop (length (map Some n) + 1) ?mem = map Some (names_text ns @ [NUL]) @ rest"
    by simp
  finally show ?case
    using Cons by (simp add: comp_def)
qed

lemma add_all_holds:
  assumes "holds l ns" and "list_all name_ok ms"
  shows "\<exists>l'. add_all l ms = Some l' \<and> holds l' (ns @ ms)"
  using assms
proof (induction ms arbitrary: l ns)
  case (Cons m ms)
  obtain l' where "string_list_add l m = Some l'" "holds l' (ns @ [m])"
    using string_list_add_holds [OF Cons.prems(1)] Cons.prems(2) by auto
  then show ?case
    using Cons.IH [of l' "ns @ [m]"] Cons.prems(2) by simp
qed simp

text \<open>The userspace interfaces of a directory: the files with the suffix whose socket is not refused.\<close>

definition alive :: "unix_sys \<Rightarrow> string \<Rightarrow> bool" where
  "alive sys iface \<longleftrightarrow> strchr iface CHR ''/'' = None \<and> stat_sock sys (sock_file sys iface) = Inr True \<and>
     socket_err sys = None \<and> connect_path sys (sock_file sys iface) \<noteq> Inl ECONNREFUSED"

text \<open>A state reached by removing refused sockets only.\<close>

definition cleaned :: "unix_sys \<Rightarrow> unix_sys \<Rightarrow> bool" where
  "cleaned sys sys' \<longleftrightarrow> (\<exists>st. sys' = sys\<lparr>stat_sock := st\<rparr> \<and>
     (\<forall>p. st p = stat_sock sys p \<or> stat_sock sys p = Inr True \<and> connect_path sys p = Inl ECONNREFUSED \<and> st p = Inl ENOENT))"

lemma cleaned_refl [simp]: "cleaned sys sys"
  by (auto simp: cleaned_def intro!: exI [of _ "stat_sock sys"])

lemma cleaned_trans: "cleaned a b \<Longrightarrow> cleaned b c \<Longrightarrow> cleaned a c"
  by (auto simp: cleaned_def) (metis sum.distinct(1))

lemma cleaned_sock_file [simp]: "cleaned sys sys' \<Longrightarrow> sock_file sys' = sock_file sys"
  by (auto simp: cleaned_def sock_file_def SOCK_PATH_def fun_eq_iff)

lemma cleaned_alive: "cleaned sys sys' \<Longrightarrow> alive sys' iface = alive sys iface"
  by (auto simp: cleaned_def alive_def sock_file_def SOCK_PATH_def) (metis sum.distinct(1))+

lemma cleaned_unlink:
  assumes "stat_sock sys p = Inr True" and "connect_path sys p = Inl ECONNREFUSED"
  shows "cleaned sys (snd (unlink_file sys p e))"
proof (cases "unlink_err sys p")
  case None
  then show ?thesis
    using assms by (auto simp: unlink_file_def cleaned_def intro!: exI [of _ "(stat_sock sys)(p := Inl ENOENT)"] split: if_splits)
qed (simp add: unlink_file_def)

lemma has_interface:
  "fst (userspace_has_wireguard_interface sys iface) = alive sys iface"
  "cleaned sys (snd (userspace_has_wireguard_interface sys iface))"
  using cleaned_unlink [of sys "sock_file sys iface"]
  by (auto simp: userspace_has_wireguard_interface_def alive_def Let_def split: sum.split)

lemma add_interfaces_holds:
  assumes "holds l ns" and "list_all (\<lambda>f. NUL \<notin> set f) fs" and "cleaned sys0 sys"
  shows "\<exists>l' sys'. userspace_add_interfaces sys l fs = Some (l', sys') \<and> cleaned sys0 sys' \<and>
    holds l' (ns @ filter (alive sys0) (List.map_filter sock_name fs))"
  using assms
proof (induction fs arbitrary: l ns sys)
  case Nil
  then show ?case by (simp add: map_filter_simps)
next
  case (Cons f fs)
  have fs: "list_all (\<lambda>f. NUL \<notin> set f) fs"
    using Cons.prems by simp
  show ?case
  proof (cases "sock_name f")
    case None
    then show ?thesis
      using Cons.IH [OF Cons.prems(1) fs Cons.prems(3)] by (simp add: map_filter_simps)
  next
    case (Some iface)
    have ok: "name_ok iface"
      using Some Cons.prems(2) by (auto simp: sock_name_def Let_def name_ok_def SOCK_SUFFIX_def split: if_splits dest: in_set_takeD)
    obtain sys' where h: "userspace_has_wireguard_interface sys iface = (alive sys0 iface, sys')" and c: "cleaned sys0 sys'"
      using has_interface [of sys iface] cleaned_alive [OF Cons.prems(3)] cleaned_trans [OF Cons.prems(3)]
      by (cases "userspace_has_wireguard_interface sys iface") auto
    obtain l' where "string_list_add l iface = Some l'" "holds l' (ns @ [iface])"
      using string_list_add_holds [OF Cons.prems(1) ok] by blast
    then show ?thesis
      using Some h Cons.IH [OF Cons.prems(1) fs c] Cons.IH [OF _ fs c, of l' "ns @ [iface]"]
      by (simp add: map_filter_simps)
  qed
qed

lemma holds_walk:
  assumes "holds l ns"
  shows "walk_names (if buffer l = [] then [Some NUL] else buffer l) = Some ns"
proof (cases "ns = []")
  case True
  then have "buffer l = []"
    using assms by (auto simp: holds_def)
  then show ?thesis
    using True walk_names_text [of "[]" "[]"] by simp
next
  case False
  then have "take (Suc (sl_len l)) (buffer l) = map Some (names_text ns @ [NUL])" "list_all name_ok ns" "buffer l \<noteq> []"
    using assms by (auto simp: holds_def)
  then show ?thesis
    using walk_names_text [of ns "drop (Suc (sl_len l)) (buffer l)"] append_take_drop_id [of "Suc (sl_len l)" "buffer l"] by simp
qed

text \<open>C5. Listing the interfaces is memory-safe and loses nothing: every write stays inside the buffer however
  it grew, and walking the result reads only written bytes and gives the kernel's interfaces followed by
  the userspace interfaces whose socket is not refused, in order; only refused sockets are removed.\<close>

theorem ipc_list_devices_names:
  assumes "list_all name_ok ks" and "opendir_sock sys = Inr fs" and "list_all (\<lambda>f. NUL \<notin> set f) fs"
  shows "\<exists>mem sys'. ipc_list_devices (Inr ks) sys = Some (Inr mem, sys') \<and> cleaned sys sys' \<and>
    walk_names mem = Some (ks @ filter (alive sys) (List.map_filter sock_name fs))"
proof -
  obtain l where l: "add_all empty_string_list ks = Some l" "holds l ks"
    using add_all_holds [OF holds_empty assms(1)] by auto
  obtain l' sys' where l': "userspace_add_interfaces sys l fs = Some (l', sys')" "cleaned sys sys'"
    "holds l' (ks @ filter (alive sys) (List.map_filter sock_name fs))"
    using add_interfaces_holds [OF l(2) assms(3) cleaned_refl] by blast
  then show ?thesis
    using l(1) assms(2) holds_walk [OF l'(3)]
    by (simp add: ipc_list_devices_def userspace_get_wireguard_interfaces_def)
qed

definition sample_sys :: unix_sys where
  "sample_sys = \<lparr>runstatedir = ''/var/run'',
     stat_sock = (\<lambda>p. if p = ''/var/run/amneziawg/wg1.sock'' \<or> p = ''/var/run/amneziawg/old.sock'' then Inr True else Inl ENOENT),
     socket_err = None,
     connect_path = (\<lambda>p. if p = ''/var/run/amneziawg/wg1.sock'' then Inr (\<lambda>_. uapi_line ''errno'' ''0'' @ [NL]) else Inl ECONNREFUSED),
     unlink_err = (\<lambda>_. None), opendir_sock = Inr [''.'', ''..'', ''old.sock'', ''wg1.sock'', ''note.txt'']\<rparr>"

theorem ipc_list_devices_names_witness:
  "\<exists>mem sys'. ipc_list_devices (Inr [''wg0'']) sample_sys = Some (Inr mem, sys') \<and> walk_names mem = Some [''wg0'', ''wg1'']"
proof -
  let ?fs = "[''.'', ''..'', ''old.sock'', ''wg1.sock'', ''note.txt'']"
  have "list_all name_ok [''wg0'']" "opendir_sock sample_sys = Inr ?fs" "list_all (\<lambda>f. NUL \<notin> set f) ?fs"
    by (simp_all add: name_ok_def sample_sys_def)
  moreover have "filter (alive sample_sys) (List.map_filter sock_name ?fs) = [''wg1'']"
    by (simp add: sample_sys_def alive_def map_filter_simps sock_name_def SOCK_SUFFIX_def sock_file_def SOCK_PATH_def strchr_def)
  ultimately show ?thesis
    using ipc_list_devices_names [of "[''wg0'']" sample_sys ?fs] by auto
qed

lemma ipc_get_device_served:
  obtains sys' where "userspace_has_wireguard_interface sys iface = (alive sys iface, sys')" and "cleaned sys sys'"
    and "ipc_get_device env gp kernel_get_device sys iface
     = (if alive sys iface
        then userspace_get_device env gp (\<lambda>_. connect_path sys (sock_file sys iface)) iface
        else kernel_get_device iface, sys')"
proof -
  obtain sys' where h: "userspace_has_wireguard_interface sys iface = (alive sys iface, sys')" and c: "cleaned sys sys'"
    using has_interface [of sys iface] by (cases "userspace_has_wireguard_interface sys iface") auto
  have f: "userspace_interface_file sys' iface = (connect_path sys (sock_file sys iface), sys')" if "alive sys iface"
  proof -
    have "alive sys' iface" "sock_file sys' = sock_file sys" "connect_path sys' = connect_path sys"
      using that c cleaned_alive [OF c] by (auto simp: cleaned_def)
    then show ?thesis
      by (auto simp: userspace_interface_file_def alive_def Let_def split: sum.split)
  qed
  have e: "ipc_get_device env gp kernel_get_device sys iface
     = (if alive sys iface
        then userspace_get_device env gp (\<lambda>_. connect_path sys (sock_file sys iface)) iface
        else kernel_get_device iface, sys')"
    using h f by (simp add: ipc_get_device_def)
  then show ?thesis
    using that h c by blast
qed

text \<open>C31. Choosing the implementation: an interface whose userspace socket is not refused is served through
  that socket, any other one by the kernel. The socket of a process that is gone is removed, and a later
  request no longer sees it; a name with a slash never reaches the file system.\<close>

theorem ipc_get_device_dispatch:
  "\<exists>sys'. ipc_get_device env gp kernel_get_device sys iface
     = (if alive sys iface
        then userspace_get_device env gp (\<lambda>_. connect_path sys (sock_file sys iface)) iface
        else kernel_get_device iface, sys') \<and> cleaned sys sys' \<and>
    (strchr iface CHR ''/'' \<noteq> None \<longrightarrow> sys' = sys) \<and>
    (stat_sock sys (sock_file sys iface) = Inr True \<and> connect_path sys (sock_file sys iface) = Inl ECONNREFUSED \<and>
     socket_err sys = None \<and> unlink_err sys (sock_file sys iface) = None \<and> strchr iface CHR ''/'' = None \<longrightarrow>
     stat_sock sys' (sock_file sys iface) = Inl ENOENT)"
proof -
  obtain sys' where h: "userspace_has_wireguard_interface sys iface = (alive sys iface, sys')" and c: "cleaned sys sys'"
    and e: "ipc_get_device env gp kernel_get_device sys iface
     = (if alive sys iface
        then userspace_get_device env gp (\<lambda>_. connect_path sys (sock_file sys iface)) iface
        else kernel_get_device iface, sys')"
    by (rule ipc_get_device_served)
  show ?thesis
  proof (intro exI conjI impI)
    assume "strchr iface CHR ''/'' \<noteq> None"
    then show "sys' = sys"
      using h by (simp add: userspace_has_wireguard_interface_def)
  next
    assume "stat_sock sys (sock_file sys iface) = Inr True \<and> connect_path sys (sock_file sys iface) = Inl ECONNREFUSED \<and>
      socket_err sys = None \<and> unlink_err sys (sock_file sys iface) = None \<and> strchr iface CHR ''/'' = None"
    then show "stat_sock sys' (sock_file sys iface) = Inl ENOENT"
      using h by (auto simp: userspace_has_wireguard_interface_def unlink_file_def Let_def)
  qed (rule e c)+
qed

theorem ipc_get_device_dispatch_witness:
  "\<exists>sys'. ipc_get_device sample_env (\<lambda>k. k) (\<lambda>_. (- 19, None)) sample_sys ''old'' = ((- 19, None), sys') \<and>
     stat_sock sys' ''/var/run/amneziawg/old.sock'' = Inl ENOENT"
proof -
  have s: "sock_file sample_sys ''old'' = ''/var/run/amneziawg/old.sock''"
    by (simp add: sample_sys_def sock_file_def SOCK_PATH_def SOCK_SUFFIX_def)
  have c: "stat_sock sample_sys ''/var/run/amneziawg/old.sock'' = Inr True"
    "connect_path sample_sys ''/var/run/amneziawg/old.sock'' = Inl ECONNREFUSED" "socket_err sample_sys = None"
    "unlink_err sample_sys ''/var/run/amneziawg/old.sock'' = None" "strchr ''old'' CHR ''/'' = None"
    by (simp_all add: sample_sys_def strchr_def)
  have "\<not> alive sample_sys ''old''"
    by (simp add: alive_def s c)
  with ipc_get_device_dispatch [of sample_env "\<lambda>k. k" "\<lambda>_. (- 19, None)" sample_sys "''old''"]
  show ?thesis
    by (simp only: s c if_False) blast
qed

end
