(* ===== verification/Terminal.thy ===== *)
theory Terminal
  imports Environment
begin

text \<open>
  Printing with colours, \<open>src/tunnel/tools/amneziawg-tools/src/terminal.c\<close> and \<open>terminal.h\<close>: the codes, the
  choice of the mode, and the removal of the codes from a text that is not printed to a terminal. The text is
  edited in place: a removed character becomes a zero byte, and the rest is printed around the zero bytes.
\<close>

abbreviation ESC :: char where "ESC \<equiv> CHR 0x1B"

definition TERMINAL_FG_RED :: string where "TERMINAL_FG_RED = ESC # ''[31m''"
definition TERMINAL_FG_GREEN :: string where "TERMINAL_FG_GREEN = ESC # ''[32m''"
definition TERMINAL_FG_YELLOW :: string where "TERMINAL_FG_YELLOW = ESC # ''[33m''"
definition TERMINAL_FG_CYAN :: string where "TERMINAL_FG_CYAN = ESC # ''[36m''"
definition TERMINAL_BOLD :: string where "TERMINAL_BOLD = ESC # ''[1m''"
definition TERMINAL_RESET :: string where "TERMINAL_RESET = ESC # ''[0m''"

text \<open>The mode, with whether the output is a terminal as an argument.\<close>

definition color_mode :: "env \<Rightarrow> bool \<Rightarrow> bool" where
  "color_mode env tty =
     (let var = getenv env ''WG_COLOR_MODE''
      in if var = Some ''always'' then True
         else if var = Some ''never'' then False
         else tty)"

text \<open>The inner loop: from position \<open>j\<close>, characters become zero up to and including the first letter.\<close>

function erase_code :: "string \<Rightarrow> nat \<Rightarrow> string" where
  "erase_code str j =
     (if j < length str
      then if char_is_alpha (schar (str ! j)) then str[j := CHR 0x00]
           else erase_code (str[j := CHR 0x00]) (j + 1)
      else str)"
  by pat_completeness auto
termination by (relation "measure (\<lambda>(str, j). length str - j)") auto

declare erase_code.simps [simp del]

lemma length_erase_code [simp]: "length (erase_code str j) = length str"
proof (induction str j rule: erase_code.induct)
  case (1 str j)
  then show ?case
    by (subst erase_code.simps) simp
qed

text \<open>The outer loop, from position \<open>i\<close> up to two before the end.\<close>

function erase_codes :: "string \<Rightarrow> nat \<Rightarrow> string" where
  "erase_codes str i =
     (if i + 2 < length str
      then if str ! i = ESC \<and> str ! (i + 1) = CHR ''[''
           then erase_codes (erase_code (str[i := CHR 0x00, i + 1 := CHR 0x00]) (i + 2)) (i + 1)
           else erase_codes str (i + 1)
      else str)"
  by pat_completeness auto
termination by (relation "measure (\<lambda>(str, i). length str - i)") auto

declare erase_codes.simps [simp del]

text \<open>The printing loop: a run of characters, then the zero bytes after it are skipped.\<close>

function put_runs :: "string \<Rightarrow> string" where
  "put_runs str =
     (if str = [] then []
      else takeWhile (\<lambda>c. c \<noteq> CHR 0x00) str @
           put_runs (dropWhile (\<lambda>c. c = CHR 0x00) (dropWhile (\<lambda>c. c \<noteq> CHR 0x00) str)))"
  by pat_completeness auto
termination
proof (relation "measure length")
  fix str :: string
  assume "str \<noteq> []"
  then obtain c cs where s: "str = c # cs"
    by (cases str) auto
  have "length (dropWhile (\<lambda>c. c = CHR 0x00) (dropWhile (\<lambda>c. c \<noteq> CHR 0x00) str)) \<le> length cs"
  proof (cases "c = CHR 0x00")
    case True
    then show ?thesis
      by (simp add: s length_dropWhile_le)
  next
    case False
    then show ?thesis
      using length_dropWhile_le [of "\<lambda>c. c = CHR 0x00" "dropWhile (\<lambda>c. c \<noteq> CHR 0x00) cs"]
        length_dropWhile_le [of "\<lambda>c. c \<noteq> CHR 0x00" cs] by (simp add: s)
  qed
  then show "(dropWhile (\<lambda>c. c = CHR 0x00) (dropWhile (\<lambda>c. c \<noteq> CHR 0x00) str), str) \<in> measure length"
    by (simp add: s)
qed simp

declare put_runs.simps [simp del]

definition filter_ansi :: "bool \<Rightarrow> string \<Rightarrow> string" where
  "filter_ansi color str = (if color then str else put_runs (erase_codes str 0))"

subsection \<open>What remains\<close>

lemma put_runs_filter: "put_runs str = filter (\<lambda>c. c \<noteq> CHR 0x00) str"
proof (induction str rule: put_runs.induct)
  case (1 str)
  let ?P = "\<lambda>c. c \<noteq> CHR 0x00"
  have *: "filter ?P (dropWhile (\<lambda>c. c = CHR 0x00) xs) = filter ?P xs" for xs
    by (induction xs) auto
  have "filter ?P str = filter ?P (takeWhile ?P str) @ filter ?P (dropWhile ?P str)"
    by (metis filter_append takeWhile_dropWhile_id)
  moreover have "filter ?P (takeWhile ?P str) = takeWhile ?P str"
    by (metis filter_id_conv set_takeWhileD)
  ultimately show ?case
    using 1 * by (subst put_runs.simps) auto
qed

text \<open>The reference: a text without its codes, where a code is the two characters that open it and what
  follows up to a letter.\<close>

fun skip_code :: "string \<Rightarrow> string" where
  "skip_code [] = []"
| "skip_code (c # cs) = (if char_is_alpha (schar c) then cs else skip_code cs)"

lemma length_skip_code [simp]: "length (skip_code s) \<le> length s"
  by (induction s) auto

function plain_text :: "string \<Rightarrow> string" where
  "plain_text (c # d # e # s) =
     (if c = ESC \<and> d = CHR ''['' then plain_text (skip_code (e # s)) else c # plain_text (d # e # s))"
| "plain_text [] = []"
| "plain_text [c] = [c]"
| "plain_text [c, d] = [c, d]"
  by pat_completeness auto
termination
proof (relation "measure length")
  fix c d e and s :: string
  show "(skip_code (e # s), c # d # e # s) \<in> measure length"
    using length_skip_code [of "e # s"] by (simp del: length_skip_code skip_code.simps)
qed auto

text \<open>The edit of a suffix.\<close>

fun zero_code :: "string \<Rightarrow> string" where
  "zero_code [] = []"
| "zero_code (c # cs) = CHR 0x00 # (if char_is_alpha (schar c) then cs else zero_code cs)"

lemma length_zero_code [simp]: "length (zero_code s) = length s"
  by (induction s) auto

lemma erase_code_suffix: "erase_code (pre @ s) (length pre) = pre @ zero_code s"
proof (induction s arbitrary: pre)
  case Nil
  then show ?case by (simp add: erase_code.simps)
next
  case (Cons c cs)
  have "erase_code ((pre @ [CHR 0x00]) @ cs) (length (pre @ [CHR 0x00])) = pre @ CHR 0x00 # zero_code cs"
    using Cons [of "pre @ [CHR 0x00]"] by simp
  then show ?case
    by (subst erase_code.simps) (simp add: nth_append)
qed

lemma zero_code_skip: "\<exists>n. zero_code s = replicate n (CHR 0x00) @ skip_code s"
proof (induction s)
  case (Cons c cs)
  then obtain n where "zero_code cs = replicate n (CHR 0x00) @ skip_code cs"
    by blast
  then show ?case
    by (intro exI [of _ "if char_is_alpha (schar c) then 1 else Suc n"]) simp
qed simp

lemma erase_codes_step:
  "erase_codes (pre @ c # d # e # s) (length pre)
    = (if c = ESC \<and> d = CHR ''['' then erase_codes ((pre @ [CHR 0x00]) @ CHR 0x00 # zero_code (e # s)) (length (pre @ [CHR 0x00]))
       else erase_codes ((pre @ [c]) @ d # e # s) (length (pre @ [c])))"
proof -
  have "erase_code ((pre @ [CHR 0x00, CHR 0x00]) @ e # s) (length (pre @ [CHR 0x00, CHR 0x00])) = pre @ [CHR 0x00, CHR 0x00] @ zero_code (e # s)"
    using erase_code_suffix [of "pre @ [CHR 0x00, CHR 0x00]" "e # s"] by (simp del: zero_code.simps)
  then show ?thesis
    by (subst erase_codes.simps) (simp add: nth_append list_update_append del: zero_code.simps)
qed

lemma erase_codes_short: "length s \<le> 2 \<Longrightarrow> erase_codes (pre @ s) (length pre) = pre @ s"
  by (subst erase_codes.simps) simp

abbreviation visible :: "string \<Rightarrow> string" where "visible s \<equiv> filter (\<lambda>c. c \<noteq> CHR 0x00) s"

lemma short_or_long: "length s \<le> 2 \<or> (\<exists>c d e t. s = c # d # e # t)"
  by (metis Suc_le_length_iff nat_le_linear not_less_eq_eq numeral_2_eq_2)

lemma erase_codes_zeros:
  "\<exists>pre'. visible pre' = visible pre \<and>
     visible (erase_codes (pre @ replicate n (CHR 0x00) @ s) (length pre)) = visible (erase_codes (pre' @ s) (length pre'))"
proof (induction n arbitrary: pre)
  case 0
  then show ?case by auto
next
  case (Suc n)
  let ?t = "replicate n (CHR 0x00) @ s"
  show ?case
  proof (cases "length (CHR 0x00 # ?t) \<le> 2")
    case True
    then have "length s \<le> 2" by simp
    then show ?thesis
      using erase_codes_short [OF True, of pre] erase_codes_short [of s pre] by (intro exI [of _ pre]) simp
  next
    case False
    then obtain d e t where t: "?t = d # e # t"
      using short_or_long [of "CHR 0x00 # ?t"] by auto
    have "erase_codes (pre @ CHR 0x00 # ?t) (length pre) = erase_codes ((pre @ [CHR 0x00]) @ ?t) (length (pre @ [CHR 0x00]))"
      using erase_codes_step [of pre "CHR 0x00" d e t] unfolding t by simp
    then show ?thesis
      using Suc.IH [of "pre @ [CHR 0x00]"] by auto
  qed
qed

lemma erase_codes_plain:
  "visible (erase_codes (pre @ s) (length pre)) = visible pre @ visible (plain_text s)"
proof (induction s arbitrary: pre rule: plain_text.induct)
  case (1 c d e s)
  show ?case
  proof (cases "c = ESC \<and> d = CHR ''[''")
    case True
    obtain n where n: "zero_code (e # s) = replicate n (CHR 0x00) @ skip_code (e # s)"
      using zero_code_skip by blast
    obtain pre' where pre': "visible pre' = visible (pre @ [CHR 0x00])"
      "visible (erase_codes ((pre @ [CHR 0x00]) @ replicate (Suc n) (CHR 0x00) @ skip_code (e # s)) (length (pre @ [CHR 0x00])))
        = visible (erase_codes (pre' @ skip_code (e # s)) (length pre'))"
      using erase_codes_zeros by blast
    have "erase_codes (pre @ c # d # e # s) (length pre)
        = erase_codes ((pre @ [CHR 0x00]) @ replicate (Suc n) (CHR 0x00) @ skip_code (e # s)) (length (pre @ [CHR 0x00]))"
      using True erase_codes_step [of pre c d e s] unfolding n by (simp del: skip_code.simps)
    then show ?thesis
      using pre' 1(1) [OF True, of pre'] True by (simp del: skip_code.simps)
  next
    case False
    then have "erase_codes (pre @ c # d # e # s) (length pre) = erase_codes ((pre @ [c]) @ d # e # s) (length (pre @ [c]))"
      by (simp only: erase_codes_step if_False)
    then show ?thesis
      using 1(2) [OF False, of "pre @ [c]"] False by (auto simp del: skip_code.simps zero_code.simps)
  qed
qed (simp_all add: erase_codes_short erase_codes_short [of "[]", simplified])

text \<open>C8. Removing the colour codes in place gives the text without its codes: for a formatted text (which has no
  zero byte), the loops that overwrite the codes with zero bytes and print around them output exactly the
  reference, and with colours the text is printed unchanged.\<close>

theorem filter_ansi_plain:
  assumes "CHR 0x00 \<notin> set s"
  shows "filter_ansi color s = (if color then s else plain_text s)"
proof -
  have sk: "set (skip_code s) \<subseteq> set s" for s
    by (induction s) auto
  have "set (plain_text s) \<subseteq> set s"
    by (induction s rule: plain_text.induct) (use sk in \<open>auto split: if_splits simp del: skip_code.simps\<close>, (meson in_mono list.set_intros sk set_ConsD)+)
  then have "visible (plain_text s) = plain_text s"
    using assms by (auto simp: filter_id_conv)
  then show ?thesis
    using erase_codes_plain [of "[]" s] by (simp add: filter_ansi_def put_runs_filter)
qed

theorem filter_ansi_plain_witness:
  "filter_ansi False (TERMINAL_BOLD @ ''peer'' @ TERMINAL_RESET @ '': x'') = ''peer: x''"
proof -
  let ?s = "TERMINAL_BOLD @ ''peer'' @ TERMINAL_RESET @ '': x''"
  have "CHR 0x00 \<notin> set ?s"
    by (simp add: TERMINAL_BOLD_def TERMINAL_RESET_def)
  moreover have "plain_text ?s = ''peer: x''"
    by code_simp
  ultimately show ?thesis
    using filter_ansi_plain [of ?s False] by simp
qed

end
