(* ===== verification/Show.thy ===== *)
theory Show
  imports Ipc Terminal
begin

unbundle bit_operations_syntax

text \<open>
  The command that prints interfaces, \<open>src/tunnel/tools/amneziawg-tools/src/show.c\<close>: the order of the
  peers, the three formats, and the command. The output is the string printed. Times are 64-bit words read as
  signed numbers; the current time is an argument. A floating-point quantity is computed exactly as IEEE double
  arithmetic does: the conversion rounds to 53 bits, the divisions are by powers of two and exact, and
  the conversion \<open>%.2f\<close> rounds to the nearest hundredth, ties to even.
\<close>

subsection \<open>The order of the peers\<close>

definition never_seen :: "wgpeer \<Rightarrow> bool" where
  "never_seen p \<longleftrightarrow> tv_sec (last_handshake_time p) = 0 \<and> tv_nsec (last_handshake_time p) = 0"

definition peer_cmp :: "wgpeer \<Rightarrow> wgpeer \<Rightarrow> int" where
  "peer_cmp a b =
     (if never_seen a \<and> \<not> never_seen b then 1
      else if never_seen b \<and> \<not> never_seen a then - 1
      else let diff = tv_sec (last_handshake_time a) - tv_sec (last_handshake_time b);
               diff = (if diff = 0 then tv_nsec (last_handshake_time a) - tv_nsec (last_handshake_time b) else diff)
           in if sint diff < 0 then 1 else if sint diff > 0 then - 1 else 0)"

definition sort_peers :: "wgdevice \<Rightarrow> wgdevice" where
  "sort_peers d = (if peers d = [] then d else d\<lparr>peers := qsort peer_cmp (peers d)\<rparr>)"

subsection \<open>Values\<close>

definition maybe_key :: "u8 list \<Rightarrow> bool \<Rightarrow> string" where
  "maybe_key k have_it = (if \<not> have_it then ''(none)'' else key_to_base64 k)"

definition masked_key :: "env \<Rightarrow> u8 list \<Rightarrow> string" where
  "masked_key env k = (if getenv env ''WG_HIDE_KEYS'' = Some ''never'' then key_to_base64 k else ''(hidden)'')"

definition show_ip :: "env \<Rightarrow> wgallowedip \<Rightarrow> string" where
  "show_ip env a =
     (if family a = AF_INET then inet_ntop4 env (ip4 a)
      else if family a = AF_INET6 then inet_ntop6 env (ip6 a) else [])"

text \<open>The text of the error \<open>getnameinfo\<close> reports is an argument.\<close>

definition show_endpoint :: "env \<Rightarrow> string \<Rightarrow> sockaddr \<Rightarrow> string" where
  "show_endpoint env gai_strerror a =
     (case getnameinfo env a of
        None \<Rightarrow> gai_strerror
      | Some (host, service) \<Rightarrow>
          if is_SA_IN6 a \<and> strchr host CHR '':'' \<noteq> None then ''['' @ host @ '']:'' @ service else host @ '':'' @ service)"

text \<open>The functions of the library that print to a buffer. The memory is the array the buffer is in, a position in it stands for the
  pointer, and the answer is \<open>None\<close> when a byte outside the array is written. \<open>snprintf\<close> with the text the format gives: it cuts the text to
  the size, less the terminating NUL, and returns the length of the whole text. \<open>strncpy\<close> fills with NUL.\<close>

definition write_at :: "string \<Rightarrow> nat \<Rightarrow> string \<Rightarrow> string option" where
  "write_at mem pos out = (if pos + length out \<le> length mem then Some (take pos mem @ out @ drop (pos + length out) mem) else None)"

definition snprintf :: "string \<Rightarrow> nat \<Rightarrow> u64 \<Rightarrow> string \<Rightarrow> (string \<times> u64) option" where
  "snprintf mem pos n text =
     (case write_at mem pos (if n = 0 then [] else take (unat n - 1) text @ [CHR 0x00]) of
        None \<Rightarrow> None
      | Some mem \<Rightarrow> Some (mem, of_nat (length text)))"

definition strncpy :: "string \<Rightarrow> nat \<Rightarrow> string \<Rightarrow> u64 \<Rightarrow> string option" where
  "strncpy mem pos src n = write_at mem pos (take (unat n) src @ replicate (unat n - length src) (CHR 0x00))"

text \<open>A duration in the buffer at position \<open>buf\<close> of the memory: the calls for the five units, each with the offset the calls before have
  come to, and the offset after them.\<close>

definition time_unit :: "nat \<Rightarrow> u64 \<Rightarrow> u64 \<Rightarrow> string \<Rightarrow> string \<times> u64 \<Rightarrow> (string \<times> u64) option" where
  "time_unit buf len n name = (\<lambda>(mem, offset).
     if n \<noteq> 0
     then case snprintf mem (buf + unat offset) (len - offset)
            ((if offset \<noteq> 0 then '', '' else []) @ show_dec (unat n) @ '' '' @ TERMINAL_FG_CYAN @ name @ (if n = 1 then [] else ''s'') @ TERMINAL_RESET) of
         None \<Rightarrow> None
       | Some (mem, printed) \<Rightarrow> Some (mem, offset + printed)
     else Some (mem, offset))"

definition pretty_time :: "string \<Rightarrow> nat \<Rightarrow> u64 \<Rightarrow> u64 \<Rightarrow> (string \<times> u64) option" where
  "pretty_time mem buf len left =
     (let years = left div (365 * 24 * 60 * 60);
          left = left mod (365 * 24 * 60 * 60);
          days = left div (24 * 60 * 60);
          left = left mod (24 * 60 * 60);
          hours = left div (60 * 60);
          left = left mod (60 * 60);
          minutes = left div 60;
          seconds = left mod 60
      in Option.bind (time_unit buf len years ''year'' (mem, 0)) (\<lambda>s.
         Option.bind (time_unit buf len days ''day'' s) (\<lambda>s.
         Option.bind (time_unit buf len hours ''hour'' s) (\<lambda>s.
         Option.bind (time_unit buf len minutes ''minute'' s)
           (time_unit buf len seconds ''second'')))))"

text \<open>\<open>ago\<close> and \<open>every\<close> on their static buffers, given as they are before the call; the buffer after it.\<close>

definition ago :: "s64 \<Rightarrow> string \<Rightarrow> timespec64 \<Rightarrow> string option" where
  "ago now buf t =
     Option.bind
       (if now = tv_sec t then strncpy buf 0 ''Now'' (1024 - 1)
        else if sint now < sint (tv_sec t)
        then strncpy buf 0 (''('' @ TERMINAL_FG_RED @ ''System clock wound backward; connection problems may ensue.'' @ TERMINAL_RESET @ '')'') (1024 - 1)
        else Option.bind (pretty_time buf 0 1024 (now - tv_sec t)) (\<lambda>(buf, offset). strncpy buf (unat offset) '' ago'' (1024 - offset - 1)))
       (\<lambda>buf. write_at buf 1023 [CHR 0x00])"

definition every :: "string \<Rightarrow> u16 \<Rightarrow> string option" where
  "every buf seconds =
     (case pretty_time buf (length ''every '') (1024 - of_nat (length ''every '') - 1) (ucast seconds) of
        None \<Rightarrow> None
      | Some (buf, offset) \<Rightarrow> Some buf)"

text \<open>The strings these functions leave in their buffers, as the theorem below on the buffers shows.\<close>

definition time_unit_text :: "string \<Rightarrow> nat \<Rightarrow> string \<Rightarrow> string" where
  "time_unit_text buf n name =
     (if n \<noteq> 0
      then buf @ (if buf \<noteq> [] then '', '' else []) @ show_dec n @ '' '' @ TERMINAL_FG_CYAN @ name @ (if n = 1 then [] else ''s'') @ TERMINAL_RESET
      else buf)"

definition pretty_time_text :: "u64 \<Rightarrow> string" where
  "pretty_time_text left =
     (let years = left div (365 * 24 * 60 * 60);
          left = left mod (365 * 24 * 60 * 60);
          days = left div (24 * 60 * 60);
          left = left mod (24 * 60 * 60);
          hours = left div (60 * 60);
          left = left mod (60 * 60);
          minutes = left div 60;
          seconds = left mod 60
      in time_unit_text (time_unit_text (time_unit_text (time_unit_text (time_unit_text []
           (unat years) ''year'') (unat days) ''day'') (unat hours) ''hour'') (unat minutes) ''minute'') (unat seconds) ''second'')"

definition ago_text :: "s64 \<Rightarrow> timespec64 \<Rightarrow> string" where
  "ago_text now t =
     (if now = tv_sec t then ''Now''
      else if sint now < sint (tv_sec t)
      then ''('' @ TERMINAL_FG_RED @ ''System clock wound backward; connection problems may ensue.'' @ TERMINAL_RESET @ '')''
      else pretty_time_text (now - tv_sec t) @ '' ago'')"

definition every_text :: "u16 \<Rightarrow> string" where
  "every_text seconds = ''every '' @ pretty_time_text (ucast seconds)"

text \<open>\<open>a / b\<close> rounded to the nearest integer, ties to even; the integer a double holds for \<open>b\<close>; and \<open>%.2f\<close> of
  a quotient.\<close>

definition round_div :: "nat \<Rightarrow> nat \<Rightarrow> nat" where
  "round_div a b =
     (let q = a div b; r = a mod b
      in if 2 * r < b then q else if 2 * r > b then q + 1 else if even q then q else q + 1)"

fun bit_length :: "nat \<Rightarrow> nat" where
  "bit_length n = (if n = 0 then 0 else Suc (bit_length (n div 2)))"

declare bit_length.simps [simp del]

definition to_double :: "u64 \<Rightarrow> nat" where
  "to_double b = (let e = bit_length (unat b) - 53 in round_div (unat b) (2 ^ e) * 2 ^ e)"

definition fmt_2f :: "nat \<Rightarrow> nat \<Rightarrow> string" where
  "fmt_2f a b =
     (let h = round_div (100 * a) b
      in show_dec (h div 100) @ ''.'' @ [digit_char (h mod 100 div 10), digit_char (h mod 10)])"

definition show_unit :: "string \<Rightarrow> string \<Rightarrow> string" where
  "show_unit n name = n @ '' '' @ TERMINAL_FG_CYAN @ name @ TERMINAL_RESET"

definition show_bytes :: "u64 \<Rightarrow> string" where
  "show_bytes b =
     (if b < 1024 then show_unit (show_dec (unat b)) ''B''
      else if b < 1024 * 1024 then show_unit (fmt_2f (to_double b) 1024) ''KiB''
      else if b < 1024 * 1024 * 1024 then show_unit (fmt_2f (to_double b) (1024 * 1024)) ''MiB''
      else if b < 1024 * 1024 * 1024 * 1024 then show_unit (fmt_2f (to_double b) (1024 * 1024 * 1024)) ''GiB''
      else show_unit (fmt_2f (to_double b) (1024 * 1024 * 1024 * 1024)) ''TiB'')"

subsection \<open>The format for people\<close>

text \<open>What the printing functions depend on besides the device: the environment, the current time, the
  text for an address error, and whether colours are printed.\<close>

record show_ctx =
  show_env :: env
  show_now :: s64
  show_gai :: string
  show_color :: bool

definition pretty_line :: "show_ctx \<Rightarrow> string \<Rightarrow> string \<Rightarrow> string" where
  "pretty_line c name v = filter_ansi (show_color c) (''  '' @ TERMINAL_BOLD @ name @ TERMINAL_RESET @ '': '' @ v @ [NL])"

definition pretty_num :: "show_ctx \<Rightarrow> string \<Rightarrow> u16 \<Rightarrow> string" where
  "pretty_num c name n = print_if (n \<noteq> 0) (pretty_line c name (show_dec (unat n)))"

definition pretty_str :: "show_ctx \<Rightarrow> string \<Rightarrow> string option \<Rightarrow> string" where
  "pretty_str c name s = (case s of None \<Rightarrow> [] | Some v \<Rightarrow> pretty_line c name v)"

definition pretty_interface :: "show_ctx \<Rightarrow> wgdevice \<Rightarrow> string" where
  "pretty_interface c d =
     filter_ansi (show_color c) TERMINAL_RESET @
     filter_ansi (show_color c) (TERMINAL_FG_GREEN @ TERMINAL_BOLD @ ''interface'' @ TERMINAL_RESET @ '': '' @ TERMINAL_FG_GREEN @ dev_name d @ TERMINAL_RESET @ [NL]) @
     print_if (dev_flags d AND WGDEVICE_HAS_PUBLIC_KEY \<noteq> 0) (pretty_line c ''public key'' (key_to_base64 (dev_public_key d))) @
     print_if (dev_flags d AND WGDEVICE_HAS_PRIVATE_KEY \<noteq> 0) (pretty_line c ''private key'' (masked_key (show_env c) (private_key d))) @
     pretty_num c ''listening port'' (listen_port d) @
     print_if (fwmark d \<noteq> 0) (pretty_line c ''fwmark'' (''0x'' @ show_hex (unat (fwmark d)))) @
     pretty_num c ''jc'' (junk_packet_count d) @
     pretty_num c ''jmin'' (junk_packet_min_size d) @
     pretty_num c ''jmax'' (junk_packet_max_size d) @
     pretty_num c ''s1'' (init_packet_junk_size d) @
     pretty_num c ''s2'' (response_packet_junk_size d) @
     pretty_num c ''s3'' (cookie_reply_packet_junk_size d) @
     pretty_num c ''s4'' (transport_packet_junk_size d) @
     pretty_str c ''h1'' (init_packet_magic_header d) @
     pretty_str c ''h2'' (response_packet_magic_header d) @
     pretty_str c ''h3'' (underload_packet_magic_header d) @
     pretty_str c ''h4'' (transport_packet_magic_header d) @
     pretty_str c ''i1'' (i1 d) @ pretty_str c ''i2'' (i2 d) @ pretty_str c ''i3'' (i3 d) @ pretty_str c ''i4'' (i4 d) @ pretty_str c ''i5'' (i5 d)"

text \<open>A list of addresses: each with its separator, another one than the last.\<close>

fun show_allowedips :: "(wgallowedip \<Rightarrow> string) \<Rightarrow> string \<Rightarrow> string \<Rightarrow> wgallowedip list \<Rightarrow> string" where
  "show_allowedips f sep fin [] = []"
| "show_allowedips f sep fin (a # as) = f a @ (if as \<noteq> [] then sep else fin) @ show_allowedips f sep fin as"

definition pretty_allowedips :: "show_ctx \<Rightarrow> wgallowedip list \<Rightarrow> string" where
  "pretty_allowedips c as =
     filter_ansi (show_color c) (''  '' @ TERMINAL_BOLD @ ''allowed ips'' @ TERMINAL_RESET @ '': '') @
     (if as \<noteq> []
      then concat (map (\<lambda>i. filter_ansi (show_color c)
             (show_ip (show_env c) (as ! i) @ TERMINAL_FG_CYAN @ ''/'' @ TERMINAL_RESET @ show_dec (unat (cidr (as ! i))) @
              (if Suc i < length as then '', '' else [NL]))) [0..<length as])
      else filter_ansi (show_color c) (''(none)'' @ [NL]))"

definition pretty_peer :: "show_ctx \<Rightarrow> wgpeer \<Rightarrow> string" where
  "pretty_peer c p =
     filter_ansi (show_color c) (TERMINAL_FG_YELLOW @ TERMINAL_BOLD @ ''peer'' @ TERMINAL_RESET @ '': '' @ TERMINAL_FG_YELLOW @ key_to_base64 (public_key p) @ TERMINAL_RESET @ [NL]) @
     print_if (flags p AND WGPEER_HAS_PRESHARED_KEY \<noteq> 0) (pretty_line c ''preshared key'' (masked_key (show_env c) (preshared_key p))) @
     print_if (endpoint p \<noteq> SA_UNSPEC) (pretty_line c ''endpoint'' (show_endpoint (show_env c) (show_gai c) (endpoint p))) @
     pretty_allowedips c (allowedips p) @
     print_if (tv_sec (last_handshake_time p) \<noteq> 0) (pretty_line c ''latest handshake'' (ago_text (show_now c) (last_handshake_time p))) @
     print_if (rx_bytes p \<noteq> 0 \<or> tx_bytes p \<noteq> 0)
       (filter_ansi (show_color c) (''  '' @ TERMINAL_BOLD @ ''transfer'' @ TERMINAL_RESET @ '': '') @
        filter_ansi (show_color c) (show_bytes (rx_bytes p) @ '' received, '') @
        filter_ansi (show_color c) (show_bytes (tx_bytes p) @ '' sent'' @ [NL])) @
     print_if (persistent_keepalive_interval p \<noteq> 0) (pretty_line c ''persistent keepalive'' (every_text (persistent_keepalive_interval p)))"

fun pretty_peers :: "show_ctx \<Rightarrow> wgpeer list \<Rightarrow> string" where
  "pretty_peers c [] = []"
| "pretty_peers c (p # ps) = pretty_peer c p @ print_if (ps \<noteq> []) (filter_ansi (show_color c) [NL]) @ pretty_peers c ps"

definition pretty_print :: "show_ctx \<Rightarrow> wgdevice \<Rightarrow> string" where
  "pretty_print c d =
     (let ps = peers (sort_peers d)
      in pretty_interface c d @ print_if (peers d \<noteq> []) (filter_ansi (show_color c) [NL]) @ pretty_peers c ps)"

subsection \<open>The formats for programs\<close>

abbreviation TAB :: char where "TAB \<equiv> CHR 0x09"

definition tab_name :: "bool \<Rightarrow> wgdevice \<Rightarrow> string" where
  "tab_name with_interface d = print_if with_interface (dev_name d @ [TAB])"

definition off_or :: "u16 \<Rightarrow> string" where
  "off_or n = (if n \<noteq> 0 then show_dec (unat n) else ''off'')"

definition show_fwmark :: "u32 \<Rightarrow> string" where
  "show_fwmark m = (if m \<noteq> 0 then ''0x'' @ show_hex (unat m) else ''off'')"

definition endpoint_or_none :: "show_ctx \<Rightarrow> sockaddr \<Rightarrow> string" where
  "endpoint_or_none c a = (if a \<noteq> SA_UNSPEC then show_endpoint (show_env c) (show_gai c) a else ''(none)'')"

definition allowedips_or_none :: "show_ctx \<Rightarrow> string \<Rightarrow> string \<Rightarrow> wgallowedip list \<Rightarrow> string" where
  "allowedips_or_none c sep fin as =
     (if as \<noteq> [] then show_allowedips (\<lambda>a. show_ip (show_env c) a @ ''/'' @ show_dec (unat (cidr a))) sep fin as
      else ''(none)'' @ fin)"

definition dump_device :: "bool \<Rightarrow> wgdevice \<Rightarrow> string" where
  "dump_device with_interface d =
     tab_name with_interface d @
     maybe_key (private_key d) (dev_flags d AND WGDEVICE_HAS_PRIVATE_KEY \<noteq> 0) @ [TAB] @
     maybe_key (dev_public_key d) (dev_flags d AND WGDEVICE_HAS_PUBLIC_KEY \<noteq> 0) @ [TAB] @
     show_dec (unat (listen_port d)) @ [TAB] @
     show_dec (unat (junk_packet_count d)) @ [TAB] @
     show_dec (unat (junk_packet_min_size d)) @ [TAB] @
     show_dec (unat (junk_packet_max_size d)) @ [TAB] @
     show_dec (unat (init_packet_junk_size d)) @ [TAB] @
     show_dec (unat (response_packet_junk_size d)) @ [TAB] @
     show_dec (unat (cookie_reply_packet_junk_size d)) @ [TAB] @
     show_dec (unat (transport_packet_junk_size d)) @ [TAB] @
     fmt_s (init_packet_magic_header d) @ [TAB] @
     fmt_s (response_packet_magic_header d) @ [TAB] @
     fmt_s (underload_packet_magic_header d) @ [TAB] @
     fmt_s (transport_packet_magic_header d) @ [TAB] @
     fmt_s (i1 d) @ [TAB] @ fmt_s (i2 d) @ [TAB] @ fmt_s (i3 d) @ [TAB] @ fmt_s (i4 d) @ [TAB] @ fmt_s (i5 d) @ [TAB] @
     show_fwmark (fwmark d) @ [NL]"

definition dump_peer :: "show_ctx \<Rightarrow> bool \<Rightarrow> wgdevice \<Rightarrow> wgpeer \<Rightarrow> string" where
  "dump_peer c with_interface d p =
     tab_name with_interface d @
     key_to_base64 (public_key p) @ [TAB] @
     maybe_key (preshared_key p) (flags p AND WGPEER_HAS_PRESHARED_KEY \<noteq> 0) @ [TAB] @
     endpoint_or_none c (endpoint p) @ [TAB] @
     allowedips_or_none c '','' [TAB] (allowedips p) @
     show_dec (unat (tv_sec (last_handshake_time p))) @ [TAB] @
     show_dec (unat (rx_bytes p)) @ [TAB] @ show_dec (unat (tx_bytes p)) @ [TAB] @
     off_or (persistent_keepalive_interval p) @ [NL]"

definition dump_print :: "show_ctx \<Rightarrow> wgdevice \<Rightarrow> bool \<Rightarrow> string" where
  "dump_print c d with_interface = dump_device with_interface d @ concat (map (dump_peer c with_interface d) (peers d))"

definition ugly_device :: "wgdevice \<Rightarrow> (string \<times> string) list" where
  "ugly_device d =
     [(''public-key'', maybe_key (dev_public_key d) (dev_flags d AND WGDEVICE_HAS_PUBLIC_KEY \<noteq> 0)),
      (''private-key'', maybe_key (private_key d) (dev_flags d AND WGDEVICE_HAS_PRIVATE_KEY \<noteq> 0)),
      (''listen-port'', show_dec (unat (listen_port d))),
      (''fwmark'', show_fwmark (fwmark d)),
      (''jc'', show_dec (unat (junk_packet_count d))),
      (''jmin'', show_dec (unat (junk_packet_min_size d))),
      (''jmax'', show_dec (unat (junk_packet_max_size d))),
      (''s1'', show_dec (unat (init_packet_junk_size d))),
      (''s2'', show_dec (unat (response_packet_junk_size d))),
      (''s3'', show_dec (unat (cookie_reply_packet_junk_size d))),
      (''s4'', show_dec (unat (transport_packet_junk_size d))),
      (''h1'', fmt_s (init_packet_magic_header d)),
      (''h2'', fmt_s (response_packet_magic_header d)),
      (''h3'', fmt_s (underload_packet_magic_header d)),
      (''h4'', fmt_s (transport_packet_magic_header d)),
      (''i1'', fmt_s (i1 d)), (''i2'', fmt_s (i2 d)), (''i3'', fmt_s (i3 d)), (''i4'', fmt_s (i4 d)), (''i5'', fmt_s (i5 d))]"

definition ugly_peer :: "show_ctx \<Rightarrow> wgpeer \<Rightarrow> (string \<times> string) list" where
  "ugly_peer c p =
     (let k = key_to_base64 (public_key p)
      in [(''endpoints'', k @ [TAB] @ endpoint_or_none c (endpoint p) @ [NL]),
          (''allowed-ips'', k @ [TAB] @ allowedips_or_none c '' '' [NL] (allowedips p)),
          (''latest-handshakes'', k @ [TAB] @ show_dec (unat (tv_sec (last_handshake_time p))) @ [NL]),
          (''transfer'', k @ [TAB] @ show_dec (unat (rx_bytes p)) @ [TAB] @ show_dec (unat (tx_bytes p)) @ [NL]),
          (''persistent-keepalive'', k @ [TAB] @ off_or (persistent_keepalive_interval p) @ [NL]),
          (''preshared-keys'', k @ [TAB] @ maybe_key (preshared_key p) (flags p AND WGPEER_HAS_PRESHARED_KEY \<noteq> 0) @ [NL]),
          (''peers'', k @ [NL])])"

text \<open>What \<open>ugly_print\<close> prints; \<open>None\<close> for an invalid parameter, where it returns false.\<close>

definition ugly_print :: "show_ctx \<Rightarrow> wgdevice \<Rightarrow> string \<Rightarrow> bool \<Rightarrow> string option" where
  "ugly_print c d param with_interface =
     (case map_of (ugly_device d) param of
        Some v \<Rightarrow> Some (tab_name with_interface d @ v @ [NL])
      | None \<Rightarrow>
          if param \<in> set (map fst (ugly_peer c zero_peer))
          then Some (concat (map (\<lambda>p. tab_name with_interface d @ the (map_of (ugly_peer c p) param)) (peers d)))
          else if param = ''dump'' then Some (dump_print c d with_interface)
          else None)"

subsection \<open>The command\<close>

text \<open>The result: the exit code and the output; \<open>None\<close> is undefined behaviour: a null device is followed, or
  the list of names is read outside of its buffer. \<open>get_device\<close> gives the code and the device, \<open>list_devices\<close> the
  error or the memory with the names.\<close>

definition show_device :: "show_ctx \<Rightarrow> wgdevice option \<Rightarrow> string option \<Rightarrow> bool \<Rightarrow> string option option" where
  "show_device c out param with_interface =
     (case out of
        None \<Rightarrow> None
      | Some d \<Rightarrow> Some (case param of None \<Rightarrow> Some (pretty_print c d) | Some p \<Rightarrow> ugly_print c d p with_interface))"

fun show_all :: "show_ctx \<Rightarrow> (string \<Rightarrow> int \<times> wgdevice option) \<Rightarrow> string option \<Rightarrow> int \<Rightarrow> string list \<Rightarrow> (int \<times> string) option" where
  "show_all c get_device param ret [] = Some (ret, [])"
| "show_all c get_device param ret (n # ns) =
     (case get_device n of
        (code, out) \<Rightarrow>
          if code < 0 then show_all c get_device param ret ns
          else case show_device c out param True of
              None \<Rightarrow> None
            | Some None \<Rightarrow> Some (1, [])
            | Some (Some t) \<Rightarrow>
                map_option (\<lambda>(r, rest). (r, t @ print_if (param = None \<and> ns \<noteq> []) [NL] @ rest)) (show_all c get_device param 0 ns))"

definition show_main ::
  "show_ctx \<Rightarrow> (int + char option list) \<Rightarrow> (string \<Rightarrow> int \<times> wgdevice option) \<Rightarrow> string list \<Rightarrow> (int \<times> string) option" where
  "show_main c list_devices get_device argv =
     (let param = (if length argv = 3 then Some (argv ! 2) else None)
      in if length argv > 3 then Some (1, [])
         else if length argv = 1 \<or> argv ! 1 = ''all'' then
           (case list_devices of
              Inl e \<Rightarrow> Some (1, [])
            | Inr mem \<Rightarrow>
                (case walk_names mem of
                   None \<Rightarrow> None
                 | Some ns \<Rightarrow> show_all c get_device param (if ns \<noteq> [] then 1 else 0) ns))
         else if argv ! 1 = ''interfaces'' then
           if length argv > 2 then Some (1, [])
           else (case list_devices of
                   Inl e \<Rightarrow> Some (1, [])
                 | Inr mem \<Rightarrow>
                     (case walk_names mem of
                        None \<Rightarrow> None
                      | Some ns \<Rightarrow>
                          Some (0, concat (map (\<lambda>i. ns ! i @ (if Suc i < length ns then '' '' else [NL])) [0..<length ns]))))
         else if length argv = 2 \<and> argv ! 1 \<in> {''-h'', ''--help'', ''help''} then Some (0, [])
         else (case get_device (argv ! 1) of
                 (code, out) \<Rightarrow>
                   if code < 0 then Some (1, [])
                   else case show_device c out param False of
                       None \<Rightarrow> None
                     | Some None \<Rightarrow> Some (1, [])
                     | Some (Some t) \<Rightarrow> Some (0, t)))"

subsection \<open>Sorted peers\<close>

text \<open>The times a device can report: not negative.\<close>

definition times_ok :: "wgpeer \<Rightarrow> bool" where
  "times_ok p \<longleftrightarrow> 0 \<le> sint (tv_sec (last_handshake_time p)) \<and> 0 \<le> sint (tv_nsec (last_handshake_time p))"

lemma sint_diff:
  fixes a b :: s64
  assumes "0 \<le> sint a" and "0 \<le> sint b"
  shows "sint (a - b) = sint a - sint b"
proof -
  have "sint a < 2 ^ 63" "sint b < 2 ^ 63"
    using sint_less [of a] sint_less [of b] by simp_all
  then have "signed_take_bit 63 (sint a - sint b) = sint a - sint b"
    using assms by (intro signed_take_bit_int_eq_self) simp_all
  then show ?thesis
    by (simp add: sint_word_ariths(2))
qed

text \<open>The times in the order the peers are shown: a peer without a handshake comes after all others.\<close>

definition seen_key :: "wgpeer \<Rightarrow> int \<times> int" where
  "seen_key p = (sint (tv_sec (last_handshake_time p)), sint (tv_nsec (last_handshake_time p)))"

lemma sint_eq_0: "sint (w :: s64) = 0 \<longleftrightarrow> w = 0"
  by (metis sint_0 word_eq_iff_signed)

lemma peer_cmp_le:
  assumes "times_ok a" and "times_ok b"
  shows "peer_cmp a b \<le> 0 \<longleftrightarrow> fst (seen_key b) < fst (seen_key a) \<or>
    fst (seen_key b) = fst (seen_key a) \<and> snd (seen_key b) \<le> snd (seen_key a)"
proof -
  have z: "never_seen p \<longleftrightarrow> fst (seen_key p) = 0 \<and> snd (seen_key p) = 0" for p
    by (simp add: never_seen_def seen_key_def sint_eq_0)
  have nn: "0 \<le> fst (seen_key a)" "0 \<le> snd (seen_key a)" "0 \<le> fst (seen_key b)" "0 \<le> snd (seen_key b)"
    using assms by (simp_all add: seen_key_def times_ok_def)
  have d: "sint (tv_sec (last_handshake_time a) - tv_sec (last_handshake_time b)) = fst (seen_key a) - fst (seen_key b)"
    "sint (tv_nsec (last_handshake_time a) - tv_nsec (last_handshake_time b)) = snd (seen_key a) - snd (seen_key b)"
    using assms by (simp_all add: sint_diff times_ok_def seen_key_def)
  have e: "tv_sec (last_handshake_time a) - tv_sec (last_handshake_time b) = 0 \<longleftrightarrow> fst (seen_key a) = fst (seen_key b)"
    by (simp add: seen_key_def word_eq_iff_signed)
  show ?thesis
    unfolding peer_cmp_def Let_def z e using nn by (auto simp: d)
qed

interpretation shown: qsort_order peer_cmp "{p. times_ok p}"
  by unfold_locales (auto simp: peer_cmp_le)

text \<open>C9. The order of \<open>show\<close>: the peers are the same ones, a peer with a more recent handshake comes first, and
  a peer without any handshake after all others; the differences of the times do not overflow.\<close>

theorem sort_peers_order:
  assumes "list_all times_ok (peers d)"
  shows "mset (peers (sort_peers d)) = mset (peers d) \<and>
    sorted_wrt (\<lambda>a b. fst (seen_key b) < fst (seen_key a) \<or>
      fst (seen_key b) = fst (seen_key a) \<and> snd (seen_key b) \<le> snd (seen_key a)) (peers (sort_peers d)) \<and>
    (sort_peers d)\<lparr>peers := peers d\<rparr> = d"
proof (cases "peers d = []")
  case True
  then show ?thesis
    by (cases d) (simp add: sort_peers_def)
next
  case False
  have ok: "set (peers d) \<subseteq> {p. times_ok p}"
    using assms by (auto simp: list_all_iff)
  have "sorted_wrt (\<lambda>a b. peer_cmp a b \<le> 0) (qsort peer_cmp (peers d))"
    by (rule shown.sorted_qsort [OF ok])
  then have "sorted_wrt (\<lambda>a b. fst (seen_key b) < fst (seen_key a) \<or>
      fst (seen_key b) = fst (seen_key a) \<and> snd (seen_key b) \<le> snd (seen_key a)) (qsort peer_cmp (peers d))"
    by (rule sorted_wrt_mono_rel [rotated]) (use ok in \<open>auto simp: peer_cmp_le subset_iff\<close>)
  then show ?thesis
    using False by (cases d) (simp add: sort_peers_def)
qed

definition seen_at :: "s64 \<Rightarrow> wgpeer" where
  "seen_at t = zero_peer\<lparr>last_handshake_time := \<lparr>tv_sec = t, tv_nsec = 0\<rparr>\<rparr>"

theorem sort_peers_order_witness:
  "\<exists>p q r. peers (sort_peers (zero_device\<lparr>peers := [seen_at 0, seen_at 5, seen_at 9]\<rparr>)) = [p, q, r] \<and>
     fst (seen_key q) \<le> fst (seen_key p) \<and> fst (seen_key r) \<le> fst (seen_key q)"
proof -
  let ?d = "zero_device\<lparr>peers := [seen_at 0, seen_at 5, seen_at 9]\<rparr>"
  have "list_all times_ok (peers ?d)"
    by (simp add: times_ok_def seen_at_def)
  note s = sort_peers_order [OF this]
  then have "length (peers (sort_peers ?d)) = 3"
    using mset_eq_length by fastforce
  then obtain p q r where "peers (sort_peers ?d) = [p, q, r]"
    by (auto simp: numeral_3_eq_3 length_Suc_conv)
  then show ?thesis
    using s by auto
qed

subsection \<open>Hidden keys\<close>

lemma qsort_map:
  assumes "\<And>a b. cmp (f a) (f b) = cmp a b"
  shows "qsort cmp (map f xs) = map f (qsort cmp xs)"
proof -
  have "insert_cmp cmp (f x) (map f ys) = map f (insert_cmp cmp x ys)" for x ys
    by (induction ys) (simp_all add: assms)
  then show ?thesis
    by (induction xs) (simp_all add: qsort_def)
qed

text \<open>C6. The format for people shows no secret: unless the environment asks for the keys, its text is the same
  for every private key and all preshared keys, so nothing about them can be read from it.\<close>

theorem pretty_print_hides_keys:
  assumes "getenv (show_env c) ''WG_HIDE_KEYS'' \<noteq> Some ''never''"
  shows "pretty_print c (d\<lparr>private_key := k, peers := map (\<lambda>p. p\<lparr>preshared_key := f p\<rparr>) (peers d)\<rparr>) = pretty_print c d"
proof -
  let ?g = "\<lambda>p. p\<lparr>preshared_key := f p\<rparr>"
  have m: "masked_key (show_env c) x = ''(hidden)''" for x
    using assms by (simp add: masked_key_def)
  have "pretty_peer c (?g p) = pretty_peer c p" for p
    by (simp add: pretty_peer_def m)
  then have "pretty_peers c (map ?g ps) = pretty_peers c ps" for ps
    by (induction ps) simp_all
  moreover have "qsort peer_cmp (map ?g ps) = map ?g (qsort peer_cmp ps)" for ps
    by (rule qsort_map) (simp add: peer_cmp_def never_seen_def)
  moreover have "pretty_interface c (d\<lparr>private_key := k, peers := ps\<rparr>) = pretty_interface c d" for ps
    by (simp add: pretty_interface_def m)
  ultimately show ?thesis
    by (simp add: pretty_print_def sort_peers_def Let_def)
qed

definition sample_show :: show_ctx where
  "sample_show = \<lparr>show_env = sample_env, show_now = 0, show_gai = ''unknown'', show_color = False\<rparr>"

theorem pretty_print_hides_keys_witness:
  "pretty_print sample_show (sample_device\<lparr>private_key := replicate 32 9, peers := map (\<lambda>p. p\<lparr>preshared_key := replicate 32 1\<rparr>) (peers sample_device)\<rparr>)
     = pretty_print sample_show sample_device"
  by (rule pretty_print_hides_keys) (simp add: sample_show_def sample_env_def)

subsection \<open>Columns of the dump\<close>

definition column :: "string \<Rightarrow> bool" where
  "column s \<longleftrightarrow> TAB \<notin> set s \<and> NL \<notin> set s"

abbreviation tabs :: "string \<Rightarrow> nat" where "tabs s \<equiv> count_list s TAB"
abbreviation newlines :: "string \<Rightarrow> nat" where "newlines s \<equiv> count_list s NL"

lemma column_counts [simp]: "column s \<Longrightarrow> tabs s = 0" "column s \<Longrightarrow> newlines s = 0"
  by (simp_all add: column_def count_list_0_iff)

lemma word_value_column: "word_value s \<Longrightarrow> column s"
  by (auto simp: word_value_def text_value_def column_def c_char)

lemma column_show [simp]: "column (show_dec n)" "column (show_hex n)"
  by (simp_all add: word_value_column)

lemma column_key [simp]: "column (key_to_base64 k)"
proof -
  have "\<not> codec_char TAB" "\<not> codec_char NL"
    using codec_char_word [of TAB] codec_char_word [of NL] by (auto simp: c_char)
  then show ?thesis
    using b64.enc_codec_char [of _ k] by (auto simp: column_def)
qed

lemma column_values [simp]: "column (maybe_key k b)" "column (off_or n)" "column (show_fwmark m)"
proof -
  have "column (''0x'' @ show_hex n)" for n
    using column_show(2) [of n] by (simp add: column_def)
  then show "column (maybe_key k b)" "column (off_or n)" "column (show_fwmark m)"
    using column_key [of k] column_show [of "unat n"]
    by (simp_all add: maybe_key_def off_or_def show_fwmark_def) (simp_all add: column_def)
qed

text \<open>The strings of a device, and what the platform prints for an address, have neither tabulators nor
  line breaks.\<close>

definition dump_ok :: "show_ctx \<Rightarrow> wgdevice \<Rightarrow> bool" where
  "dump_ok c d \<longleftrightarrow> column (dev_name d) \<and>
     list_all (\<lambda>s. column (fmt_s s)) [init_packet_magic_header d, response_packet_magic_header d, underload_packet_magic_header d,
       transport_packet_magic_header d, i1 d, i2 d, i3 d, i4 d, i5 d] \<and>
     list_all (\<lambda>p. column (endpoint_or_none c (endpoint p)) \<and> list_all (\<lambda>a. column (show_ip (show_env c) a)) (allowedips p)) (peers d)"

lemma show_allowedips_counts:
  assumes "\<And>a. a \<in> set as \<Longrightarrow> column (f a)" and "column sep" and "as \<noteq> []"
  shows "tabs (show_allowedips f sep fin as) = tabs fin" "newlines (show_allowedips f sep fin as) = newlines fin"
  using assms by (induction as) auto

lemma allowedips_or_none_counts:
  assumes "list_all (\<lambda>a. column (show_ip (show_env c) a)) as" and "column sep"
  shows "tabs (allowedips_or_none c sep fin as) = tabs fin" "newlines (allowedips_or_none c sep fin as) = newlines fin"
proof -
  have "column (show_ip (show_env c) a @ ''/'' @ show_dec (unat (cidr a)))" if "a \<in> set as" for a
    using that assms(1) column_show(1) [of "unat (cidr a)"] by (auto simp: column_def list_all_iff)
  from show_allowedips_counts [of as "\<lambda>a. show_ip (show_env c) a @ ''/'' @ show_dec (unat (cidr a))", OF this assms(2)]
  show "tabs (allowedips_or_none c sep fin as) = tabs fin" "newlines (allowedips_or_none c sep fin as) = newlines fin"
    by (simp_all add: allowedips_or_none_def)
qed

text \<open>C32. The dump is a table: the line of the interface has twenty columns and every line of a peer eight, one
  more with the interface name, and there is exactly one line for the interface and one for each peer. The manual
  page documents four columns for the interface, without the sixteen of the obfuscation parameters between the port and the mark.\<close>

theorem dump_print_table:
  assumes "dump_ok c d"
  shows "dump_print c d w = concat (dump_device w d # map (dump_peer c w d) (peers d)) \<and>
    tabs (dump_device w d) = 19 + (if w then 1 else 0) \<and> newlines (dump_device w d) = 1 \<and>
    (\<forall>p \<in> set (peers d). tabs (dump_peer c w d p) = 7 + (if w then 1 else 0) \<and> newlines (dump_peer c w d p) = 1)"
proof -
  have n: "column (dev_name d)"
    using assms by (simp add: dump_ok_def)
  have s: "column (fmt_s (init_packet_magic_header d))" "column (fmt_s (response_packet_magic_header d))"
    "column (fmt_s (underload_packet_magic_header d))" "column (fmt_s (transport_packet_magic_header d))"
    "column (fmt_s (i1 d))" "column (fmt_s (i2 d))" "column (fmt_s (i3 d))" "column (fmt_s (i4 d))" "column (fmt_s (i5 d))"
    using assms by (simp_all add: dump_ok_def)
  have d: "tabs (dump_device w d) = 19 + (if w then 1 else 0)" "newlines (dump_device w d) = 1"
    using n s by (simp_all add: dump_device_def tab_name_def print_if_def)
  have p: "tabs (dump_peer c w d p) = 7 + (if w then 1 else 0) \<and> newlines (dump_peer c w d p) = 1" if "p \<in> set (peers d)" for p
  proof -
    have "column (endpoint_or_none c (endpoint p))" "list_all (\<lambda>a. column (show_ip (show_env c) a)) (allowedips p)" "column '',''"
      using assms that by (auto simp: dump_ok_def list_all_iff column_def)
    then show ?thesis
      using n allowedips_or_none_counts [of c "allowedips p" "'',''" "[TAB]"]
      by (simp add: dump_peer_def tab_name_def print_if_def)
  qed
  show ?thesis
    using d p by (simp add: dump_print_def)
qed

theorem dump_print_table_witness:
  "let d = sample_device\<lparr>dev_name := ''wg0''\<rparr> in
     tabs (dump_device True d) = 20 \<and> tabs (dump_peer sample_show True d (hd (peers d))) = 8"
proof -
  let ?d = "sample_device\<lparr>dev_name := ''wg0''\<rparr>"
  have "dump_ok sample_show ?d"
    by (simp add: dump_ok_def sample_device_def zero_device_def zero_peer_def fmt_s_def column_def endpoint_or_none_def
        show_endpoint_def sample_show_def sample_env_def show_ip_def)
  from dump_print_table [OF this, of True] show ?thesis
    by (simp add: Let_def sample_device_def)
qed

subsection \<open>Times\<close>

lemma length_show_dec:
  assumes "n < 10 ^ k" and "0 < k"
  shows "length (show_dec n) \<le> k"
  using assms
proof (induction k arbitrary: n)
  case (Suc k)
  show ?case
  proof (cases "n < 10")
    case True
    then show ?thesis
      by (simp add: show_base.simps)
  next
    case False
    then have "n div 10 < 10 ^ k" "0 < k"
      using Suc.prems by (auto simp: less_mult_imp_div_less mult.commute intro: gr0I)
    then show ?thesis
      using Suc.IH [of "n div 10"] False by (subst show_base.simps) simp
  qed
qed simp

lemma length_time_unit_text:
  assumes "n < 10 ^ k" and "0 < k" and "length name \<le> 6"
  shows "length (time_unit_text buf n name) \<le> length buf + k + 19"
  using length_show_dec [OF assms(1,2)] assms(3)
  by (auto simp: time_unit_text_def TERMINAL_FG_CYAN_def TERMINAL_RESET_def)

lemma length_pretty_time_text: "length (pretty_time_text left) \<le> 116"
proof -
  define y where "y = left mod (365 * 24 * 60 * 60)"
  define d where "d = y mod (24 * 60 * 60)"
  define h where "h = d mod (60 * 60)"
  have l: "unat left < 18446744073709551616"
    using unsigned_less [of left, where 'a = nat] by simp
  have m: "unat y < 31536000" "unat d < 86400" "unat h < 3600"
    by (simp_all add: y_def d_def h_def unat_mod_distrib)
  have b: "unat (left div (365 * 24 * 60 * 60)) < 10 ^ 12" "unat (y div (24 * 60 * 60)) < 10 ^ 3" "unat (d div (60 * 60)) < 10 ^ 2"
    "unat (h div 60) < 10 ^ 2" "unat (h mod 60) < 10 ^ 2"
    using l m by (simp_all add: unat_div_distrib unat_mod_distrib less_mult_imp_div_less) 
  let ?b1 = "time_unit_text [] (unat (left div (365 * 24 * 60 * 60))) ''year''"
  let ?b2 = "time_unit_text ?b1 (unat (y div (24 * 60 * 60))) ''day''"
  let ?b3 = "time_unit_text ?b2 (unat (d div (60 * 60))) ''hour''"
  let ?b4 = "time_unit_text ?b3 (unat (h div 60)) ''minute''"
  have "length ?b1 \<le> 31" "length ?b2 \<le> length ?b1 + 22" "length ?b3 \<le> length ?b2 + 21" "length ?b4 \<le> length ?b3 + 21"
    "length (time_unit_text ?b4 (unat (h mod 60)) ''second'') \<le> length ?b4 + 21"
    using length_time_unit_text [OF b(1), of "''year''" "[]"] length_time_unit_text [OF b(2), of "''day''" ?b1]
      length_time_unit_text [OF b(3), of "''hour''" ?b2] length_time_unit_text [OF b(4), of "''minute''" ?b3]
      length_time_unit_text [OF b(5), of "''second''" ?b4]
    by (simp_all del: time_unit_text_def)
  then show ?thesis
    unfolding pretty_time_text_def Let_def y_def [symmetric] d_def [symmetric] h_def [symmetric] by linarith
qed

text \<open>The memory around a buffer of \<open>m\<close> bytes that follows \<open>pre\<close>, and the offset, when \<open>out\<close> has been printed to the buffer.\<close>

definition printed :: "string \<Rightarrow> nat \<Rightarrow> string \<Rightarrow> string \<times> u64 \<Rightarrow> bool" where
  "printed pre m out s \<longleftrightarrow> (\<exists>rest. s = (pre @ out @ rest, of_nat (length out)) \<and> length out + length rest = m \<and>
     (out \<noteq> [] \<longrightarrow> (\<exists>r. rest = CHR 0x00 # r)))"

lemma write_at_append:
  "length new \<le> length rest \<Longrightarrow> write_at (pre @ out @ rest) (length pre + length out) new = Some (pre @ out @ new @ drop (length new) rest)"
  by (simp add: write_at_def)

lemma unat_length: "length out < unat (len :: u64) \<Longrightarrow> unat (of_nat (length out) :: u64) = length out"
  using unsigned_less [of len, where 'a = nat] by (simp add: unsigned_of_nat take_bit_nat_eq_self)

lemma unat_rest: "length out < unat (len :: u64) \<Longrightarrow> unat (len - of_nat (length out)) = unat len - length out"
  by (simp add: unat_sub word_le_nat_alt unat_length)

lemma offset_zero: "length out < unat (len :: u64) \<Longrightarrow> (of_nat (length out) :: u64) = 0 \<longleftrightarrow> out = []"
  using unat_length [of out len] by auto

lemma unat_one: "unat (n :: u64) = Suc 0 \<longleftrightarrow> n = 1"
  using word_unat_eq_iff [of n 1] by simp

lemma length_time_unit_mono: "length out \<le> length (time_unit_text out n name)"
  by (simp add: time_unit_text_def)

lemma time_unit_prints:
  assumes p: "printed pre m out s" and m: "unat len \<le> m" and l: "length (time_unit_text out (unat n) name) < unat len"
  shows "\<exists>s'. time_unit (length pre) len n name s = Some s' \<and> printed pre m (time_unit_text out (unat n) name) s'"
proof (cases "n = 0")
  case True
  then show ?thesis
    using p by (auto simp: time_unit_def time_unit_text_def split: prod.split)
next
  case False
  obtain rest where r: "s = (pre @ out @ rest, of_nat (length out))" "length out + length rest = m"
    using p by (auto simp: printed_def)
  define new where "new = (if out \<noteq> [] then '', '' else []) @ show_dec (unat n) @ '' '' @ TERMINAL_FG_CYAN @ name @ (if n = 1 then [] else ''s'') @ TERMINAL_RESET"
  have u: "time_unit_text out (unat n) name = out @ new"
    using False by (simp add: time_unit_text_def new_def unat_eq_0 unat_one)
  have t: "length out < unat len" "length new < unat len - length out"
    using l u by auto
  have z: "len - of_nat (length out) \<noteq> 0"
    using t unat_rest [of out len] by auto
  have "write_at (pre @ out @ rest) (length pre + length out) (new @ [CHR 0x00]) = Some (pre @ out @ (new @ [CHR 0x00]) @ drop (length new + 1) rest)"
    using t m r(2) write_at_append [of "new @ [CHR 0x00]" rest pre out] by simp
  then have "snprintf (pre @ out @ rest) (length pre + length out) (len - of_nat (length out)) new
      = Some (pre @ out @ new @ CHR 0x00 # drop (length new + 1) rest, of_nat (length new))"
    using t z by (simp add: snprintf_def unat_rest)
  then have "time_unit (length pre) len n name s = Some (pre @ out @ new @ CHR 0x00 # drop (length new + 1) rest, of_nat (length (out @ new)))"
    by (simp only: time_unit_def r(1) prod.case unat_length [OF t(1)] offset_zero [OF t(1)] new_def [symmetric] False if_True option.case
        not_False_eq_True length_append of_nat_add)
  then show ?thesis
    unfolding u using t m r(2) by (auto simp: printed_def)
qed

lemma pretty_time_prints:
  assumes m: "length pre + m = length mem" "take (length pre) mem = pre" and l: "116 < unat len" "unat len \<le> m"
  shows "\<exists>s. pretty_time mem (length pre) len left = Some s \<and> printed pre m (pretty_time_text left) s"
proof -
  define y where "y = left mod (365 * 24 * 60 * 60)"
  define d where "d = y mod (24 * 60 * 60)"
  define h where "h = d mod (60 * 60)"
  let ?b1 = "time_unit_text [] (unat (left div (365 * 24 * 60 * 60))) ''year''"
  let ?b2 = "time_unit_text ?b1 (unat (y div (24 * 60 * 60))) ''day''"
  let ?b3 = "time_unit_text ?b2 (unat (d div (60 * 60))) ''hour''"
  let ?b4 = "time_unit_text ?b3 (unat (h div 60)) ''minute''"
  let ?b5 = "time_unit_text ?b4 (unat (h mod 60)) ''second''"
  have b: "pretty_time_text left = ?b5"
    unfolding pretty_time_text_def Let_def y_def d_def h_def ..
  have "length ?b5 < unat len"
    using length_pretty_time_text [of left] l(1) b by simp
  then have bounds: "length ?b1 < unat len" "length ?b2 < unat len" "length ?b3 < unat len" "length ?b4 < unat len" "length ?b5 < unat len"
    using length_time_unit_mono [of ?b1] length_time_unit_mono [of ?b2] length_time_unit_mono [of ?b3] length_time_unit_mono [of ?b4]
    by (meson le_less_trans)+
  have "printed pre m [] (mem, 0)"
    using m by (auto simp: printed_def) (metis append_take_drop_id length_drop add_diff_cancel_left')
  note step = time_unit_prints [OF _ l(2)]
  obtain s1 where s1: "time_unit (length pre) len (left div (365 * 24 * 60 * 60)) ''year'' (mem, 0) = Some s1" "printed pre m ?b1 s1"
    using step [OF \<open>printed pre m [] (mem, 0)\<close> bounds(1)] by blast
  obtain s2 where s2: "time_unit (length pre) len (y div (24 * 60 * 60)) ''day'' s1 = Some s2" "printed pre m ?b2 s2"
    using step [OF s1(2) bounds(2)] by blast
  obtain s3 where s3: "time_unit (length pre) len (d div (60 * 60)) ''hour'' s2 = Some s3" "printed pre m ?b3 s3"
    using step [OF s2(2) bounds(3)] by blast
  obtain s4 where s4: "time_unit (length pre) len (h div 60) ''minute'' s3 = Some s4" "printed pre m ?b4 s4"
    using step [OF s3(2) bounds(4)] by blast
  obtain s5 where s5: "time_unit (length pre) len (h mod 60) ''second'' s4 = Some s5" "printed pre m ?b5 s5"
    using step [OF s4(2) bounds(5)] by blast
  have "pretty_time mem (length pre) len left = Some s5"
    unfolding pretty_time_def Let_def y_def [symmetric] d_def [symmetric] h_def [symmetric]
    by (simp only: s1 s2 s3 s4 s5 Option.bind.bind_lunit)
  then show ?thesis
    using s5(2) b by simp
qed

lemma show_dec_no_nul: "CHR 0x00 \<notin> set (show_dec n)"
proof -
  have "\<not> isdigit_char (CHR 0x00)"
    by code_simp
  then show ?thesis
    using show_dec_digits by blast
qed

lemma time_unit_text_no_nul: "CHR 0x00 \<notin> set out \<Longrightarrow> CHR 0x00 \<notin> set name \<Longrightarrow> CHR 0x00 \<notin> set (time_unit_text out n name)"
  by (simp add: time_unit_text_def TERMINAL_FG_CYAN_def TERMINAL_RESET_def show_dec_no_nul)

lemma pretty_time_text_no_nul: "CHR 0x00 \<notin> set (pretty_time_text left)"
  unfolding pretty_time_text_def Let_def by (intro time_unit_text_no_nul) simp_all

lemma time_unit_text_empty: "time_unit_text out n name = [] \<longleftrightarrow> out = [] \<and> n = 0"
  by (auto simp: time_unit_text_def)

lemma pretty_time_text_empty: "pretty_time_text left = [] \<longleftrightarrow> left = 0"
proof
  assume "pretty_time_text left = []"
  then have z: "unat left div 31536000 = 0" "unat left mod 31536000 div 86400 = 0" "unat left mod 31536000 mod 86400 div 3600 = 0"
    "unat left mod 31536000 mod 86400 mod 3600 div 60 = 0" "unat left mod 31536000 mod 86400 mod 3600 mod 60 = 0"
    by (simp_all add: pretty_time_text_def Let_def time_unit_text_empty unat_div_distrib unat_mod_distrib)
  have zero: "a div k = 0 \<Longrightarrow> a mod k = 0 \<Longrightarrow> a = 0" for a k :: nat
    using div_mult_mod_eq [of a k] by simp
  have "unat left = 0"
    by (intro zero [OF z(1)] zero [OF z(2)] zero [OF z(3)] zero [OF z(4,5)])
  then show "left = 0"
    by (simp add: unat_eq_0)
qed (simp add: pretty_time_text_def Let_def time_unit_text_def)

lemma c_string_upto: "CHR 0x00 \<notin> set out \<Longrightarrow> c_string (out @ CHR 0x00 # r) = out"
  by (induction out) (auto simp: c_string_def)

lemma terminated:
  assumes "CHR 0x00 \<notin> set out" and "length out < k" and "length (out @ CHR 0x00 # r) = Suc k"
  shows "\<exists>mem'. write_at (out @ CHR 0x00 # r) k [CHR 0x00] = Some mem' \<and> length mem' = Suc k \<and> c_string mem' = out"
proof -
  have "take k (out @ CHR 0x00 # r) = out @ CHR 0x00 # take (k - Suc (length out)) r"
    using assms(2) by (simp add: take_Cons')
  then show ?thesis
    using assms c_string_upto [OF assms(1)] by (auto simp: write_at_def)
qed

lemma replicate_nul: "0 < n \<Longrightarrow> replicate n (CHR 0x00) = CHR 0x00 # replicate (n - 1) (CHR 0x00)"
  by (cases n) simp_all

lemma strncpy_terminated:
  assumes "length (out @ rest) = Suc k" and "unat n = k - length out" and "length (out @ src) < k" and "CHR 0x00 \<notin> set (out @ src)"
  shows "\<exists>mem'. Option.bind (strncpy (out @ rest) (length out) src n) (\<lambda>buf. write_at buf k [CHR 0x00]) = Some mem' \<and>
    length mem' = Suc k \<and> c_string mem' = out @ src"
proof -
  let ?z = "k - length out - length src"
  have n: "unat n = length src + ?z" "0 < ?z"
    using assms(2,3) by auto
  let ?r = "replicate (?z - 1) (CHR 0x00) @ drop (length src + ?z) rest"
  have "strncpy (out @ rest) (length out) src n = Some (out @ (src @ replicate ?z (CHR 0x00)) @ drop (length src + ?z) rest)"
    using write_at_append [of "src @ replicate ?z (CHR 0x00)" rest "[]" out] assms(1,3) by (simp add: strncpy_def n(1))
  then have "strncpy (out @ rest) (length out) src n = Some ((out @ src) @ CHR 0x00 # ?r)"
    unfolding replicate_nul [OF n(2)] by simp
  moreover have "length ((out @ src) @ CHR 0x00 # ?r) = Suc k"
    using assms(1,3) n(2) by simp
  ultimately show ?thesis
    using terminated [OF assms(4,3)] by simp
qed

lemma ago_elapsed:
  assumes "length mem = Suc 1023" and "left \<noteq> 0"
  shows "\<exists>mem'. Option.bind (Option.bind (pretty_time mem 0 1024 left) (\<lambda>(buf, offset). strncpy buf (unat offset) '' ago'' (1024 - offset - 1)))
      (\<lambda>buf. write_at buf 1023 [CHR 0x00]) = Some mem' \<and> length mem' = Suc 1023 \<and> c_string mem' = pretty_time_text left @ '' ago''"
proof -
  let ?t = "pretty_time_text left"
  obtain rest where r: "pretty_time mem 0 1024 left = Some (?t @ rest, of_nat (length ?t))" "length (?t @ rest) = Suc 1023"
    using pretty_time_prints [of "[]" 1024 mem 1024 left] assms(1) by (auto simp: printed_def)
  have l: "length ?t \<le> 116"
    by (rule length_pretty_time_text)
  have u: "unat (of_nat (length ?t) :: u64) = length ?t"
    using l unat_length [of ?t 1024] by simp
  have "(1024 - of_nat (length ?t) - 1 :: u64) = 1023 - of_nat (length ?t)"
    by (simp add: algebra_simps)
  then have "unat (1024 - of_nat (length ?t) - 1 :: u64) = 1023 - length ?t"
    using l unat_rest [of ?t 1023] by simp
  moreover have "CHR 0x00 \<notin> set (?t @ '' ago'')"
    using pretty_time_text_no_nul [of left] by simp
  ultimately show ?thesis
    using strncpy_terminated [OF r(2)] l by (simp add: r(1) u)
qed

text \<open>C33. The texts of durations and the static buffers of 1024 bytes. Whatever the buffer holds, the clock and the time of the
  handshake, \<open>ago\<close> writes inside its buffer only, and the string the buffer then holds is the whole text, never truncated. \<open>every\<close> writes
  behind the six characters of its own buffer, which stay, so that it can be called again and again: for an interval other
  than 0 the string is the whole text, too.\<close>

theorem pretty_time_fits:
  assumes "length mem = 1024"
  shows "(\<exists>mem'. ago now mem t = Some mem' \<and> length mem' = 1024 \<and> c_string mem' = ago_text now t) \<and>
    (take 6 mem = ''every '' \<and> s \<noteq> 0 \<longrightarrow>
      (\<exists>mem'. every mem s = Some mem' \<and> length mem' = 1024 \<and> take 6 mem' = ''every '' \<and> c_string mem' = every_text s))"
proof (intro conjI impI)
  show "\<exists>mem'. ago now mem t = Some mem' \<and> length mem' = 1024 \<and> c_string mem' = ago_text now t"
    unfolding ago_def ago_text_def
    using strncpy_terminated [of "[]" mem 1023 1023] ago_elapsed [of mem "now - tv_sec t"] assms
    by (auto simp: TERMINAL_FG_RED_def TERMINAL_RESET_def)
  assume e: "take 6 mem = ''every '' \<and> s \<noteq> 0"
  have six: "length ''every '' = 6"
    by simp
  have "(ucast s :: u64) \<noteq> 0"
    using e by transfer (simp add: take_bit_eq_mod)
  then obtain r where "pretty_time mem 6 1017 (ucast s) = Some (''every '' @ pretty_time_text (ucast s) @ CHR 0x00 # r, of_nat (length (pretty_time_text (ucast s))))"
    "length (pretty_time_text (ucast s)) + length (CHR 0x00 # r) = 1018"
    using pretty_time_prints [of "''every ''" 1018 mem 1017 "ucast s", unfolded six] assms e by (auto simp: printed_def pretty_time_text_empty)
  moreover from this(1) have "every mem s = Some (''every '' @ pretty_time_text (ucast s) @ CHR 0x00 # r)"
    unfolding every_def six by simp
  ultimately show "\<exists>mem'. every mem s = Some mem' \<and> length mem' = 1024 \<and> take 6 mem' = ''every '' \<and> c_string mem' = every_text s"
    using c_string_upto [of "''every '' @ pretty_time_text (ucast s)"] pretty_time_text_no_nul [of "ucast s"]
    by (simp add: every_text_def)
qed

theorem pretty_time_fits_witness:
  "\<exists>mem'. every (''every '' @ replicate 1018 (CHR ''x'')) 90 = Some mem' \<and> length mem' = 1024 \<and> c_string mem' = every_text 90"
  using pretty_time_fits [of "''every '' @ replicate 1018 (CHR ''x'')" 0 undefined 90] by auto

subsection \<open>Exit codes\<close>

lemma show_all_code:
  assumes "\<And>n. n \<in> set ns \<Longrightarrow> 0 \<le> fst (get_device n) \<Longrightarrow> snd (get_device n) \<noteq> None"
  shows "\<exists>out. show_all c get_device None ret ns
    = Some (if \<exists>n \<in> set ns. 0 \<le> fst (get_device n) then 0 else ret, out)"
  using assms
proof (induction ns arbitrary: ret)
  case (Cons n ns)
  have IH: "\<exists>out. show_all c get_device None r ns = Some (if \<exists>n \<in> set ns. 0 \<le> fst (get_device n) then 0 else r, out)" for r
    using Cons by simp
  obtain code out where g: "get_device n = (code, out)"
    by (cases "get_device n")
  show ?case
  proof (cases "code < 0")
    case True
    then show ?thesis
      using IH [of ret] g by auto
  next
    case False
    then obtain d where "out = Some d"
      using Cons.prems [of n] g by auto
    then show ?thesis
      using False IH [of 0] g by (auto simp: show_device_def)
  qed
qed simp

text \<open>C34. The exit code of showing all interfaces: 0 exactly when there is no interface or one of them could be read,
  and the list of names is never read outside of its buffer, provided a code that is not negative comes with a device.\<close>

theorem show_main_all_code:
  assumes "walk_names mem = Some ns" and "\<And>n. n \<in> set ns \<Longrightarrow> 0 \<le> fst (get_device n) \<Longrightarrow> snd (get_device n) \<noteq> None"
  shows "\<exists>out. show_main c (Inr mem) get_device [''show''] = Some (if ns = [] \<or> (\<exists>n \<in> set ns. 0 \<le> fst (get_device n)) then 0 else 1, out)"
proof -
  obtain out where "show_all c get_device None (if ns \<noteq> [] then 1 else 0) ns
      = Some (if \<exists>n \<in> set ns. 0 \<le> fst (get_device n) then 0 else if ns \<noteq> [] then 1 else 0, out)"
    using show_all_code [of ns get_device c, OF assms(2)] by blast
  then show ?thesis
    using assms(1) by (auto simp: show_main_def)
qed

definition sample_get :: "string \<Rightarrow> int \<times> wgdevice option" where
  "sample_get n = (if n = ''wg1'' then (0, Some zero_device) else (- 19, None))"

theorem show_main_all_code_witness:
  "\<exists>out. show_main sample_show (Inr (map Some (names_text [''wg0'', ''wg1''] @ [NUL]))) sample_get [''show''] = Some (0, out)"
proof -
  have "walk_names (map Some (names_text [''wg0'', ''wg1''] @ [NUL])) = Some [''wg0'', ''wg1'']"
    using walk_names_text [of "[''wg0'', ''wg1'']" "[]"] by (simp add: name_ok_def)
  moreover have "0 \<le> fst (sample_get n) \<Longrightarrow> snd (sample_get n) \<noteq> None" for n
    by (simp add: sample_get_def split: if_splits)
  moreover have "fst (sample_get ''wg1'') = 0"
    by (simp add: sample_get_def)
  ultimately show ?thesis
    using show_main_all_code [of "map Some (names_text [''wg0'', ''wg1''] @ [NUL])" "[''wg0'', ''wg1'']" sample_get sample_show] by auto
qed

text \<open>C35. A peer whose endpoint the resolver does not know makes \<open>show\<close> follow a null pointer: reading the answer ends
  with the positive code \<open>ENETUNREACH\<close> and no device, and the test for a negative code lets it through.\<close>

theorem show_main_null_device:
  assumes "interface_file iface = Inr (\<lambda>_. uapi_line ''public_key'' (key_to_hex k) @ uapi_line ''endpoint'' e @ rest)"
    and "length k = WG_KEY_LEN" and "uapi_value e" and "split_endpoint e = Inr (host, port)" and "e \<noteq> []"
    and "getaddrinfo env 0 host port = Gai_error x" and "iface \<notin> {''all'', ''interfaces'', ''-h'', ''--help'', ''help''}"
  shows "userspace_get_device env gp interface_file iface = (ENETUNREACH, None) \<and>
    show_main c l (userspace_get_device env gp interface_file) [''show'', iface] = None"
  using uapi_unresolved [where interface_file = interface_file and iface = iface and k = k and e = e and rest = rest, OF assms(1-6), of gp]
    assms(7) by (simp add: show_main_def show_device_def)

theorem show_main_null_device_witness:
  "show_main sample_show (Inl 0) (userspace_get_device sample_env (\<lambda>k. k) (\<lambda>_. Inr (\<lambda>_. uapi_line ''public_key'' (key_to_hex (replicate 32 1)) @
      uapi_line ''endpoint'' ''host.invalid:51820'' @ uapi_line ''errno'' ''0'' @ [NL]))) [''show'', ''wg0''] = None"
proof -
  have "split_endpoint ''host.invalid:51820'' = Inr (''host.invalid'', ''51820'')"
    by code_simp
  moreover have "getaddrinfo sample_env 0 ''host.invalid'' ''51820'' = Gai_error EAI_NONAME"
    by (simp add: sample_env_def)
  moreover have "uapi_value ''host.invalid:51820''" "''host.invalid:51820'' \<noteq> []" "length (replicate 32 (1 :: u8)) = WG_KEY_LEN"
    by (simp_all add: uapi_value_def)
  ultimately show ?thesis
    using show_main_null_device [of "\<lambda>_. Inr (\<lambda>_. uapi_line ''public_key'' (key_to_hex (replicate 32 1)) @
        uapi_line ''endpoint'' ''host.invalid:51820'' @ uapi_line ''errno'' ''0'' @ [NL])" "''wg0''" "replicate 32 1"
        "''host.invalid:51820''" "uapi_line ''errno'' ''0'' @ [NL]" "''host.invalid''" "''51820''" sample_env EAI_NONAME "\<lambda>k. k" sample_show "Inl 0"]
    by simp
qed

end
