(* ===== verification/Wg.thy ===== *)
theory Wg
  imports Keytools Ipc Show
begin

unbundle bit_operations_syntax

text \<open>
  The entry of the tools, \<open>src/wg.c\<close> under \<open>src/tunnel/tools/amneziawg-tools\<close>: the table of commands and the choice
  among them. What the commands get from the system is a record; \<open>live_get\<close> is its reading of devices as the sources build it, with
  the userspace protocol, the kernel as an argument, and the public keys of \<open>Curve25519\<close>.
\<close>

record wg_system =
  sys_show :: show_ctx
  sys_list :: "int + char option list"
  sys_get :: "string \<Rightarrow> int \<times> wgdevice option"
  sys_set :: "wgdevice \<Rightarrow> int"
  sys_random :: random_source
  sys_stdin :: stdin

text \<open>A device, for the commands that stop at every code but 0; with code 0 there is one.\<close>

definition device_or_error :: "int \<times> wgdevice option \<Rightarrow> int + wgdevice" where
  "device_or_error r = (case snd r of Some d \<Rightarrow> if fst r \<noteq> 0 then Inl (fst r) else Inr d | None \<Rightarrow> Inl (fst r))"

datatype command = Show_main | Showconf_main | Set_main | Setconf_main | Genkey_main | Pubkey_main

definition subcommands :: "(string \<times> command \<times> string) list" where
  "subcommands =
     [(''show'', Show_main, ''Shows the current configuration and device information''),
      (''showconf'', Showconf_main, ''Shows the current configuration of a given WireGuard interface, for use with `setconf'' @ [CHR 0x27]),
      (''set'', Set_main, ''Change the current configuration, add peers, remove peers, or change peers''),
      (''setconf'', Setconf_main, ''Applies a configuration file to a WireGuard interface''),
      (''addconf'', Setconf_main, ''Appends a configuration file to a WireGuard interface''),
      (''syncconf'', Setconf_main, ''Synchronizes a configuration file to a WireGuard interface''),
      (''genkey'', Genkey_main, ''Generates a new private key and writes it to stdout''),
      (''genpsk'', Genkey_main, ''Generates a new preshared key and writes it to stdout''),
      (''pubkey'', Pubkey_main, ''Reads a private key from stdin and writes a public key to stdout'')]"

definition run_command :: "wg_system \<Rightarrow> command \<Rightarrow> string list \<Rightarrow> (int \<times> string \<times> wgdevice option) option" where
  "run_command sys c argv =
     (let env = show_env (sys_show sys); get_device = (\<lambda>n. device_or_error (sys_get sys n))
      in case c of
           Show_main \<Rightarrow> map_option (\<lambda>(code, t). (code, t, None)) (show_main (sys_show sys) (sys_list sys) (sys_get sys) argv)
         | Showconf_main \<Rightarrow> (case showconf_main env get_device argv of (code, t) \<Rightarrow> Some (code, t, None))
         | Set_main \<Rightarrow> (case set_main env (sys_set sys) argv of (code, d) \<Rightarrow> Some (code, [], d))
         | Setconf_main \<Rightarrow> (case setconf_main env get_device (sys_set sys) argv of (code, d) \<Rightarrow> Some (code, [], d))
         | Genkey_main \<Rightarrow> (case genkey_main (sys_random sys) argv of (code, t) \<Rightarrow> Some (code, t, None))
         | Pubkey_main \<Rightarrow>
             map_option (\<lambda>(code, t). (code, t, None)) (pubkey_main (replicate WG_KEY_LEN 0) argv (sys_stdin sys)))"

definition show_usage :: "string \<Rightarrow> string" where
  "show_usage prog =
     ''Usage: '' @ prog @ '' <cmd> [<args>]'' @ [NL, NL] @
     ''Available subcommands:'' @ [NL] @
     concat (map (\<lambda>(n, c, d). ''  '' @ n @ '': '' @ d @ [NL]) subcommands) @
     ''You may pass `--help'' @ [CHR 0x27] @ '' to any of these subcommands to view usage.'' @ [NL]"

definition WIREGUARD_TOOLS_VERSION :: string where "WIREGUARD_TOOLS_VERSION = ''1.0.20210914''"

text \<open>The exit code, what is written to standard output and the device handed to the interface; \<open>None\<close> is a null pointer that is
  followed. The name of the program is \<open>argv[0]\<close>, which
  the system always passes.\<close>

definition wg_main :: "wg_system \<Rightarrow> string list \<Rightarrow> (int \<times> string \<times> wgdevice option) option" where
  "wg_main sys argv =
     (if length argv = 2 \<and> argv ! 1 \<in> {''-v'', ''--version'', ''version''}
      then Some (0, ''amneziawg-tools v'' @ WIREGUARD_TOOLS_VERSION @ '' - https://amnezia.org'' @ [NL], None)
      else if length argv = 2 \<and> argv ! 1 \<in> {''-h'', ''--help'', ''help''} then Some (0, show_usage (argv ! 0), None)
      else if length argv = 1 then run_command sys Show_main [''show'']
      else case find (\<lambda>(n, c, d). argv ! 1 = n) subcommands of
             Some (n, c, d) \<Rightarrow> run_command sys c (drop 1 argv)
           | None \<Rightarrow> Some (1, [], None))"

text \<open>Devices through \<open>ipc.c\<close>, public keys through \<open>curve25519.c\<close>. \<open>kernel_get\<close> is the kernel side, \<open>u\<close> the sockets.\<close>

definition live_get :: "env \<Rightarrow> (string \<Rightarrow> int \<times> wgdevice option) \<Rightarrow> unix_sys \<Rightarrow> string \<Rightarrow> int \<times> wgdevice option" where
  "live_get env kernel_get u iface = fst (ipc_get_device env curve25519_generate_public kernel_get u iface)"

subsection \<open>Public keys of interfaces\<close>

lemma length_generate_public [simp]: "length (curve25519_generate_public k) = WG_KEY_LEN"
proof -
  have "length (format_fcontract a) = 32" for a
    by (cases "format_fcontract_trim (format_fcontract_second_carry_full (format_fcontract_first_carry_full a))")
      (simp add: format_fcontract_def put_unaligned_le64_def Let_def)
  then show ?thesis
    by (simp add: curve25519_generate_public_def curve25519_def curve25519_generic_def format_scalar_of_point_def WG_KEY_LEN_def Let_def
        split: prod.split)
qed

definition public_ok :: "(u8 list \<Rightarrow> u8 list) \<Rightarrow> uapi_state \<Rightarrow> bool" where
  "public_ok gp s \<longleftrightarrow> (dev_flags (udev s) AND WGDEVICE_HAS_PUBLIC_KEY \<noteq> 0 \<longrightarrow>
     dev_flags (udev s) AND WGDEVICE_HAS_PRIVATE_KEY \<noteq> 0 \<and> dev_public_key (udev s) = gp (private_key (udev s)))"

lemma public_ok_pair:
  assumes "public_ok gp s" and "uapi_get_pair env gp s k v = Next s'"
  shows "public_ok gp s'"
proof -
  let ?hs = "(case upeer s of None \<Rightarrow> uapi_device_keys gp s | Some i \<Rightarrow> uapi_peer_keys env s i) @
    [(''public_key'', uapi_new_peer s), (''errno'', \<lambda>v. next_if (NUM 0x7fffffff v) (\<lambda>n. s\<lparr>uret := - uint n\<rparr>))]"
  have "list_all (\<lambda>(k, h). steps_to (public_ok gp) h) (uapi_device_keys gp s)"
    using assms(1) by (simp add: uapi_device_keys_def public_ok_def uset_def c_flags bit.conj_disj_distrib2 or_eq_0_iff)
  moreover have "list_all (\<lambda>(k, h). steps_to (public_ok gp) h) (uapi_peer_keys env s i)" for i
  proof -
    have "public_ok gp (uapi_upd s i f)" "public_ok gp ((uapi_upd s i f)\<lparr>uallowedip := c\<rparr>)" for f c
      using assms(1) by (simp_all add: public_ok_def uapi_upd_def)
    moreover from this have "steps_to (public_ok gp) (uapi_endpoint env s i)"
      by (auto simp: steps_to_def uapi_endpoint_def split: if_splits sum.splits gai.splits)
    ultimately show ?thesis
      by (simp add: uapi_peer_keys_def)
  qed
  moreover have "steps_to (public_ok gp) (uapi_new_peer s)"
    using assms(1) by (auto simp: uapi_new_peer_def steps_to_def next_if_Next public_ok_def)
  ultimately have "list_all (\<lambda>(k, h). steps_to (public_ok gp) h) ?hs"
    using assms(1) by (simp add: public_ok_def split: option.split)
  then have "steps_to (public_ok gp) h" if "map_of ?hs k = Some h" for h
    using map_of_list_all [OF that] by blast
  then show ?thesis
    using assms unfolding uapi_get_pair_def by (auto simp: steps_to_def split: option.splits)
qed

lemma public_ok_lines:
  assumes "public_ok gp s" and "uapi_get_lines env gp s ls = (ret, d)" and "ret = 0"
    and "dev_flags d AND WGDEVICE_HAS_PUBLIC_KEY \<noteq> 0"
  shows "dev_flags d AND WGDEVICE_HAS_PRIVATE_KEY \<noteq> 0 \<and> dev_public_key d = gp (private_key d)"
  using assms
proof (induction ls arbitrary: s)
  case (Cons l ls)
  show ?case
  proof (cases "uapi_token l")
    case End_line
    then show ?thesis
      using Cons.prems by (auto simp: public_ok_def)
  next
    case (Pair k v)
    then show ?thesis
      using Cons public_ok_pair [OF Cons.prems(1), of env k v] uapi_get_pair_err [of env gp s k v]
      by (cases "uapi_get_pair env gp s k v") auto
  qed (use Cons.prems in simp)
qed simp

lemma live_get_served:
  assumes "alive u iface"
  shows "live_get env kernel_get u iface
    = userspace_get_device env curve25519_generate_public (\<lambda>_. connect_path u (sock_file u iface)) iface"
proof -
  obtain u' where "ipc_get_device env curve25519_generate_public kernel_get u iface
     = (if alive u iface
        then userspace_get_device env curve25519_generate_public (\<lambda>_. connect_path u (sock_file u iface)) iface
        else kernel_get iface, u')"
    by (rule ipc_get_device_served)
  then show ?thesis
    using assms by (simp add: live_get_def)
qed

text \<open>C10. The public key shown for a userspace interface is X25519 of the private key the interface has answered, whatever the
  lines of its answer are.\<close>

theorem live_get_public_key:
  assumes "env_sizes env" and "alive u iface" and "live_get env kernel_get u iface = (0, Some d)"
    and "dev_flags d AND WGDEVICE_HAS_PUBLIC_KEY \<noteq> 0"
  shows "length (private_key d) = 32 \<and> length (dev_public_key d) = 32 \<and>
    le_value (dev_public_key d) = X25519 (decode_scalar (le_value (private_key d))) 9"
proof -
  let ?f = "\<lambda>_. connect_path u (sock_file u iface)"
  have "userspace_get_device env curve25519_generate_public ?f iface = (0, Some d)"
    using assms(3) live_get_served [OF assms(2), of env kernel_get] by simp
  then obtain ls where l: "uapi_get_lines env curve25519_generate_public (uapi_init iface) ls = (0, d)"
    by (auto simp: userspace_get_device_def split: sum.splits prod.splits if_splits)
  have "uapi_wf (uapi_init iface)" "public_ok curve25519_generate_public (uapi_init iface)"
    by (simp_all add: uapi_wf_def public_ok_def uapi_init_def device_wf_def zero_device_def)
  then have "device_wf d" "dev_public_key d = curve25519_generate_public (private_key d)"
    using uapi_get_lines_wf [OF assms(1) length_generate_public _ l] public_ok_lines [OF _ l _ assms(4)] by auto
  then show ?thesis
    using generate_public_x25519 [of "private_key d"] by (simp add: device_wf_def WG_KEY_LEN_def)
qed

definition keyed_sys :: unix_sys where
  "keyed_sys = sample_sys\<lparr>connect_path := (\<lambda>p. Inr (\<lambda>_.
     uapi_line ''private_key'' (key_to_hex (replicate 32 7)) @ uapi_line ''errno'' ''0'' @ [NL]))\<rparr>"

theorem live_get_public_key_witness:
  "\<exists>d. live_get sample_env (\<lambda>_. (- 19, None)) keyed_sys ''wg1'' = (0, Some d) \<and> private_key d = replicate 32 7 \<and>
     le_value (dev_public_key d) = X25519 (decode_scalar (le_value (replicate 32 7))) 9"
proof -
  let ?gp = curve25519_generate_public and ?s = "uapi_init ''wg1''" and ?k = "replicate 32 (7 :: u8)"
  define s' where "s' = uset ?s (WGDEVICE_HAS_PRIVATE_KEY OR WGDEVICE_HAS_PUBLIC_KEY) (\<lambda>d. d\<lparr>private_key := ?k, dev_public_key := ?gp ?k\<rparr>)"
  have "key_from_hex (private_key (udev ?s)) (key_to_hex ?k) = (True, ?k)"
    by (rule hex.dec_enc) (simp_all add: uapi_init_def zero_device_def WG_KEY_LEN_def)
  then have "uapi_get_pair sample_env ?gp ?s ''private_key'' (key_to_hex ?k) = Next s'"
    by (simp add: uapi_get_pair_def uapi_init_def uapi_device_keys_def hex_option_def next_if_def s'_def)
  moreover have "uapi_value (key_to_hex ?k)"
    using hex.not_in_enc [of "CHR 0x00"] hex.not_in_enc [of NL] by (simp add: uapi_value_def codec_char_def b64_value_def)
  moreover have "last_state (udev s') s'"
    by (simp add: last_state_def s'_def uset_def uapi_init_def zero_device_def)
  ultimately have "uapi_text sample_env ?gp ?s (uapi_line ''private_key'' (key_to_hex ?k) @ uapi_line ''errno'' ''0'' @ [NL]) = (0, udev s')"
    by (simp add: uapi_text_line uapi_errno_line)
  moreover have a: "alive keyed_sys ''wg1''"
    by (simp add: keyed_sys_def sample_sys_def alive_def sock_file_def SOCK_PATH_def SOCK_SUFFIX_def strchr_def)
  moreover have "connect_path keyed_sys p = Inr (\<lambda>_. uapi_line ''private_key'' (key_to_hex ?k) @ uapi_line ''errno'' ''0'' @ [NL])" for p
    by (simp add: keyed_sys_def)
  ultimately have l: "live_get sample_env (\<lambda>_. (- 19, None)) keyed_sys ''wg1'' = (0, Some (udev s'))"
    by (simp add: live_get_served userspace_get_device_def uapi_text_def)
  have "dev_flags (udev s') AND WGDEVICE_HAS_PUBLIC_KEY \<noteq> 0" "private_key (udev s') = ?k"
    by (simp_all add: s'_def uset_def uapi_init_def zero_device_def c_flags)
  then show ?thesis
    using live_get_public_key [OF sample_env_sizes a l] l by simp
qed

end
