(* ===== verification/Highlighter.thy ===== *)
theory Highlighter
  imports Encoding C_Library
begin

unbundle bit_operations_syntax

text \<open>
  The validator and syntax highlighter of configuration files,
  \<open>src/tunnel/tools/amneziawg-tools/contrib/highlighter/highlighter.c\<close>, with all fields. A span is a
  pair of a position in the text and a length; \<open>rd\<close> reads the text at a position, and gives the terminating zero byte
  at its end, where the validators of addresses may look. Allocation does not fail.
\<close>

type_synonym string_span = "nat \<times> nat"

definition rd :: "string \<Rightarrow> nat \<Rightarrow> char" where
  "rd tx k = (if k < length tx then tx ! k else CHR 0x00)"

text \<open>The characters of a span.\<close>

definition span_text :: "string \<Rightarrow> string_span \<Rightarrow> string" where
  "span_text tx s = map (\<lambda>i. rd tx (fst s + i)) [0..<snd s]"

subsection \<open>Characters and words\<close>

text \<open>A character as the \<open>int\<close> the comparisons promote it to.\<close>

abbreviation cval :: "char \<Rightarrow> int" where "cval c \<equiv> sint (schar c)"

definition is_decimal :: "char \<Rightarrow> bool" where
  "is_decimal c \<longleftrightarrow> cval c \<ge> 48 \<and> cval c \<le> 57"

definition is_hexadecimal :: "char \<Rightarrow> bool" where
  "is_hexadecimal c \<longleftrightarrow> is_decimal c \<or> (sint (schar c OR 32) \<ge> 97 \<and> sint (schar c OR 32) \<le> 102)"

definition is_alphabet :: "char \<Rightarrow> bool" where
  "is_alphabet c \<longleftrightarrow> sint (schar c OR 32) \<ge> 97 \<and> sint (schar c OR 32) \<le> 122"

definition is_same :: "string \<Rightarrow> string_span \<Rightarrow> string \<Rightarrow> bool" where
  "is_same tx s c \<longleftrightarrow> length c = snd s \<and> span_text tx s = c"

text \<open>\<open>(unsigned)a - 'a' < 26\<close> and \<open>a &= 95\<close>.\<close>

definition caseless :: "char \<Rightarrow> cint" where
  "caseless a = (if schar a - 97 < 26 then schar a AND 95 else schar a)"

definition is_caseless_same :: "string \<Rightarrow> string_span \<Rightarrow> string \<Rightarrow> bool" where
  "is_caseless_same tx s c \<longleftrightarrow>
     length c = snd s \<and> (\<forall>i < length c. caseless (c ! i) = caseless (rd tx (fst s + i)))"

subsection \<open>Values\<close>

definition is_valid_key :: "string \<Rightarrow> string_span \<Rightarrow> bool" where
  "is_valid_key tx s =
     (let c = (\<lambda>i. rd tx (fst s + i))
      in snd s = 44 \<and> c 43 = CHR ''='' \<and>
         (\<forall>i < 42. is_decimal (c i) \<or> is_alphabet (c i) \<or> c i = CHR ''/'' \<or> c i = CHR ''+'') \<and>
         c 42 \<in> set ''AEIMQUYcgkosw480'')"

text \<open>The loop over a host name: the numbers of digits and of characters that are no dots, or \<open>None\<close> when a
  character is refused.\<close>

fun hostname_loop :: "string \<Rightarrow> nat \<Rightarrow> nat \<Rightarrow> nat \<Rightarrow> nat \<Rightarrow> nat \<Rightarrow> (nat \<times> nat) option" where
  "hostname_loop tx st i 0 num_digit num_entity = Some (num_digit, num_entity)"
| "hostname_loop tx st i (Suc n) num_digit num_entity =
     (let c = rd tx (st + i)
      in if is_decimal c then hostname_loop tx st (Suc i) n (num_digit + 1) num_entity
         else if c = CHR ''.'' then hostname_loop tx st (Suc i) n num_digit (num_entity - 1)
         else if \<not> is_alphabet c \<and> c \<noteq> CHR ''-'' then None
         else if i \<noteq> 0 \<and> c = CHR ''.'' \<and> rd tx (st + i - 1) = CHR ''.'' then None
         else hostname_loop tx st (Suc i) n num_digit num_entity)"

definition is_valid_hostname :: "string \<Rightarrow> string_span \<Rightarrow> bool" where
  "is_valid_hostname tx s =
     (let (st, len) = s; c = (\<lambda>i. rd tx (st + i))
      in if len > 63 \<or> len = 0 then False
         else if c 0 = CHR ''-'' \<or> c (len - 1) = CHR ''-'' then False
         else if c 0 = CHR ''.'' \<or> c (len - 1) = CHR ''.'' then False
         else case hostname_loop tx st 0 len 0 len of
             None \<Rightarrow> False
           | Some (num_digit, num_entity) \<Rightarrow> num_digit \<noteq> num_entity)"

text \<open>The digits at a position, at most \<open>m\<close> of them and inside the span: their number and their value.\<close>

fun scan_dec :: "string \<Rightarrow> nat \<Rightarrow> nat \<Rightarrow> nat \<Rightarrow> nat \<Rightarrow> nat \<times> nat" where
  "scan_dec tx p lim 0 val = (0, val)"
| "scan_dec tx p lim (Suc m) val =
     (if p < lim \<and> is_decimal (rd tx p)
      then let (j, v) = scan_dec tx (Suc p) lim m (10 * val + nat (cval (rd tx p) - 48)) in (Suc j, v)
      else (0, val))"

text \<open>The octets from the \<open>i\<close>-th one, with \<open>n\<close> rounds of the loop left.\<close>

fun ipv4_loop :: "string \<Rightarrow> nat \<Rightarrow> nat \<Rightarrow> nat \<Rightarrow> nat \<Rightarrow> bool" where
  "ipv4_loop tx p lim i 0 = False"
| "ipv4_loop tx p lim i (Suc n) =
     (if p < lim
      then let (j, val) = scan_dec tx p lim 3 0
           in if j = 0 \<or> (j > 1 \<and> rd tx p = CHR ''0'') \<or> val > 255 then False
              else if p + j = lim \<and> i = 3 then True
              else if rd tx (p + j) \<noteq> CHR ''.'' then False
              else ipv4_loop tx (p + j + 1) lim (Suc i) n
      else False)"

definition is_valid_ipv4 :: "string \<Rightarrow> string_span \<Rightarrow> bool" where
  "is_valid_ipv4 tx s = ipv4_loop tx (fst s) (fst s + snd s) 0 4"

fun scan_hex :: "string \<Rightarrow> nat \<Rightarrow> nat \<Rightarrow> nat \<Rightarrow> nat" where
  "scan_hex tx p lim 0 = 0"
| "scan_hex tx p lim (Suc m) = (if p < lim \<and> is_hexadecimal (rd tx p) then Suc (scan_hex tx (Suc p) lim m) else 0)"

text \<open>The groups of an IPv6 address. Every round moves forward, so as many rounds as there are characters are
  enough.\<close>

fun ipv6_loop :: "string \<Rightarrow> nat \<Rightarrow> nat \<Rightarrow> nat \<Rightarrow> bool \<Rightarrow> nat \<Rightarrow> bool" where
  "ipv6_loop tx p lim i seen_colon 0 = True"
| "ipv6_loop tx p lim i seen_colon (Suc n) =
     (if p < lim
      then if rd tx p = CHR '':'' \<and> \<not> seen_colon
           then if p + 1 = lim then True
                else if i = 7 then False
                else ipv6_loop tx (p + 1) lim (i + 1) True n
           else let j = scan_hex tx p lim 4
                in if j = 0 then False
                   else if p + j = lim \<and> (seen_colon \<or> i = 7) then True
                   else if i = 7 then False
                   else if rd tx (p + j) \<noteq> CHR '':''
                   then if rd tx (p + j) \<noteq> CHR ''.'' \<or> (i < 6 \<and> \<not> seen_colon) then False
                        else is_valid_ipv4 tx (p, lim - p)
                   else ipv6_loop tx (p + j + 1) lim (i + 1) seen_colon n
      else True)"

definition is_valid_ipv6 :: "string \<Rightarrow> string_span \<Rightarrow> bool" where
  "is_valid_ipv6 tx s =
     (let (st, len) = s; c = (\<lambda>i. rd tx (st + i))
      in if len < 2 then False
         else if c 0 = CHR '':'' \<and> c 1 \<noteq> CHR '':'' then False
         else if c (len - 1) = CHR '':'' \<and> c (len - 2) \<noteq> CHR '':'' then False
         else ipv6_loop tx (st + (if c 0 = CHR '':'' then 1 else 0)) (st + len) 0 False (len + 1))"

text \<open>The value of a number in base 10 or 16 after a prefix, \<open>None\<close> for a character that is no digit. At most ten
  characters are read, so that 64 bits do not overflow.\<close>

definition hex_step :: "u64 \<Rightarrow> char \<Rightarrow> u64 option" where
  "hex_step val c =
     (if schar c - 48 < 10 then Some (16 * val + ucast (schar c - 48))
      else if (schar c OR 32) - 97 < 6 then Some (16 * val + ucast ((schar c OR 32) - 97 + 10))
      else None)"

definition dec_step :: "u64 \<Rightarrow> char \<Rightarrow> u64 option" where
  "dec_step val c = (if \<not> is_decimal c then None else Some (10 * val + ucast (schar c) - 48))"

fun fold_chars :: "(u64 \<Rightarrow> char \<Rightarrow> u64 option) \<Rightarrow> u64 \<Rightarrow> string \<Rightarrow> u64 option" where
  "fold_chars f val [] = Some val"
| "fold_chars f val (c # cs) = (case f val c of None \<Rightarrow> None | Some v \<Rightarrow> fold_chars f v cs)"

definition is_valid_uint :: "string \<Rightarrow> string_span \<Rightarrow> bool \<Rightarrow> u64 \<Rightarrow> u64 \<Rightarrow> bool" where
  "is_valid_uint tx s support_hex lo hi =
     (let (st, len) = s
      in if len > 10 \<or> len = 0 then False
         else case (if support_hex \<and> len > 2 \<and> rd tx st = CHR ''0'' \<and> rd tx (st + 1) = CHR ''x''
                    then fold_chars hex_step 0 (span_text tx (st + 2, len - 2))
                    else fold_chars dec_step 0 (span_text tx s)) of
             None \<Rightarrow> False
           | Some val \<Rightarrow> val \<le> hi \<and> val \<ge> lo)"

definition is_valid_port :: "string \<Rightarrow> string_span \<Rightarrow> bool" where
  "is_valid_port tx s = is_valid_uint tx s False 0 65535"

definition is_valid_mtu :: "string \<Rightarrow> string_span \<Rightarrow> bool" where
  "is_valid_mtu tx s = is_valid_uint tx s False 576 65535"

definition is_valid_persistentkeepalive :: "string \<Rightarrow> string_span \<Rightarrow> bool" where
  "is_valid_persistentkeepalive tx s = (if is_same tx s ''off'' then True else is_valid_uint tx s False 0 65535)"

definition is_valid_fwmark :: "string \<Rightarrow> string_span \<Rightarrow> bool" where
  "is_valid_fwmark tx s = (if is_same tx s ''off'' then True else is_valid_uint tx s True 0 4294967295)"

definition is_valid_table :: "string \<Rightarrow> string_span \<Rightarrow> bool" where
  "is_valid_table tx s =
     (if is_same tx s ''auto'' then True
      else if is_same tx s ''off'' then True
      else if snd s < 512 then True
      else is_valid_uint tx s False 0 4294967295)"

definition is_valid_saveconfig :: "string \<Rightarrow> string_span \<Rightarrow> bool" where
  "is_valid_saveconfig tx s \<longleftrightarrow> is_same tx s ''true'' \<or> is_same tx s ''false''"

definition is_valid_prepostupdown :: "string_span \<Rightarrow> bool" where
  "is_valid_prepostupdown s \<longleftrightarrow> snd s \<noteq> 0"

definition is_valid_scope :: "string \<Rightarrow> string_span \<Rightarrow> bool" where
  "is_valid_scope tx s =
     (if snd s > 64 \<or> snd s = 0 then False
      else list_all (\<lambda>c. is_alphabet c \<or> is_decimal c \<or> c \<in> set ''_=+.-'') (span_text tx s))"

text \<open>The loop over a bracketed host: the position, the span of the host or scope so far, and whether a scope was
  seen.\<close>

fun endpoint_loop :: "string \<Rightarrow> nat \<Rightarrow> nat \<Rightarrow> nat \<Rightarrow> string_span \<Rightarrow> bool \<Rightarrow> bool" where
  "endpoint_loop tx p lim 0 hostspan seen_scope = False"
| "endpoint_loop tx p lim (Suc n) hostspan seen_scope =
     (if p < lim
      then if rd tx p = CHR ''%''
           then if seen_scope then False
                else if \<not> is_valid_ipv6 tx hostspan then False
                else endpoint_loop tx (p + 1) lim n (p + 1, 0) True
           else if rd tx p = CHR '']''
           then if seen_scope \<and> \<not> is_valid_scope tx hostspan then False
                else if \<not> seen_scope \<and> \<not> is_valid_ipv6 tx hostspan then False
                else if p + 1 = lim \<or> rd tx (p + 1) \<noteq> CHR '':'' then False
                else is_valid_port tx (p + 2, lim - (p + 2))
           else endpoint_loop tx (p + 1) lim n (fst hostspan, snd hostspan + 1) seen_scope
      else False)"

text \<open>The position of the first \<open>c\<close> of a span, from the start of the span; its length when there is none.\<close>

definition find_char :: "string \<Rightarrow> string_span \<Rightarrow> char \<Rightarrow> nat" where
  "find_char tx s c = length (takeWhile (\<lambda>x. x \<noteq> c) (span_text tx s))"

definition is_valid_endpoint :: "string \<Rightarrow> string_span \<Rightarrow> bool" where
  "is_valid_endpoint tx s =
     (let (st, len) = s
      in if len = 0 then False
         else if rd tx st = CHR ''['' then endpoint_loop tx (st + 1) (st + len) len (st + 1, 0) False
         else let i = find_char tx s CHR '':''
              in if i < len
                 then is_valid_port tx (st + i + 1, len - i - 1) \<and> (is_valid_ipv4 tx (st, i) \<or> is_valid_hostname tx (st, i))
                 else False)"

definition is_valid_network :: "string \<Rightarrow> string_span \<Rightarrow> bool" where
  "is_valid_network tx s =
     (let (st, len) = s; i = find_char tx s CHR ''/''
      in if i < len
         then let digits = span_text tx (st + i + 1, len - i - 1)
              in if length digits > 3 \<or> digits = [] then False
                 else if \<not> list_all is_decimal digits then False
                 else let cidrval = foldl (\<lambda>v c. 10 * v + nat (cval c - 48)) 0 digits
                      in if is_valid_ipv4 tx (st, i) then cidrval \<le> 32
                         else if is_valid_ipv6 tx (st, i) then cidrval \<le> 128
                         else False
         else is_valid_ipv4 tx s \<or> is_valid_ipv6 tx s)"

subsection \<open>Fields\<close>

datatype field =
    InterfaceSection | PrivateKey | ListenPort | Address | DNS | MTU | FwMark | Table
  | PreUp | PostUp | PreDown | PostDown | SaveConfig
  | PeerSection | PublicKey | PresharedKey | AllowedIPs | Endpoint | PersistentKeepalive
  | Invalid

definition section_for_field :: "field \<Rightarrow> field" where
  "section_for_field t =
     (if t \<in> {PrivateKey, ListenPort, Address, DNS, MTU, FwMark, Table, PreUp, PostUp, PreDown, PostDown, SaveConfig}
      then InterfaceSection
      else if t \<in> {PublicKey, PresharedKey, AllowedIPs, Endpoint, PersistentKeepalive} then PeerSection
      else Invalid)"

definition field_names :: "(string \<times> field) list" where
  "field_names =
     [(''PrivateKey'', PrivateKey), (''ListenPort'', ListenPort), (''Address'', Address), (''DNS'', DNS), (''MTU'', MTU),
      (''PublicKey'', PublicKey), (''PresharedKey'', PresharedKey), (''AllowedIPs'', AllowedIPs), (''Endpoint'', Endpoint),
      (''PersistentKeepalive'', PersistentKeepalive), (''FwMark'', FwMark), (''Table'', Table), (''PreUp'', PreUp),
      (''PostUp'', PostUp), (''PreDown'', PreDown), (''PostDown'', PostDown), (''SaveConfig'', SaveConfig)]"

definition get_field :: "string \<Rightarrow> string_span \<Rightarrow> field" where
  "get_field tx s = (case find (\<lambda>(n, t). is_caseless_same tx s n) field_names of None \<Rightarrow> Invalid | Some (n, t) \<Rightarrow> t)"

definition get_sectiontype :: "string \<Rightarrow> string_span \<Rightarrow> field" where
  "get_sectiontype tx s =
     (if is_caseless_same tx s ''[Peer]'' then PeerSection
      else if is_caseless_same tx s ''[Interface]'' then InterfaceSection
      else Invalid)"

subsection \<open>Spans\<close>

datatype highlight_type =
    HighlightSection | HighlightField | HighlightPrivateKey | HighlightPublicKey | HighlightPresharedKey
  | HighlightIP | HighlightCidr | HighlightHost | HighlightPort | HighlightMTU | HighlightKeepalive
  | HighlightComment | HighlightDelimiter | HighlightTable | HighlightFwMark | HighlightSaveConfig | HighlightCmd
  | HighlightError | HighlightEnd

record highlight_span =
  hl_type :: highlight_type
  hl_start :: nat
  hl_len :: nat

definition append_highlight_span :: "highlight_span list \<Rightarrow> string_span \<Rightarrow> highlight_type \<Rightarrow> highlight_span list" where
  "append_highlight_span a s t =
     (if snd s = 0 then a else a @ [\<lparr>hl_type = t, hl_start = fst s, hl_len = snd s\<rparr>])"

definition highlight_multivalue_value :: "highlight_span list \<Rightarrow> string \<Rightarrow> string_span \<Rightarrow> field \<Rightarrow> highlight_span list" where
  "highlight_multivalue_value ret tx s sect =
     (let (st, len) = s
      in if sect = DNS
         then append_highlight_span ret s
                (if is_valid_ipv4 tx s \<or> is_valid_ipv6 tx s then HighlightIP
                 else if is_valid_hostname tx s then HighlightHost else HighlightError)
         else if sect = Address \<or> sect = AllowedIPs
         then if \<not> is_valid_network tx s then append_highlight_span ret s HighlightError
              else let slash = find_char tx s CHR ''/''
                   in if slash = len then append_highlight_span ret s HighlightIP
                      else append_highlight_span
                             (append_highlight_span
                                (append_highlight_span ret (st, slash) HighlightIP)
                                (st + slash, 1) HighlightDelimiter)
                             (st + slash + 1, len - slash - 1) HighlightCidr
         else append_highlight_span ret s HighlightError)"

text \<open>The loop over the values of a list: the position, the current span, its length at the last character
  that is no white space. The last delimiter becomes an error when no value follows it.\<close>

fun multivalue_loop ::
  "string \<Rightarrow> field \<Rightarrow> highlight_span list \<Rightarrow> nat \<Rightarrow> nat \<Rightarrow> string_span \<Rightarrow> nat \<Rightarrow> highlight_span list \<times> string_span" where
  "multivalue_loop tx sect ret p 0 cur len_at_last_space = (ret, (fst cur, len_at_last_space))"
| "multivalue_loop tx sect ret p (Suc n) cur len_at_last_space =
     (if rd tx p = CHR '',''
      then multivalue_loop tx sect
             (append_highlight_span (highlight_multivalue_value ret tx (fst cur, len_at_last_space) sect) (p, 1) HighlightDelimiter)
             (p + 1) n (p + 1, 0) 0
      else if rd tx p = CHR '' '' \<or> rd tx p = CHR 0x09
      then if p = fst cur \<and> snd cur = 0 then multivalue_loop tx sect ret (p + 1) n (fst cur + 1, snd cur) len_at_last_space
           else multivalue_loop tx sect ret (p + 1) n (fst cur, snd cur + 1) len_at_last_space
      else multivalue_loop tx sect ret (p + 1) n (fst cur, snd cur + 1) (snd cur + 1))"

definition highlight_multivalue :: "highlight_span list \<Rightarrow> string \<Rightarrow> string_span \<Rightarrow> field \<Rightarrow> highlight_span list" where
  "highlight_multivalue ret tx s sect =
     (let (ret, cur) = multivalue_loop tx sect ret (fst s) (snd s) (fst s, 0) 0
      in if snd cur \<noteq> 0 then highlight_multivalue_value ret tx cur sect
         else if hl_type (last ret) = HighlightDelimiter then butlast ret @ [(last ret)\<lparr>hl_type := HighlightError\<rparr>]
         else ret)"

text \<open>The position of the last colon of a span, from its start.\<close>

definition find_last_colon :: "string \<Rightarrow> string_span \<Rightarrow> nat" where
  "find_last_colon tx s = snd s - 1 - length (takeWhile (\<lambda>x. x \<noteq> CHR '':'') (rev (span_text tx s)))"

definition simple_value :: "string \<Rightarrow> string_span \<Rightarrow> field \<Rightarrow> highlight_type" where
  "simple_value tx s sect =
     (case sect of
        PrivateKey \<Rightarrow> if is_valid_key tx s then HighlightPrivateKey else HighlightError
      | PublicKey \<Rightarrow> if is_valid_key tx s then HighlightPublicKey else HighlightError
      | PresharedKey \<Rightarrow> if is_valid_key tx s then HighlightPresharedKey else HighlightError
      | MTU \<Rightarrow> if is_valid_mtu tx s then HighlightMTU else HighlightError
      | SaveConfig \<Rightarrow> if is_valid_saveconfig tx s then HighlightSaveConfig else HighlightError
      | FwMark \<Rightarrow> if is_valid_fwmark tx s then HighlightFwMark else HighlightError
      | Table \<Rightarrow> if is_valid_table tx s then HighlightTable else HighlightError
      | PreUp \<Rightarrow> if is_valid_prepostupdown s then HighlightCmd else HighlightError
      | PostUp \<Rightarrow> if is_valid_prepostupdown s then HighlightCmd else HighlightError
      | PreDown \<Rightarrow> if is_valid_prepostupdown s then HighlightCmd else HighlightError
      | PostDown \<Rightarrow> if is_valid_prepostupdown s then HighlightCmd else HighlightError
      | ListenPort \<Rightarrow> if is_valid_port tx s then HighlightPort else HighlightError
      | PersistentKeepalive \<Rightarrow> if is_valid_persistentkeepalive tx s then HighlightKeepalive else HighlightError
      | _ \<Rightarrow> HighlightError)"

definition highlight_value :: "highlight_span list \<Rightarrow> string \<Rightarrow> string_span \<Rightarrow> field \<Rightarrow> highlight_span list" where
  "highlight_value ret tx s sect =
     (if sect = Endpoint
      then if \<not> is_valid_endpoint tx s then append_highlight_span ret s HighlightError
           else let colon = find_last_colon tx s
                in append_highlight_span
                     (append_highlight_span
                        (append_highlight_span ret (fst s, colon) HighlightHost)
                        (fst s + colon, 1) HighlightDelimiter)
                     (fst s + colon + 1, snd s - colon - 1) HighlightPort
      else if sect \<in> {Address, DNS, AllowedIPs} then highlight_multivalue ret tx s sect
      else append_highlight_span ret s (simple_value tx s sect))"

subsection \<open>The file\<close>

datatype hl_mode = OnNone | OnKey | OnValue | OnComment | OnSection

record hl_state =
  hl_spans :: "highlight_span list"
  current_span :: string_span
  current_section :: field
  current_field :: field
  hl_mode :: hl_mode
  len_at_last_space :: nat
  equals_location :: nat

definition hl_init :: hl_state where
  "hl_init = \<lparr>hl_spans = [], current_span = (0, 0), current_section = Invalid, current_field = Invalid, hl_mode = OnNone,
     len_at_last_space = 0, equals_location = 0\<rparr>"

text \<open>What the end of a line, of the text, or a comment ends.\<close>

definition hl_flush :: "string \<Rightarrow> hl_state \<Rightarrow> hl_state" where
  "hl_flush tx st =
     (let cur = current_span st; trimmed = (fst cur, len_at_last_space st); ret = hl_spans st
      in case hl_mode st of
           OnKey \<Rightarrow> st\<lparr>hl_spans := append_highlight_span ret trimmed HighlightError, current_span := trimmed\<rparr>
         | OnValue \<Rightarrow>
             if snd cur \<noteq> 0
             then st\<lparr>hl_spans := highlight_value (append_highlight_span ret (equals_location st, 1) HighlightDelimiter) tx trimmed (current_field st),
                     current_span := trimmed\<rparr>
             else st\<lparr>hl_spans := append_highlight_span ret (equals_location st, 1) HighlightError\<rparr>
         | OnSection \<Rightarrow>
             let sect = get_sectiontype tx trimmed
             in st\<lparr>hl_spans := append_highlight_span ret trimmed (if sect = Invalid then HighlightError else HighlightSection),
                   current_span := trimmed, current_section := sect\<rparr>
         | OnComment \<Rightarrow> st\<lparr>hl_spans := append_highlight_span ret cur HighlightComment\<rparr>
         | OnNone \<Rightarrow> st)"

definition grow_span :: "string_span \<Rightarrow> string_span" where
  "grow_span s = (fst s, snd s + 1)"

definition hl_step :: "string \<Rightarrow> hl_state \<Rightarrow> nat \<Rightarrow> hl_state" where
  "hl_step tx st i =
     (let c = tx ! i; cur = current_span st
      in if c = CHR 0x0A \<or> (hl_mode st \<noteq> OnComment \<and> c = CHR ''#'')
         then let st = (hl_flush tx st)\<lparr>len_at_last_space := 0, current_field := Invalid\<rparr>
              in if c = CHR ''#'' then st\<lparr>current_span := (i, 1), hl_mode := OnComment\<rparr>
                 else st\<lparr>current_span := (i + 1, 0), hl_mode := OnNone\<rparr>
         else if hl_mode st = OnComment then st\<lparr>current_span := grow_span cur\<rparr>
         else if c = CHR '' '' \<or> c = CHR 0x09
         then if i = fst cur \<and> snd cur = 0 then st\<lparr>current_span := (fst cur + 1, snd cur)\<rparr>
              else st\<lparr>current_span := grow_span cur\<rparr>
         else if c = CHR ''='' \<and> hl_mode st = OnKey
         then let key = (fst cur, len_at_last_space st);
                  fld = get_field tx key;
                  sect = section_for_field fld;
                  t = (if sect = Invalid \<or> fld = Invalid \<or> sect \<noteq> current_section st then HighlightError else HighlightField)
              in st\<lparr>hl_spans := append_highlight_span (hl_spans st) key t, current_field := fld, equals_location := i,
                    current_span := (i + 1, 0), hl_mode := OnValue\<rparr>
         else st\<lparr>hl_mode := (if hl_mode st = OnNone then if c = CHR ''['' then OnSection else OnKey else hl_mode st),
                 current_span := grow_span cur, len_at_last_space := snd cur + 1\<rparr>)"

text \<open>The spans, and the end marker after them (whose length is \<open>(size_t)-1\<close> in the source).\<close>

definition highlight_config :: "string \<Rightarrow> highlight_span list" where
  "highlight_config tx =
     hl_spans (hl_flush tx (foldl (hl_step tx) hl_init [0..<length tx])) @ [\<lparr>hl_type = HighlightEnd, hl_start = 0, hl_len = 2 ^ 64 - 1\<rparr>]"

subsection \<open>Spans in order\<close>

definition spans_upto :: "nat \<Rightarrow> highlight_span list \<Rightarrow> bool" where
  "spans_upto n xs \<longleftrightarrow> sorted_wrt (\<lambda>a b. hl_start a + hl_len a \<le> hl_start b) xs \<and>
     (\<forall>x \<in> set xs. 0 < hl_len x \<and> hl_start x + hl_len x \<le> n)"

lemma spans_upto_mono: "spans_upto n xs \<Longrightarrow> n \<le> m \<Longrightarrow> spans_upto m xs"
  by (auto simp: spans_upto_def)

lemma spans_upto_append:
  assumes "spans_upto n ret" and "n \<le> fst s" and "fst s + snd s \<le> m"
  shows "spans_upto m (append_highlight_span ret s t)"
  using assms by (auto simp: spans_upto_def append_highlight_span_def sorted_wrt_append)

lemma length_span_text [simp]: "length (span_text tx s) = snd s"
  by (simp add: span_text_def)

lemma find_char_le: "find_char tx s c \<le> snd s"
  using length_takeWhile_le [of "\<lambda>x. x \<noteq> c" "span_text tx s"] by (simp add: find_char_def)

lemma spans_upto_three:
  assumes "spans_upto n ret" and "n \<le> st" and "k + 1 \<le> len" and "st + len \<le> m"
  shows "spans_upto m (append_highlight_span (append_highlight_span (append_highlight_span ret (st, k) t1) (st + k, 1) t2)
    (st + k + 1, len - k - 1) t3)"
proof -
  have "spans_upto (st + k) (append_highlight_span ret (st, k) t1)"
    using spans_upto_append [OF assms(1), of "(st, k)" "st + k"] assms(2) by simp
  then have "spans_upto (st + k + 1) (append_highlight_span (append_highlight_span ret (st, k) t1) (st + k, 1) t2)"
    using spans_upto_append [of "st + k" _ "(st + k, 1)" "st + k + 1"] by simp
  then show ?thesis
    using spans_upto_append [of "st + k + 1" _ "(st + k + 1, len - k - 1)" m] assms(3,4) by simp
qed

lemma multivalue_value_spans:
  assumes "spans_upto n ret" and "n \<le> fst s" and "fst s + snd s \<le> m"
  shows "spans_upto m (highlight_multivalue_value ret tx s sect)"
proof -
  obtain st len where s: "s = (st, len)"
    by (cases s)
  have "find_char tx (st, len) CHR ''/'' \<le> len"
    using find_char_le [of tx "(st, len)"] by simp
  then show ?thesis
    using assms spans_upto_append [OF assms] spans_upto_three [OF assms(1), of st "find_char tx (st, len) CHR ''/''" len m]
    by (auto simp: highlight_multivalue_value_def s Let_def)
qed

lemma multivalue_loop_spans:
  assumes "multivalue_loop tx sect ret p k cur la = (ret', cur')" and "spans_upto n ret" and "n \<le> fst cur"
    and "fst cur + snd cur \<le> p" and "la \<le> snd cur" and "p + k \<le> m"
  shows "\<exists>n'. spans_upto n' ret' \<and> n' \<le> fst cur' \<and> fst cur' + snd cur' \<le> m"
  using assms
proof (induction k arbitrary: ret p cur la n)
  case 0
  then show ?case by auto
next
  case (Suc k)
  show ?case
  proof (cases "rd tx p = CHR '',''")
    case True
    have "spans_upto p (highlight_multivalue_value ret tx (fst cur, la) sect)"
      using Suc.prems by (intro multivalue_value_spans) auto
    then have "spans_upto (p + 1) (append_highlight_span (highlight_multivalue_value ret tx (fst cur, la) sect) (p, 1) HighlightDelimiter)"
      by (rule spans_upto_append) simp_all
    then show ?thesis
      using Suc.IH [of _ "p + 1" "(p + 1, 0)" 0 "p + 1"] Suc.prems True by simp
  next
    case False
    then show ?thesis
      using Suc.prems Suc.IH [of ret "p + 1" "(fst cur + 1, snd cur)" la n] Suc.IH [of ret "p + 1" "(fst cur, snd cur + 1)" la n]
        Suc.IH [of ret "p + 1" "(fst cur, snd cur + 1)" "snd cur + 1" n]
      by (auto split: if_splits)
  qed
qed

lemma spans_upto_retype:
  assumes "spans_upto n ret" and "ret \<noteq> []"
  shows "spans_upto n (butlast ret @ [(last ret)\<lparr>hl_type := t\<rparr>])"
proof -
  obtain xs x where "ret = xs @ [x]"
    using assms(2) by (metis append_butlast_last_id)
  then show ?thesis
    using assms(1) by (auto simp: spans_upto_def sorted_wrt_append)
qed

lemma highlight_multivalue_spans:
  assumes "spans_upto n ret" and "n \<le> fst s" and "fst s + snd s \<le> m" and "ret \<noteq> []"
  shows "spans_upto m (highlight_multivalue ret tx s sect)"
proof -
  obtain ret' cur' where l: "multivalue_loop tx sect ret (fst s) (snd s) (fst s, 0) 0 = (ret', cur')"
    by (metis surj_pair)
  then obtain n' where n': "spans_upto n' ret'" "n' \<le> fst cur'" "fst cur' + snd cur' \<le> m"
    using multivalue_loop_spans [OF l assms(1), of m] assms(2,3) by auto
  have grow: "append_highlight_span xs a t \<noteq> []" "highlight_multivalue_value xs tx a sect \<noteq> []" if "xs \<noteq> []" for xs a t
    using that by (auto simp: append_highlight_span_def highlight_multivalue_value_def Let_def split: prod.split)
  have "ret \<noteq> [] \<Longrightarrow> fst (multivalue_loop tx sect ret p k cur la) \<noteq> []" for p k cur la
    by (induction k arbitrary: ret p cur la) (use grow in auto)
  then have "ret' \<noteq> []"
    using assms(4) l by (metis fst_conv)
  then show ?thesis
    using n' multivalue_value_spans [OF n'] spans_upto_retype [OF spans_upto_mono [OF n'(1), of m]] spans_upto_mono [OF n'(1), of m] l
    by (auto simp: highlight_multivalue_def)
qed

lemma highlight_value_spans:
  assumes "spans_upto n ret" and "n \<le> fst s" and "fst s + snd s \<le> m" and "ret \<noteq> []"
  shows "spans_upto m (highlight_value ret tx s sect)"
proof -
  have "snd s \<noteq> 0" if "is_valid_endpoint tx s"
    using that by (cases s) (auto simp: is_valid_endpoint_def split: if_splits)
  then have "find_last_colon tx s + 1 \<le> snd s" if "is_valid_endpoint tx s"
    using that by (simp add: find_last_colon_def)
  then show ?thesis
    using assms spans_upto_append [OF assms(1-3)] highlight_multivalue_spans [OF assms]
      spans_upto_three [OF assms(1,2), of "find_last_colon tx s" "snd s" m]
    by (auto simp: highlight_value_def Let_def)
qed

text \<open>The invariant of the state after \<open>i\<close> characters.\<close>

definition hl_inv :: "nat \<Rightarrow> hl_state \<Rightarrow> bool" where
  "hl_inv i st \<longleftrightarrow> fst (current_span st) + snd (current_span st) = i \<and>
     (if hl_mode st = OnValue
      then spans_upto (equals_location st) (hl_spans st) \<and> equals_location st < fst (current_span st) \<and>
        (snd (current_span st) \<noteq> 0 \<longrightarrow> len_at_last_space st \<le> snd (current_span st))
      else spans_upto (fst (current_span st)) (hl_spans st) \<and> len_at_last_space st \<le> snd (current_span st))"

lemma hl_flush_spans:
  assumes "hl_inv i st"
  shows "spans_upto i (hl_spans (hl_flush tx st))"
proof (cases "hl_mode st = OnValue")
  case True
  let ?a = "append_highlight_span (hl_spans st) (equals_location st, 1)"
  have s: "spans_upto (equals_location st + 1) (?a t)" "?a t \<noteq> []" for t
    using assms True spans_upto_append [of "equals_location st" "hl_spans st" "(equals_location st, 1)" "equals_location st + 1"]
    by (auto simp: hl_inv_def append_highlight_span_def)
  show ?thesis
    using assms True spans_upto_mono [OF s(1), of i HighlightError]
      highlight_value_spans [OF s(1) _ _ s(2), of "(fst (current_span st), len_at_last_space st)" i]
    by (auto simp: hl_flush_def hl_inv_def Let_def)
next
  case False
  then have "spans_upto (fst (current_span st)) (hl_spans st)" "len_at_last_space st \<le> snd (current_span st)"
    "fst (current_span st) + snd (current_span st) = i"
    using assms by (auto simp: hl_inv_def)
  then show ?thesis
    using False spans_upto_append [of "fst (current_span st)" "hl_spans st" _ i] spans_upto_mono [of "fst (current_span st)" "hl_spans st" i]
    by (auto simp: hl_flush_def Let_def split: hl_mode.split)
qed

lemma hl_step_inv:
  assumes "hl_inv i st"
  shows "hl_inv (Suc i) (hl_step tx st i)"
proof -
  have f: "spans_upto i (hl_spans (hl_flush tx st))"
    by (rule hl_flush_spans [OF assms])
  have k: "spans_upto i (append_highlight_span (hl_spans st) (fst (current_span st), len_at_last_space st) t)" if "hl_mode st = OnKey" for t
    using assms that by (intro spans_upto_append) (auto simp: hl_inv_def)
  show ?thesis
    using assms spans_upto_mono [OF f, of "Suc i"] f k
    by (auto simp: hl_step_def hl_inv_def Let_def grow_span_def elim: spans_upto_mono split: if_splits)
qed

text \<open>C13. Whatever the text, the spans of the highlighter lie inside it, are not empty, and are in order without
  overlapping, and the end marker follows them.\<close>

theorem highlight_config_spans:
  "\<exists>xs. highlight_config tx = xs @ [\<lparr>hl_type = HighlightEnd, hl_start = 0, hl_len = 2 ^ 64 - 1\<rparr>] \<and> spans_upto (length tx) xs"
proof -
  have "hl_inv n (foldl (hl_step tx) hl_init [0..<n])" for n
  proof (induction n)
    case 0
    then show ?case by (simp add: hl_inv_def hl_init_def spans_upto_def)
  qed (simp add: hl_step_inv)
  then show ?thesis
    using hl_flush_spans by (auto simp: highlight_config_def)
qed

subsection \<open>Characters by range\<close>

lemma is_decimal_iff: "is_decimal c \<longleftrightarrow> 48 \<le> (of_char c :: nat) \<and> of_char c \<le> (57 :: nat)"
proof -
  have "is_decimal c \<longleftrightarrow> 47 < sint (schar c) \<and> sint (schar c) < 58"
    by (auto simp: is_decimal_def)
  then show ?thesis
    using of_char_less [of c] by (simp only: sint_schar split: if_split) linarith
qed

lemma is_decimal_isdigit: "is_decimal c = isdigit_char c"
  by (simp add: is_decimal_iff isdigit_char_iff)

lemma is_alphabet_iff:
  "is_alphabet c \<longleftrightarrow> 65 \<le> (of_char c :: nat) \<and> of_char c \<le> (90 :: nat) \<or> 97 \<le> (of_char c :: nat) \<and> of_char c \<le> (122 :: nat)"
proof (cases "of_char c < (128 :: nat)")
  case True
  have "sint (schar c OR 32) = int (of_char c) OR int 32"
    using True by (simp add: signed_or_eq sint_schar)
  then have "sint (schar c OR 32) = int (of_char c OR 32)"
    by (simp only: of_nat_or_eq)
  then have "is_alphabet c \<longleftrightarrow> 96 < of_char c OR (32 :: nat) \<and> of_char c OR 32 < (123 :: nat)"
    by (auto simp: is_alphabet_def simp del: of_nat_or_eq)
  then show ?thesis
    using or_range(2) [OF True] by blast
next
  case False
  have "sint (schar c) < 0"
    using False of_char_less [of c] by (simp only: sint_schar if_False)
  then have "sint (schar c OR 32) < 0"
    by (simp add: signed_or_eq)
  then show ?thesis
    using False by (auto simp: is_alphabet_def)
qed

subsection \<open>Keys\<close>

lemma b64_value_alphabet:
  "b64_value c \<noteq> None \<longleftrightarrow> is_decimal c \<or> is_alphabet c \<or> c = CHR ''/'' \<or> c = CHR ''+''"
proof -
  have "c = CHR ''/'' \<longleftrightarrow> of_char c = (47 :: nat)" "c = CHR ''+'' \<longleftrightarrow> of_char c = (43 :: nat)"
    using of_char_eq_iff [of c "CHR ''/''", where 'a = nat] of_char_eq_iff [of c "CHR ''+''", where 'a = nat] by simp_all
  then show ?thesis
    by (auto simp: b64_value_def is_decimal_iff is_alphabet_iff Let_def)
qed

lemma last_sextets: "map (\<lambda>k. b64_char (4 * k)) ([0..<13] @ [14, 15, 13]) = ''AEIMQUYcgkosw480''"
  by code_simp

lemma multiples_of_4: "{n. n < 64 \<and> n mod 4 = 0} = (\<lambda>k. 4 * k) ` {..<16 :: nat}"
proof (intro set_eqI iffI)
  fix n :: nat
  assume n: "n \<in> {n. n < 64 \<and> n mod 4 = 0}"
  have "n = 4 * (n div 4)" "n div 4 \<in> {..<16}"
    using n by auto
  then show "n \<in> (\<lambda>k. 4 * k) ` {..<16}"
    by (rule image_eqI)
qed auto

lemma upto_16: "set ([0..<13] @ [14, 15, 13]) = {..<16 :: nat}"
proof -
  have "{..<16} = insert 15 (insert 14 (insert 13 {..<13 :: nat}))"
    by (auto simp: less_Suc_eq numeral_eq_Suc)
  then show ?thesis
    by (simp add: atLeast0LessThan insert_commute)
qed

lemma b64_value_last: "b64_value c \<noteq> None \<and> the (b64_value c) mod 4 = 0 \<longleftrightarrow> c \<in> set ''AEIMQUYcgkosw480''"
proof -
  have "b64_value c \<noteq> None \<and> the (b64_value c) mod 4 = 0 \<longleftrightarrow> (\<exists>n < 64. n mod 4 = 0 \<and> c = b64_char n)"
  proof
    assume a: "b64_value c \<noteq> None \<and> the (b64_value c) mod 4 = 0"
    then obtain n where "b64_value c = Some n"
      by blast
    then show "\<exists>n < 64. n mod 4 = 0 \<and> c = b64_char n"
      using a b64_char_value [of c n] by auto
  qed (auto simp: b64_value_char)
  also have "\<dots> \<longleftrightarrow> c \<in> b64_char ` {n. n < 64 \<and> n mod 4 = 0}"
    by (simp only: image_iff Bex_def mem_Collect_eq conj_assoc)
  also have "\<dots> \<longleftrightarrow> c \<in> set (map (\<lambda>k. b64_char (4 * k)) ([0..<13] @ [14, 15, 13]))"
    unfolding multiples_of_4 image_image set_map upto_16 ..
  finally show ?thesis
    unfolding last_sextets .
qed

text \<open>C14. The highlighter and the tools agree on keys: a value is highlighted as a key exactly when the decoder of
  the tools accepts it.\<close>

theorem is_valid_key_decodes:
  assumes "length buf = WG_KEY_LEN"
  shows "is_valid_key tx s \<longleftrightarrow> fst (key_from_base64 buf (span_text tx s))"
proof -
  have nth: "span_text tx s ! i = rd tx (fst s + i)" if "i < snd s" for i
    using that by (simp add: span_text_def)
  have "(\<forall>i < 43. P i) \<longleftrightarrow> (\<forall>i < 42. P i) \<and> P 42" for P :: "nat \<Rightarrow> bool"
    using All_less_Suc [of 42 P] by (simp add: conj_commute)
  then have "fst (key_from_base64 buf (span_text tx s)) \<longleftrightarrow> snd s = 44 \<and> span_text tx s ! 43 = CHR ''='' \<and>
      (\<forall>i < 42. b64_value (span_text tx s ! i) \<noteq> None) \<and>
      b64_value (span_text tx s ! 42) \<noteq> None \<and> the (b64_value (span_text tx s ! 42)) mod 4 = 0"
    using key_from_base64_ok [of buf "span_text tx s"] assms by (auto simp: base64_key_string_def)
  also have "\<dots> \<longleftrightarrow> is_valid_key tx s"
    unfolding b64_value_last unfolding b64_value_alphabet is_valid_key_def Let_def using nth by (auto simp del: list.set)
  finally show ?thesis ..
qed

theorem is_valid_key_decodes_witness:
  "is_valid_key (key_to_base64 (replicate 32 7)) (0, 44)"
proof -
  let ?t = "key_to_base64 (replicate 32 7)"
  have "span_text ?t (0, 44) = ?t"
    by (simp add: list_eq_iff_nth_eq span_text_def rd_def)
  then show ?thesis
    using is_valid_key_decodes [of "replicate 32 0" ?t "(0, 44)"] b64.dec_enc [of "replicate 32 0" "replicate 32 7"] by simp
qed

subsection \<open>IPv4 addresses\<close>

text \<open>The digits a scan reads.\<close>

lemma drop_span: "k \<le> len \<Longrightarrow> drop k (span_text tx (st, len)) = span_text tx (st + k, len - k)"
  by (rule nth_equalityI) (simp_all add: span_text_def add.assoc nth_upt less_diff_conv ac_simps)

lemma span_text_Suc: "span_text tx (p, Suc n) = rd tx p # span_text tx (Suc p, n)"
proof -
  have "[0..<Suc n] = 0 # map Suc [0..<n]"
    by (simp add: map_Suc_upt upt_conv_Cons del: upt_Suc)
  then show ?thesis
    by (simp add: span_text_def comp_def del: upt_Suc)
qed

lemma span_text_Cons: "p < lim \<Longrightarrow> span_text tx (p, lim - p) = rd tx p # span_text tx (Suc p, lim - Suc p)"
  using span_text_Suc [of tx p "lim - Suc p"] by (simp add: Suc_diff_Suc)

definition digits_of :: "nat \<Rightarrow> string \<Rightarrow> string" where
  "digits_of m u = takeWhile is_decimal (take m u)"

definition digits_value :: "nat \<Rightarrow> string \<Rightarrow> nat" where
  "digits_value val ds = foldl (\<lambda>n c. n * 10 + (of_char c - 48)) val ds"

lemma is_decimal_value: "is_decimal c \<Longrightarrow> nat (cval c - 48) = of_char c - 48"
  by (simp add: is_decimal_iff sint_schar)

lemma scan_dec_eq:
  assumes "p \<le> lim"
  shows "scan_dec tx p lim m val = (length (digits_of m (span_text tx (p, lim - p))), digits_value val (digits_of m (span_text tx (p, lim - p))))"
  using assms
proof (induction m arbitrary: p val)
  case 0
  then show ?case by (simp add: digits_of_def digits_value_def)
next
  case (Suc m)
  show ?case
  proof (cases "p < lim")
    case True
    then show ?thesis
      using Suc.IH [of "Suc p"] by (simp add: span_text_Cons digits_of_def digits_value_def is_decimal_value mult.commute)
  next
    case False
    then show ?thesis
      using Suc.prems by (simp add: digits_of_def digits_value_def span_text_def)
  qed
qed

lemma digits_value_dec: "digits_value 0 ds = dec_value ds"
  by (simp add: digits_value_def dec_value_def)

lemma dec_value_snoc: "dec_value (ds @ [c]) = dec_value ds * 10 + (of_char c - 48)"
  by (simp add: dec_value_def)

lemma show_dec_div: "10 \<le> n \<Longrightarrow> show_dec n = show_dec (n div 10) @ [digit_char (n mod 10)]" "n < 10 \<Longrightarrow> show_dec n = [digit_char n]"
  by (subst show_base.simps, simp)+

lemma digit_char_value: "is_decimal c \<Longrightarrow> digit_char (of_char c - 48) = c"
proof -
  assume "is_decimal c"
  then have "48 \<le> (of_char c :: nat)" "of_char c - 48 < (10 :: nat)"
    unfolding is_decimal_iff by linarith+
  then show ?thesis
    by (simp add: digit_char_def)
qed

text \<open>A numeral without leading zeros is the decimal numeral of its value.\<close>

definition canonical :: "string \<Rightarrow> bool" where
  "canonical ds \<longleftrightarrow> ds \<noteq> [] \<and> list_all is_decimal ds \<and> (1 < length ds \<longrightarrow> hd ds \<noteq> CHR ''0'')"

lemma dec_value_0: "list_all is_decimal ds \<Longrightarrow> dec_value ds = 0 \<Longrightarrow> set ds \<subseteq> {CHR ''0''}"
proof (induction ds rule: rev_induct)
  case (snoc c ds)
  then have "of_char c = (48 :: nat)"
    by (simp add: dec_value_snoc is_decimal_iff)
  then have "c = CHR ''0''"
    using of_char_eq_iff [of c "CHR ''0''", where 'a = nat] by simp
  then show ?case
    using snoc by (simp add: dec_value_snoc)
qed simp

lemma canonical_show: "canonical ds \<Longrightarrow> show_dec (dec_value ds) = ds"
proof (induction ds rule: rev_induct)
  case (snoc c ds)
  have c: "is_decimal c" "list_all is_decimal ds"
    using snoc.prems by (simp_all add: canonical_def)
  then have d: "of_char c - 48 < (10 :: nat)"
    unfolding is_decimal_iff by linarith
  show ?case
  proof (cases "ds = []")
    case True
    then show ?thesis
      using d c show_dec_div(2) [OF d] by (simp add: dec_value_def digit_char_value)
  next
    case False
    then have h: "hd ds \<noteq> CHR ''0''" "canonical ds"
      using snoc.prems by (auto simp: canonical_def)
    have "dec_value ds \<noteq> 0"
      using dec_value_0 [OF c(2)] h(1) False hd_in_set [OF False] by blast
    then have "10 \<le> dec_value (ds @ [c])"
      by (simp add: dec_value_snoc)
    moreover have "dec_value (ds @ [c]) div 10 = dec_value ds" "dec_value (ds @ [c]) mod 10 = of_char c - 48"
      using d by (simp_all add: dec_value_snoc)
    ultimately show ?thesis
      using show_dec_div(1) [of "dec_value (ds @ [c])"] snoc.IH [OF h(2)] c(1) by (simp add: digit_char_value)
  qed
qed (simp add: canonical_def)

lemma show_dec_canonical: "canonical (show_dec n)"
proof (induction n rule: less_induct)
  case (less n)
  show ?case
  proof (cases "n < 10")
    case True
    have "is_decimal (digit_char n)"
      using True by (simp add: is_decimal_isdigit)
    then show ?thesis
      using True by (simp add: show_dec_div(2) canonical_def)
  next
    case False
    define u where "u = show_dec (n div 10)"
    have u: "show_dec n = u @ [digit_char (n mod 10)]"
      unfolding u_def using False by (simp only: show_dec_div(1) not_less)
    have i: "canonical u"
      unfolding u_def using less [of "n div 10"] False by simp
    have "u \<noteq> ''0''"
    proof
      assume "u = ''0''"
      then have "n div 10 = 0"
        using dec_value_show [of "n div 10"] unfolding u_def [symmetric] by (simp add: dec_value_def)
      then show False
        using False by simp
    qed
    moreover have "is_decimal (digit_char (n mod 10))"
      by (simp add: is_decimal_isdigit)
    ultimately show ?thesis
      using i unfolding u by (cases u) (auto simp: canonical_def)
  qed
qed

text \<open>The text of a dotted quad: \<open>k\<close> octets followed by a dot, and a last one.\<close>

primrec dotted :: "nat \<Rightarrow> string \<Rightarrow> bool" where
  "dotted 0 u \<longleftrightarrow> (\<exists>a \<le> 255. u = show_dec a)"
| "dotted (Suc k) u \<longleftrightarrow> (\<exists>a \<le> 255. \<exists>v. u = show_dec a @ CHR ''.'' # v \<and> dotted k v)"

lemma show_dec_octet: "a \<le> 255 \<Longrightarrow> length (show_dec a) \<le> 3"
proof -
  assume a: "a \<le> 255"
  have one: "length (show_dec n) = 1" if "n < 10" for n
    using that by (simp only: show_dec_div(2)) simp
  have two: "length (show_dec n) \<le> 2" if "n < 100" for n
    using that one [of n] one [of "n div 10"] show_dec_div(1) [of n] by (cases "n < 10") auto
  show ?thesis
    using a two [of a] two [of "a div 10"] show_dec_div(1) [of a] by (cases "a < 10") auto
qed

lemma digits_of_app:
  assumes "list_all is_decimal ds" and "length ds \<le> m" and "rest = [] \<or> \<not> is_decimal (hd rest)"
  shows "digits_of m (ds @ rest) = ds"
proof -
  have "takeWhile is_decimal (take k rest) = []" for k
    using assms(3) by (cases rest; cases k) auto
  then show ?thesis
    using assms(1,2) by (simp add: digits_of_def takeWhile_append2 list_all_iff)
qed

lemma digits_of_split:
  obtains rest where "u = digits_of m u @ rest" "rest = drop (length (digits_of m u)) u" "list_all is_decimal (digits_of m u)"
    "length (digits_of m u) \<le> m"
proof -
  have "u = digits_of m u @ dropWhile is_decimal (take m u) @ drop m u"
    unfolding digits_of_def by (simp add: append_assoc [symmetric] del: append_assoc)
  moreover have "list_all is_decimal (digits_of m u)"
    by (auto simp: digits_of_def list_all_iff dest: set_takeWhileD)
  moreover have "length (digits_of m u) \<le> m"
    unfolding digits_of_def using length_takeWhile_le [of is_decimal "take m u"] by simp
  ultimately show ?thesis
    using that by (metis append_eq_conv_conj)
qed

lemma octet_digits:
  assumes "a \<le> 255" and "rest = [] \<or> hd rest = CHR ''.''"
  shows "digits_of 3 (show_dec a @ rest) = show_dec a"
  using assms show_dec_octet [of a] show_dec_canonical [of a]
  by (intro digits_of_app) (auto simp: canonical_def is_decimal_iff)

text \<open>Both shapes through the digits at the head of the text.\<close>

lemma dotted_0_digits: "dotted 0 u \<longleftrightarrow> canonical (digits_of 3 u) \<and> dec_value (digits_of 3 u) \<le> 255 \<and> digits_of 3 u = u"
  (is "_ \<longleftrightarrow> ?r")
proof
  assume "dotted 0 u"
  then obtain a where a: "a \<le> 255" "u = show_dec a"
    by auto
  then show ?r
    using octet_digits [OF a(1), of "[]"] show_dec_canonical [of a] dec_value_show [of a] by simp
next
  assume r: ?r
  then have "u = show_dec (dec_value u)" "dec_value u \<le> 255"
    using canonical_show [of u] by metis+
  then show "dotted 0 u"
    unfolding dotted.simps by blast
qed

lemma dotted_Suc_digits:
  "dotted (Suc k) u \<longleftrightarrow> canonical (digits_of 3 u) \<and> dec_value (digits_of 3 u) \<le> 255 \<and>
     (\<exists>v. drop (length (digits_of 3 u)) u = CHR ''.'' # v \<and> dotted k v)"
  (is "_ \<longleftrightarrow> ?r")
proof
  assume "dotted (Suc k) u"
  then obtain a v where a: "a \<le> 255" "u = show_dec a @ CHR ''.'' # v" "dotted k v"
    by auto
  then show ?r
    using octet_digits [OF a(1), of "CHR ''.'' # v"] show_dec_canonical [of a] dec_value_show [of a] by simp
next
  assume r: ?r
  then obtain v where v: "drop (length (digits_of 3 u)) u = CHR ''.'' # v" "dotted k v"
    by blast
  obtain rest where "u = digits_of 3 u @ rest" "rest = drop (length (digits_of 3 u)) u"
    by (rule digits_of_split)
  then have "u = show_dec (dec_value (digits_of 3 u)) @ CHR ''.'' # v"
    using r v canonical_show by metis
  then show "dotted (Suc k) u"
    using r v(2) by auto
qed

lemma octet_guard:
  assumes "ds = digits_of 3 (span_text tx (p, lim - p))"
  shows "(p < lim \<and> \<not> (length ds = 0 \<or> (1 < length ds \<and> rd tx p = CHR ''0'') \<or> 255 < dec_value ds)) \<longleftrightarrow>
    canonical ds \<and> dec_value ds \<le> 255"
proof -
  obtain rest where r: "span_text tx (p, lim - p) = ds @ rest" "list_all is_decimal ds"
    unfolding assms by (rule digits_of_split)
  have "p < lim \<and> rd tx p = hd ds" if "ds \<noteq> []"
  proof -
    have l: "p < lim"
      using that r(1) length_span_text [of tx "(p, lim - p)"] by (cases "p < lim") auto
    then show ?thesis
      using span_text_Cons [OF l, of tx] that r(1) by (metis hd_append2 list.sel(1))
  qed
  then show ?thesis
    using r(2) by (auto simp: canonical_def)
qed

lemma ipv4_loop_step:
  assumes "p \<le> lim" and "ds = digits_of 3 (span_text tx (p, lim - p))"
  shows "ipv4_loop tx p lim i (Suc n) \<longleftrightarrow> canonical ds \<and> dec_value ds \<le> 255 \<and>
    (p + length ds = lim \<and> i = 3 \<or> rd tx (p + length ds) = CHR ''.'' \<and> ipv4_loop tx (p + length ds + 1) lim (Suc i) n)"
proof -
  have "scan_dec tx p lim 3 0 = (length ds, dec_value ds)"
    by (simp only: scan_dec_eq [OF assms(1)] assms(2) digits_value_dec)
  then have "ipv4_loop tx p lim i (Suc n) \<longleftrightarrow>
    (p < lim \<and> \<not> (length ds = 0 \<or> (1 < length ds \<and> rd tx p = CHR ''0'') \<or> 255 < dec_value ds)) \<and>
    (p + length ds = lim \<and> i = 3 \<or> rd tx (p + length ds) = CHR ''.'' \<and> ipv4_loop tx (p + length ds + 1) lim (Suc i) n)"
    by (simp only: ipv4_loop.simps prod.case Let_def) argo
  then show ?thesis
    unfolding octet_guard [OF assms(2)] conj_assoc .
qed

lemma ipv4_loop_past: "lim \<le> p \<Longrightarrow> \<not> ipv4_loop tx p lim i n"
  by (cases n) simp_all

lemma ipv4_loop_dotted: "p \<le> lim \<Longrightarrow> i + n = 3 \<Longrightarrow> ipv4_loop tx p lim i (Suc n) \<longleftrightarrow> dotted n (span_text tx (p, lim - p))"
proof (induction n arbitrary: p i)
  case 0
  define ds where "ds = digits_of 3 (span_text tx (p, lim - p))"
  obtain rest where "span_text tx (p, lim - p) = ds @ rest"
    unfolding ds_def by (rule digits_of_split)
  then have "p + length ds = lim \<longleftrightarrow> ds = span_text tx (p, lim - p)"
    using 0 length_span_text [of tx "(p, lim - p)"] by auto
  then show ?case
    using 0 unfolding ipv4_loop_step [OF 0(1) ds_def] dotted_0_digits ds_def [symmetric] by simp
next
  case (Suc n)
  define ds where "ds = digits_of 3 (span_text tx (p, lim - p))"
  let ?q = "p + length ds"
  obtain rest where r: "span_text tx (p, lim - p) = ds @ rest"
    unfolding ds_def by (rule digits_of_split)
  then have q: "?q \<le> lim" and d: "drop (length ds) (span_text tx (p, lim - p)) = span_text tx (?q, lim - ?q)"
    using Suc.prems length_span_text [of tx "(p, lim - p)"] drop_span [of "length ds" "lim - p" tx p] by auto
  have "rd tx ?q = CHR ''.'' \<and> ipv4_loop tx (?q + 1) lim (Suc i) (Suc n) \<longleftrightarrow>
      (\<exists>v. span_text tx (?q, lim - ?q) = CHR ''.'' # v \<and> dotted n v)"
  proof (cases "?q < lim")
    case True
    then show ?thesis
      using Suc.IH [of "?q + 1" "Suc i"] Suc.prems span_text_Cons [OF True, of tx] by auto
  next
    case False
    then show ?thesis
      using ipv4_loop_past [of lim "?q + 1"] by (simp add: span_text_def)
  qed
  then show ?case
    using Suc.prems unfolding ipv4_loop_step [OF Suc.prems(1) ds_def] dotted_Suc_digits ds_def [symmetric] d by simp
qed

text \<open>C15. The addresses highlighted as IPv4 are exactly the dotted quads of decimal numerals without leading zeros, each
  at most 255. The validator may look at the character behind the span, which does not change its answer.\<close>

theorem is_valid_ipv4_quads:
  "is_valid_ipv4 tx s \<longleftrightarrow>
     (\<exists>a b c d. max (max a b) (max c d) \<le> 255 \<and>
        span_text tx s = show_dec a @ ''.'' @ show_dec b @ ''.'' @ show_dec c @ ''.'' @ show_dec d)"
proof -
  have "is_valid_ipv4 tx s \<longleftrightarrow> dotted (Suc (Suc (Suc 0))) (span_text tx s)"
    using ipv4_loop_dotted [of "fst s" "fst s + snd s" 0 3 tx] by (simp add: is_valid_ipv4_def numeral_eq_Suc)
  also have "\<dots> \<longleftrightarrow> (\<exists>a b c d. max (max a b) (max c d) \<le> 255 \<and>
        span_text tx s = show_dec a @ ''.'' @ show_dec b @ ''.'' @ show_dec c @ ''.'' @ show_dec d)"
    unfolding dotted.simps max.bounded_iff append.simps by blast
  finally show ?thesis .
qed

lemma dec_step_eq: "dec_step (of_nat v) c = (if is_decimal c then Some (of_nat (v * 10 + (of_char c - 48))) else None)"
proof (cases "is_decimal c")
  case True
  then have c: "48 \<le> (of_char c :: nat)" "of_char c < (128 :: nat)"
    unfolding is_decimal_iff by linarith+
  have "word_of_int (sint (schar c)) = (word_of_int (int (of_char c)) :: cint)"
    using c(2) by (simp only: sint_schar if_True)
  then have "schar c = of_nat (of_char c)"
    by simp
  then have "ucast (schar c) = (of_nat (of_char c) :: u64)"
    using c(2) by (simp add: unsigned_of_nat take_bit_nat_eq_self)
  then show ?thesis
    using True c(1) by (simp add: dec_step_def of_nat_diff mult.commute)
qed (simp add: dec_step_def)

lemma fold_chars_dec: "fold_chars dec_step (of_nat v) cs = (if list_all is_decimal cs then Some (of_nat (digits_value v cs)) else None)"
  by (induction cs arbitrary: v) (simp_all add: dec_step_eq digits_value_def del: of_nat_add of_nat_mult)

lemma dec_value_bound: "list_all is_decimal cs \<Longrightarrow> dec_value cs < 10 ^ length cs"
proof (induction cs rule: rev_induct)
  case (snoc c cs)
  then have "of_char c - 48 < (10 :: nat)"
    by (simp add: is_decimal_iff) linarith
  then show ?case
    using snoc by (simp add: dec_value_snoc)
qed (simp add: dec_value_def)

lemma is_valid_uint_dec:
  assumes "hi < 2 ^ 64" and "lo \<le> hi"
  shows "is_valid_uint tx s False (of_nat lo) (of_nat hi) \<longleftrightarrow>
    dec_numeral (span_text tx s) \<and> snd s \<le> 10 \<and> lo \<le> dec_value (span_text tx s) \<and> dec_value (span_text tx s) \<le> hi"
proof -
  define u where "u = span_text tx s"
  have "dec_value u < 2 ^ 64" if "list_all is_decimal u" "snd s \<le> 10"
  proof -
    have "dec_value u < 10 ^ snd s"
      using dec_value_bound [OF that(1)] by (simp add: u_def)
    also have "\<dots> \<le> 10 ^ 10"
      using that(2) by (intro power_increasing) simp_all
    finally show ?thesis by simp
  qed
  then have v: "(of_nat lo \<le> (of_nat (dec_value u) :: u64) \<longleftrightarrow> lo \<le> dec_value u)"
    "((of_nat (dec_value u) :: u64) \<le> of_nat hi \<longleftrightarrow> dec_value u \<le> hi)" if "list_all is_decimal u" "snd s \<le> 10"
    using that assms by (simp_all add: word_le_nat_alt unat_of_nat take_bit_nat_eq_self)
  have "fold_chars dec_step 0 u = (if list_all is_decimal u then Some (of_nat (dec_value u)) else None)"
    using fold_chars_dec [of 0 u] by (simp add: digits_value_dec)
  then have "is_valid_uint tx s False (of_nat lo) (of_nat hi) \<longleftrightarrow>
      (snd s \<le> 10 \<and> snd s \<noteq> 0 \<and> list_all is_decimal u \<and> (of_nat (dec_value u) :: u64) \<le> of_nat hi \<and> of_nat lo \<le> (of_nat (dec_value u) :: u64))"
    by (cases s) (auto simp: is_valid_uint_def u_def)
  moreover have "dec_numeral u \<longleftrightarrow> snd s \<noteq> 0 \<and> list_all is_decimal u"
    using length_span_text [of tx s] unfolding u_def [symmetric]
    by (auto simp: dec_numeral_def is_decimal_isdigit list_all_iff simp flip: length_greater_0_conv)
  ultimately show ?thesis
    unfolding u_def [symmetric] using v by blast
qed

end
