(* ===== verification/Netlink.thy ===== *)
theory Netlink
  imports Ipc
begin

unbundle bit_operations_syntax

text \<open>
  The netlink library of the tools, \<open>src/netlink.h\<close> under \<open>src/tunnel/tools/amneziawg-tools\<close>: attributes and messages, the
  loops over the messages of a datagram, and the generic netlink sockets.

  A pointer into the receive buffer is the memory from there to the end of the buffer. A loop that would hand a message or an
  attribute to a callback that reaches beyond the end of the buffer has the result \<open>None\<close>, and so has a callback that reads beyond it;
  the buffers have less than 2 GiB, so that a length that is negative as an \<open>int\<close> reaches beyond. A message under construction
  is its header and the bytes after the header, so that \<open>nlmsg_len\<close> is their number and \<open>mnl_nlmsg_get_payload_tail\<close> their end: all
  lengths added to it are multiples of four. The platform is little-endian.

  A callback gets the value of \<open>errno\<close> and its data and gives both back with its code.
\<close>

subsection \<open>Words in memory\<close>

fun load :: "u8 list \<Rightarrow> 'a::len word" where
  "load [] = 0"
| "load (b # bs) = ucast b OR push_bit 8 (load bs)"

fun store :: "nat \<Rightarrow> 'a::len word \<Rightarrow> u8 list" where
  "store 0 w = []"
| "store (Suc n) w = ucast w # store n (drop_bit 8 w)"

definition load_at :: "nat \<Rightarrow> nat \<Rightarrow> u8 list \<Rightarrow> 'a::len word" where
  "load_at i n mem = load (take n (drop i mem))"

text \<open>A string in memory: \<open>None\<close> when its end is not in the buffer. \<open>strncpy\<close> reads no more than \<open>n\<close> bytes.\<close>

definition c_str :: "u8 list \<Rightarrow> string option" where
  "c_str mem = (if 0 \<in> set mem then Some (map char_of_u8 (takeWhile (\<lambda>b. b \<noteq> 0) mem)) else None)"

definition c_strn :: "nat \<Rightarrow> u8 list \<Rightarrow> string option" where
  "c_strn n mem =
     (if n \<le> length mem \<or> 0 \<in> set mem then Some (map char_of_u8 (takeWhile (\<lambda>b. b \<noteq> 0) (take n mem))) else None)"

text \<open>The conversion of a pointer difference to \<open>int\<close>.\<close>

definition to_int :: "int \<Rightarrow> int" where
  "to_int n = sint (word_of_int n :: cint)"

subsection \<open>Constants\<close>

abbreviation ESRCH :: int where "ESRCH \<equiv> 3"
abbreviation EINTR :: int where "EINTR \<equiv> 4"
abbreviation ENOSPC :: int where "ENOSPC \<equiv> 28"
abbreviation ERANGE :: int where "ERANGE \<equiv> 34"
abbreviation ENOSYS :: int where "ENOSYS \<equiv> 38"
abbreviation EBADMSG :: int where "EBADMSG \<equiv> 74"
abbreviation EPROTONOSUPPORT :: int where "EPROTONOSUPPORT \<equiv> 93"
abbreviation EOPNOTSUPP :: int where "EOPNOTSUPP \<equiv> 95"

definition MNL_CB_ERROR :: int where "MNL_CB_ERROR = - 1"
definition MNL_CB_STOP :: int where "MNL_CB_STOP = 0"
definition MNL_CB_OK :: int where "MNL_CB_OK = 1"

lemmas cb_codes = MNL_CB_ERROR_def MNL_CB_STOP_def MNL_CB_OK_def

abbreviation NLMSG_NOOP :: u16 where "NLMSG_NOOP \<equiv> 1"
abbreviation NLMSG_ERROR :: u16 where "NLMSG_ERROR \<equiv> 2"
abbreviation NLMSG_DONE :: u16 where "NLMSG_DONE \<equiv> 3"
abbreviation NLMSG_OVERRUN :: u16 where "NLMSG_OVERRUN \<equiv> 4"
abbreviation NLMSG_MIN_TYPE :: u16 where "NLMSG_MIN_TYPE \<equiv> 0x10"
abbreviation NLM_F_REQUEST :: u16 where "NLM_F_REQUEST \<equiv> 1"
abbreviation NLM_F_MULTI :: u16 where "NLM_F_MULTI \<equiv> 2"
abbreviation NLM_F_ACK :: u16 where "NLM_F_ACK \<equiv> 4"
abbreviation NLM_F_DUMP_INTR :: u16 where "NLM_F_DUMP_INTR \<equiv> 0x10"
abbreviation NLM_F_DUMP :: u16 where "NLM_F_DUMP \<equiv> 0x300"
abbreviation NLA_F_NESTED :: u16 where "NLA_F_NESTED \<equiv> 0x8000"
abbreviation NLA_TYPE_MASK :: u16 where "NLA_TYPE_MASK \<equiv> 0x3fff"
abbreviation AF_NETLINK :: u16 where "AF_NETLINK \<equiv> 16"
abbreviation GENL_ID_CTRL :: u16 where "GENL_ID_CTRL \<equiv> 0x10"
abbreviation CTRL_CMD_GETFAMILY :: u8 where "CTRL_CMD_GETFAMILY \<equiv> 3"
abbreviation CTRL_ATTR_FAMILY_ID :: u16 where "CTRL_ATTR_FAMILY_ID \<equiv> 1"
abbreviation CTRL_ATTR_FAMILY_NAME :: u16 where "CTRL_ATTR_FAMILY_NAME \<equiv> 2"
abbreviation CTRL_ATTR_VERSION :: u16 where "CTRL_ATTR_VERSION \<equiv> 3"

datatype mnl_attr_data_type = MNL_TYPE_UNSPEC | MNL_TYPE_U8 | MNL_TYPE_U16 | MNL_TYPE_U32 | MNL_TYPE_U64 | MNL_TYPE_STRING
  | MNL_TYPE_FLAG | MNL_TYPE_MSECS | MNL_TYPE_NESTED | MNL_TYPE_NESTED_COMPAT | MNL_TYPE_NUL_STRING | MNL_TYPE_BINARY

definition MNL_ALIGN :: "nat \<Rightarrow> nat" where "MNL_ALIGN len = (len + 3) div 4 * 4"
definition MNL_NLMSG_HDRLEN :: nat where "MNL_NLMSG_HDRLEN = MNL_ALIGN 16"
definition MNL_ATTR_HDRLEN :: nat where "MNL_ATTR_HDRLEN = MNL_ALIGN 4"

definition mnl_ideal_socket_buffer_size :: "nat \<Rightarrow> nat" where
  "mnl_ideal_socket_buffer_size pagesize = (if pagesize > 8192 then 8192 else pagesize)"

definition mnl_nlmsg_size :: "nat \<Rightarrow> nat" where
  "mnl_nlmsg_size len = len + MNL_NLMSG_HDRLEN"

subsection \<open>Messages in memory\<close>

definition nlmsg_len :: "u8 list \<Rightarrow> u32" where "nlmsg_len nlh = load_at 0 4 nlh"
definition nlmsg_type :: "u8 list \<Rightarrow> u16" where "nlmsg_type nlh = load_at 4 2 nlh"
definition nlmsg_flags :: "u8 list \<Rightarrow> u16" where "nlmsg_flags nlh = load_at 6 2 nlh"
definition nlmsg_seq :: "u8 list \<Rightarrow> u32" where "nlmsg_seq nlh = load_at 8 4 nlh"
definition nlmsg_pid :: "u8 list \<Rightarrow> u32" where "nlmsg_pid nlh = load_at 12 4 nlh"

definition mnl_nlmsg_get_payload :: "u8 list \<Rightarrow> u8 list" where
  "mnl_nlmsg_get_payload nlh = drop MNL_NLMSG_HDRLEN nlh"

definition mnl_nlmsg_get_payload_offset :: "u8 list \<Rightarrow> nat \<Rightarrow> u8 list" where
  "mnl_nlmsg_get_payload_offset nlh offset = drop (MNL_NLMSG_HDRLEN + MNL_ALIGN offset) nlh"

definition mnl_nlmsg_ok :: "u8 list \<Rightarrow> int \<Rightarrow> bool" where
  "mnl_nlmsg_ok nlh len = (len \<ge> 16 \<and> nlmsg_len nlh \<ge> 16 \<and> sint (nlmsg_len nlh) \<le> len)"

text \<open>For a length below \<open>2 ^ 31\<close>: the next message and the bytes that remain.\<close>

definition mnl_nlmsg_next :: "u8 list \<Rightarrow> int \<Rightarrow> u8 list \<times> int" where
  "mnl_nlmsg_next nlh len =
     (let n = MNL_ALIGN (unat (nlmsg_len nlh)) in (drop n nlh, len - int n))"

definition mnl_nlmsg_seq_ok :: "u8 list \<Rightarrow> u32 \<Rightarrow> bool" where
  "mnl_nlmsg_seq_ok nlh seq = (if nlmsg_seq nlh \<noteq> 0 \<and> seq \<noteq> 0 then nlmsg_seq nlh = seq else True)"

definition mnl_nlmsg_portid_ok :: "u8 list \<Rightarrow> u32 \<Rightarrow> bool" where
  "mnl_nlmsg_portid_ok nlh portid = (if nlmsg_pid nlh \<noteq> 0 \<and> portid \<noteq> 0 then nlmsg_pid nlh = portid else True)"

subsection \<open>Attributes in memory\<close>

definition nla_len :: "u8 list \<Rightarrow> u16" where "nla_len attr = load_at 0 2 attr"

definition mnl_attr_get_type :: "u8 list \<Rightarrow> u16" where
  "mnl_attr_get_type attr = load_at 2 2 attr AND NLA_TYPE_MASK"

definition mnl_attr_get_payload_len :: "u8 list \<Rightarrow> u16" where
  "mnl_attr_get_payload_len attr = nla_len attr - of_nat MNL_ATTR_HDRLEN"

definition mnl_attr_get_payload :: "u8 list \<Rightarrow> u8 list" where
  "mnl_attr_get_payload attr = drop MNL_ATTR_HDRLEN attr"

definition mnl_attr_ok :: "u8 list \<Rightarrow> int \<Rightarrow> bool" where
  "mnl_attr_ok attr len = (len \<ge> 4 \<and> nla_len attr \<ge> 4 \<and> uint (nla_len attr) \<le> len)"

definition mnl_attr_next :: "u8 list \<Rightarrow> u8 list" where
  "mnl_attr_next attr = drop (MNL_ALIGN (unat (nla_len attr))) attr"

definition mnl_attr_type_valid :: "u8 list \<Rightarrow> u16 \<Rightarrow> int option" where
  "mnl_attr_type_valid attr maxtype = (if mnl_attr_get_type attr > maxtype then Some EOPNOTSUPP else None)"

text \<open>The error, or \<open>None\<close> for an attribute that is accepted.\<close>

definition mnl_attr_validate_len :: "u8 list \<Rightarrow> mnl_attr_data_type \<Rightarrow> nat \<Rightarrow> int option" where
  "mnl_attr_validate_len attr type exp_len =
     (let attr_len = unat (mnl_attr_get_payload_len attr); attr_data = mnl_attr_get_payload attr;
          bad = (case type of
                   MNL_TYPE_FLAG \<Rightarrow> if attr_len > 0 then Some ERANGE else None
                 | MNL_TYPE_NUL_STRING \<Rightarrow>
                     if attr_len = 0 then Some ERANGE
                     else if attr_data ! (attr_len - 1) \<noteq> 0 then Some EINVAL
                     else None
                 | MNL_TYPE_STRING \<Rightarrow> if attr_len = 0 then Some ERANGE else None
                 | MNL_TYPE_NESTED \<Rightarrow>
                     if attr_len = 0 then None
                     else if attr_len < MNL_ATTR_HDRLEN then Some ERANGE
                     else None
                 | _ \<Rightarrow> None)
      in if attr_len < exp_len then Some ERANGE
         else if bad \<noteq> None then bad
         else if exp_len \<noteq> 0 \<and> attr_len > exp_len then Some ERANGE
         else None)"

fun mnl_attr_data_type_len :: "mnl_attr_data_type \<Rightarrow> nat" where
  "mnl_attr_data_type_len MNL_TYPE_U8 = 1"
| "mnl_attr_data_type_len MNL_TYPE_U16 = 2"
| "mnl_attr_data_type_len MNL_TYPE_U32 = 4"
| "mnl_attr_data_type_len MNL_TYPE_U64 = 8"
| "mnl_attr_data_type_len MNL_TYPE_MSECS = 8"
| "mnl_attr_data_type_len _ = 0"

definition mnl_attr_validate :: "u8 list \<Rightarrow> mnl_attr_data_type \<Rightarrow> int option" where
  "mnl_attr_validate attr type = mnl_attr_validate_len attr type (mnl_attr_data_type_len type)"

definition mnl_attr_get_u8 :: "u8 list \<Rightarrow> u8" where "mnl_attr_get_u8 attr = load_at 0 1 (mnl_attr_get_payload attr)"
definition mnl_attr_get_u16 :: "u8 list \<Rightarrow> u16" where "mnl_attr_get_u16 attr = load_at 0 2 (mnl_attr_get_payload attr)"
definition mnl_attr_get_u32 :: "u8 list \<Rightarrow> u32" where "mnl_attr_get_u32 attr = load_at 0 4 (mnl_attr_get_payload attr)"
definition mnl_attr_get_u64 :: "u8 list \<Rightarrow> u64" where "mnl_attr_get_u64 attr = load_at 0 8 (mnl_attr_get_payload attr)"

definition mnl_attr_get_str :: "u8 list \<Rightarrow> u8 list" where
  "mnl_attr_get_str attr = mnl_attr_get_payload attr"

subsection \<open>Loops over attributes\<close>

type_synonym 'd cb_state = "int \<times> 'd"
type_synonym 'd cb = "u8 list \<Rightarrow> 'd cb_state \<Rightarrow> (int \<times> 'd cb_state) option"

text \<open>The loop of both macros: \<open>rest\<close> is the distance from the attribute to the end of the enclosing payload.\<close>

function mnl_attr_for_each :: "'d cb \<Rightarrow> u8 list \<Rightarrow> int \<Rightarrow> int \<Rightarrow> 'd cb_state \<Rightarrow> (int \<times> 'd cb_state) option" where
  "mnl_attr_for_each cb attr rest ret s =
     (if to_int rest < 4 then Some (ret, s)
      else if length attr < 4 then None
      else if \<not> mnl_attr_ok attr (to_int rest) then Some (ret, s)
      else if length attr < unat (nla_len attr) then None
      else case cb attr s of
          None \<Rightarrow> None
        | Some (ret, s) \<Rightarrow>
            if ret \<le> MNL_CB_STOP then Some (ret, s)
            else mnl_attr_for_each cb (mnl_attr_next attr) (rest - int (MNL_ALIGN (unat (nla_len attr)))) ret s)"
  by pat_completeness auto
termination
  by (relation "measure (\<lambda>(cb, attr, rest, ret, s). length attr)")
    (auto simp: mnl_attr_next_def mnl_attr_ok_def MNL_ALIGN_def word_le_nat_alt)

declare mnl_attr_for_each.simps [simp del]

definition mnl_attr_parse :: "u8 list \<Rightarrow> nat \<Rightarrow> 'd cb \<Rightarrow> 'd cb_state \<Rightarrow> (int \<times> 'd cb_state) option" where
  "mnl_attr_parse nlh offset cb s =
     mnl_attr_for_each cb (mnl_nlmsg_get_payload_offset nlh offset)
       (int (MNL_ALIGN (unat (nlmsg_len nlh))) - int (MNL_NLMSG_HDRLEN + MNL_ALIGN offset)) MNL_CB_OK s"

definition mnl_attr_parse_nested :: "u8 list \<Rightarrow> 'd cb \<Rightarrow> 'd cb_state \<Rightarrow> (int \<times> 'd cb_state) option" where
  "mnl_attr_parse_nested nested cb s =
     mnl_attr_for_each cb (mnl_attr_get_payload nested) (uint (mnl_attr_get_payload_len nested)) MNL_CB_OK s"

subsection \<open>Messages under construction\<close>

record nlmsg =
  nlmsg_type_field :: u16
  nlmsg_flags_field :: u16
  nlmsg_seq_field :: u32
  nlmsg_pid_field :: u32
  nlmsg_body :: "u8 list"

definition nlmsg_len_of :: "nlmsg \<Rightarrow> nat" where
  "nlmsg_len_of m = MNL_NLMSG_HDRLEN + length (nlmsg_body m)"

text \<open>The bytes of a message, as they are sent.\<close>

definition nlmsg_bytes :: "nlmsg \<Rightarrow> u8 list" where
  "nlmsg_bytes m =
     store 4 (of_nat (nlmsg_len_of m) :: u32) @ store 2 (nlmsg_type_field m) @ store 2 (nlmsg_flags_field m) @
     store 4 (nlmsg_seq_field m) @ store 4 (nlmsg_pid_field m) @ nlmsg_body m"

definition mnl_nlmsg_put_header :: nlmsg where
  "mnl_nlmsg_put_header =
     \<lparr>nlmsg_type_field = 0, nlmsg_flags_field = 0, nlmsg_seq_field = 0, nlmsg_pid_field = 0, nlmsg_body = []\<rparr>"

text \<open>The zero bytes of an extra header; the callers then fill in its first bytes.\<close>

definition mnl_nlmsg_put_extra_header :: "nlmsg \<Rightarrow> nat \<Rightarrow> u8 list \<Rightarrow> nlmsg" where
  "mnl_nlmsg_put_extra_header m sz fs =
     m\<lparr>nlmsg_body := nlmsg_body m @ fs @ replicate (MNL_ALIGN sz - length fs) 0\<rparr>"

text \<open>The length of the attribute is stored in 16 bits, and the length of the message grows by what was stored.\<close>

definition mnl_attr_put :: "nlmsg \<Rightarrow> u16 \<Rightarrow> u8 list \<Rightarrow> nlmsg" where
  "mnl_attr_put m type data =
     (let len = length data; payload_len = of_nat (MNL_ALIGN 4 + len) :: u16;
          written = store 2 payload_len @ store 2 type @ data @ replicate (MNL_ALIGN len - len) 0
      in m\<lparr>nlmsg_body := nlmsg_body m @ take (MNL_ALIGN (unat payload_len)) written\<rparr>)"

definition mnl_attr_put_u16 :: "nlmsg \<Rightarrow> u16 \<Rightarrow> u16 \<Rightarrow> nlmsg" where
  "mnl_attr_put_u16 m type data = mnl_attr_put m type (store 2 data)"

definition mnl_attr_put_u32 :: "nlmsg \<Rightarrow> u16 \<Rightarrow> u32 \<Rightarrow> nlmsg" where
  "mnl_attr_put_u32 m type data = mnl_attr_put m type (store 4 data)"

definition mnl_attr_put_strz :: "nlmsg \<Rightarrow> u16 \<Rightarrow> string \<Rightarrow> nlmsg" where
  "mnl_attr_put_strz m type data = mnl_attr_put m type (map u8_of_char data @ [0])"

text \<open>A nest is the position of its header in the body; its length is written when it ends, and no message is sent before.\<close>

definition mnl_attr_nest_start :: "nlmsg \<Rightarrow> u16 \<Rightarrow> nlmsg \<times> nat" where
  "mnl_attr_nest_start m type =
     (m\<lparr>nlmsg_body := nlmsg_body m @ store 2 (0 :: u16) @ store 2 (NLA_F_NESTED OR type)\<rparr>, length (nlmsg_body m))"

text \<open>The checked operations: \<open>None\<close> when the buffer is too small.\<close>

definition mnl_attr_put_check :: "nlmsg \<Rightarrow> nat \<Rightarrow> u16 \<Rightarrow> u8 list \<Rightarrow> nlmsg option" where
  "mnl_attr_put_check m buflen type data =
     (if nlmsg_len_of m + MNL_ATTR_HDRLEN + MNL_ALIGN (length data) > buflen then None else Some (mnl_attr_put m type data))"

definition mnl_attr_put_u8_check :: "nlmsg \<Rightarrow> nat \<Rightarrow> u16 \<Rightarrow> u8 \<Rightarrow> nlmsg option" where
  "mnl_attr_put_u8_check m buflen type data = mnl_attr_put_check m buflen type (store 1 data)"

definition mnl_attr_put_u16_check :: "nlmsg \<Rightarrow> nat \<Rightarrow> u16 \<Rightarrow> u16 \<Rightarrow> nlmsg option" where
  "mnl_attr_put_u16_check m buflen type data = mnl_attr_put_check m buflen type (store 2 data)"

definition mnl_attr_put_u32_check :: "nlmsg \<Rightarrow> nat \<Rightarrow> u16 \<Rightarrow> u32 \<Rightarrow> nlmsg option" where
  "mnl_attr_put_u32_check m buflen type data = mnl_attr_put_check m buflen type (store 4 data)"

definition mnl_attr_nest_start_check :: "nlmsg \<Rightarrow> nat \<Rightarrow> u16 \<Rightarrow> (nlmsg \<times> nat) option" where
  "mnl_attr_nest_start_check m buflen type =
     (if nlmsg_len_of m + MNL_ATTR_HDRLEN > buflen then None else Some (mnl_attr_nest_start m type))"

definition mnl_attr_nest_end :: "nlmsg \<Rightarrow> nat \<Rightarrow> nlmsg" where
  "mnl_attr_nest_end m start =
     m\<lparr>nlmsg_body := take start (nlmsg_body m) @ store 2 (of_nat (length (nlmsg_body m) - start) :: u16) @ drop (start + 2) (nlmsg_body m)\<rparr>"

definition mnl_attr_nest_cancel :: "nlmsg \<Rightarrow> nat \<Rightarrow> nlmsg" where
  "mnl_attr_nest_cancel m start = m\<lparr>nlmsg_body := take start (nlmsg_body m)\<rparr>"

subsection \<open>Messages of a datagram\<close>

definition mnl_cb_noop :: "'d cb" where
  "mnl_cb_noop nlh s = Some (MNL_CB_OK, s)"

definition mnl_cb_error :: "'d cb" where
  "mnl_cb_error nlh s =
     (if unat (nlmsg_len nlh) < mnl_nlmsg_size 20 then Some (MNL_CB_ERROR, EBADMSG, snd s)
      else let err = sint (load_at 0 4 (mnl_nlmsg_get_payload nlh) :: cint)
           in Some (if err = 0 then MNL_CB_STOP else MNL_CB_ERROR, if err < 0 then - err else err, snd s))"

definition mnl_cb_stop :: "'d cb" where
  "mnl_cb_stop nlh s = Some (MNL_CB_STOP, s)"

text \<open>A table of callbacks for control messages: the callback of a type, if the table has one.\<close>

definition default_cb_array :: "u16 \<Rightarrow> 'd cb option" where
  "default_cb_array type =
     (if type = NLMSG_NOOP then Some mnl_cb_noop
      else if type = NLMSG_ERROR then Some mnl_cb_error
      else if type = NLMSG_DONE then Some mnl_cb_stop
      else if type = NLMSG_OVERRUN then Some mnl_cb_noop
      else None)"

text \<open>The callback of a message, if any: \<open>cb_data\<close> for the types of a family, then the table of length \<open>n\<close>, then the default one.\<close>

definition message_cb :: "'d cb option \<Rightarrow> (u16 \<Rightarrow> 'd cb option) \<Rightarrow> u16 \<Rightarrow> u16 \<Rightarrow> 'd cb option" where
  "message_cb cb_data cb_ctl_array n type =
     (if type \<ge> NLMSG_MIN_TYPE then cb_data
      else if type < n then cb_ctl_array type
      else default_cb_array type)"

function mnl_cb_loop ::
  "u32 \<Rightarrow> u32 \<Rightarrow> (u16 \<Rightarrow> 'd cb option) \<Rightarrow> u8 list \<Rightarrow> int \<Rightarrow> int \<Rightarrow> 'd cb_state \<Rightarrow> (int \<times> 'd cb_state) option" where
  "mnl_cb_loop seq portid cbs nlh len ret s =
     (if len < 16 then Some (ret, s)
      else if length nlh < 16 then None
      else if \<not> mnl_nlmsg_ok nlh len then Some (ret, s)
      else if sint (nlmsg_len nlh) < 0 \<or> length nlh < unat (nlmsg_len nlh) then None
      else if \<not> mnl_nlmsg_portid_ok nlh portid then Some (- 1, ESRCH, snd s)
      else if \<not> mnl_nlmsg_seq_ok nlh seq then Some (- 1, EPROTO, snd s)
      else if nlmsg_flags nlh AND NLM_F_DUMP_INTR \<noteq> 0 then Some (- 1, EINTR, snd s)
      else case (case cbs (nlmsg_type nlh) of None \<Rightarrow> Some (ret, s) | Some cb \<Rightarrow> cb nlh s) of
          None \<Rightarrow> None
        | Some (ret, s) \<Rightarrow>
            if ret \<le> MNL_CB_STOP then Some (ret, s)
            else let (nlh, len) = mnl_nlmsg_next nlh len in mnl_cb_loop seq portid cbs nlh len ret s)"
  by pat_completeness auto
termination
  by (relation "measure (\<lambda>(seq, portid, cbs, nlh, len, ret, s). length nlh)")
    (auto simp: mnl_nlmsg_next_def mnl_nlmsg_ok_def MNL_ALIGN_def word_le_nat_alt Let_def)

declare mnl_cb_loop.simps [simp del]

definition mnl_cb_run2 ::
  "u8 list \<Rightarrow> nat \<Rightarrow> u32 \<Rightarrow> u32 \<Rightarrow> 'd cb option \<Rightarrow> 'd cb_state \<Rightarrow> (u16 \<Rightarrow> 'd cb option) \<Rightarrow> u16 \<Rightarrow> (int \<times> 'd cb_state) option" where
  "mnl_cb_run2 buf numbytes seq portid cb_data s cb_ctl_array n =
     mnl_cb_loop seq portid (message_cb cb_data cb_ctl_array n) buf (int numbytes) MNL_CB_OK s"

definition mnl_cb_run :: "u8 list \<Rightarrow> nat \<Rightarrow> u32 \<Rightarrow> u32 \<Rightarrow> 'd cb option \<Rightarrow> 'd cb_state \<Rightarrow> (int \<times> 'd cb_state) option" where
  "mnl_cb_run buf numbytes seq portid cb_data s = mnl_cb_run2 buf numbytes seq portid cb_data s (\<lambda>_. None) 0"

subsection \<open>Sockets\<close>

text \<open>What \<open>recvmsg\<close> does: an error, or the buffer afterwards with the number of bytes received, whether the datagram was longer,
  and whether the address of the sender has its length.\<close>

datatype recvmsg_result = Recv_error int | Recv (recv_buf: "u8 list") (recv_len: nat) (recv_trunc: bool) (recv_name_ok: bool)

text \<open>The kernel side of a socket. \<open>nl_send\<close> gives, for the messages sent so far, the error of the last \<open>sendto\<close> or what the calls of
  \<open>recvmsg\<close> after it return; when they are used up, the next call waits forever. \<open>nl_now\<close> is the time at each message.
  \<open>nl_name\<close> is what \<open>getsockname\<close> stores: the length of the address, its family and the port. \<open>nl_garbage\<close> is what the
  allocated memory holds at the version.\<close>

record netlink =
  nl_pagesize :: nat
  nl_socket_err :: "int option"
  nl_bind_err :: "int option"
  nl_name :: "int + nat \<times> u16 \<times> u32"
  nl_now :: "nat \<Rightarrow> u32"
  nl_send :: "u8 list list \<Rightarrow> int + recvmsg_result list"
  nl_garbage :: u8

definition mnl_socket_open :: "netlink \<Rightarrow> int option" where
  "mnl_socket_open nl = nl_socket_err nl"

text \<open>The port of the socket.\<close>

definition mnl_socket_bind :: "netlink \<Rightarrow> int + u32" where
  "mnl_socket_bind nl =
     (case nl_bind_err nl of
        Some e \<Rightarrow> Inl e
      | None \<Rightarrow>
          (case nl_name nl of
             Inl e \<Rightarrow> Inl e
           | Inr (addr_len, fam, pid) \<Rightarrow> if addr_len \<noteq> 12 then Inl EINVAL else if fam \<noteq> AF_NETLINK then Inl EINVAL else Inr pid))"

definition mnl_socket_sendto :: "netlink \<Rightarrow> u8 list list \<Rightarrow> nlmsg \<Rightarrow> int + recvmsg_result list" where
  "mnl_socket_sendto nl sent m = nl_send nl (sent @ [nlmsg_bytes m])"

definition mnl_socket_recvfrom :: "recvmsg_result \<Rightarrow> int + u8 list \<times> nat" where
  "mnl_socket_recvfrom r =
     (case r of
        Recv_error e \<Rightarrow> Inl e
      | Recv buf n trunc addr_ok \<Rightarrow> if trunc then Inl ENOSPC else if \<not> addr_ok then Inl EINVAL else Inr (buf, n))"

subsection \<open>Generic netlink\<close>

text \<open>With the messages sent so far, of which the C structure keeps nothing.\<close>

record mnlg_socket =
  nlg_id :: u16
  nlg_version :: u8
  nlg_seq :: u32
  nlg_portid :: u32
  nlg_sent :: "u8 list list"

definition mnlg_msg_prepare_id :: "u32 \<Rightarrow> u8 \<Rightarrow> u16 \<Rightarrow> u16 \<Rightarrow> u8 \<Rightarrow> nlmsg" where
  "mnlg_msg_prepare_id now cmd fl ident version =
     mnl_nlmsg_put_extra_header
       (mnl_nlmsg_put_header\<lparr>nlmsg_type_field := ident, nlmsg_flags_field := fl, nlmsg_seq_field := now\<rparr>) 4 [cmd, version]"

definition mnlg_msg_prepare :: "mnlg_socket \<Rightarrow> u32 \<Rightarrow> u8 \<Rightarrow> u16 \<Rightarrow> mnlg_socket \<times> nlmsg" where
  "mnlg_msg_prepare nlg now cmd fl =
     (nlg\<lparr>nlg_seq := now\<rparr>, mnlg_msg_prepare_id now cmd fl (nlg_id nlg) (nlg_version nlg))"

definition mnlg_socket_send :: "netlink \<Rightarrow> mnlg_socket \<Rightarrow> nlmsg \<Rightarrow> (int + recvmsg_result list) \<times> mnlg_socket" where
  "mnlg_socket_send nl nlg m = (mnl_socket_sendto nl (nlg_sent nlg) m, nlg\<lparr>nlg_sent := nlg_sent nlg @ [nlmsg_bytes m]\<rparr>)"

definition mnlg_cb_stop :: "'d cb" where
  "mnlg_cb_stop nlh s =
     (if nlmsg_flags nlh AND NLM_F_MULTI \<noteq> 0 \<and> unat (nlmsg_len nlh) = mnl_nlmsg_size 4
      then let err = sint (load_at 0 4 (mnl_nlmsg_get_payload nlh) :: cint)
           in Some (if err = 0 then MNL_CB_STOP else MNL_CB_ERROR, if err < 0 then - err else err, snd s)
      else Some (MNL_CB_STOP, s))"

text \<open>\<open>mnlg_cb_noop\<close> and \<open>mnlg_cb_error\<close> are the callbacks of the default table once more.\<close>

definition mnlg_cb_array :: "u16 \<Rightarrow> 'd cb option" where
  "mnlg_cb_array type =
     (if type = NLMSG_NOOP then Some mnl_cb_noop
      else if type = NLMSG_ERROR then Some mnl_cb_error
      else if type = NLMSG_DONE then Some mnlg_cb_stop
      else if type = NLMSG_OVERRUN then Some mnl_cb_noop
      else None)"

text \<open>The code and the state; \<open>None\<close> also when the socket waits forever.\<close>

fun mnlg_socket_recv_run ::
  "u32 \<Rightarrow> u32 \<Rightarrow> 'd cb option \<Rightarrow> recvmsg_result list \<Rightarrow> 'd cb_state \<Rightarrow> (int \<times> 'd cb_state) option" where
  "mnlg_socket_recv_run seq portid data_cb [] s = None"
| "mnlg_socket_recv_run seq portid data_cb (r # rs) s =
     (case mnl_socket_recvfrom r of
        Inl e \<Rightarrow> Some (- 1, e, snd s)
      | Inr (buf, n) \<Rightarrow>
          if n = 0 then Some (0, s)
          else case mnl_cb_run2 buf n seq portid data_cb s mnlg_cb_array 5 of
              None \<Rightarrow> None
            | Some (err, s) \<Rightarrow> if err > 0 then mnlg_socket_recv_run seq portid data_cb rs s else Some (err, s))"

text \<open>The table of attributes of the family, of which the identifier and the version are used.\<close>

definition get_family_id_attr_cb :: "u16 \<Rightarrow> (u16 \<Rightarrow> u8 list option) cb" where
  "get_family_id_attr_cb ctrl_attr_max attr s =
     (let type = mnl_attr_get_type attr
      in case mnl_attr_type_valid attr ctrl_attr_max of
           Some e \<Rightarrow> Some (MNL_CB_ERROR, e, snd s)
         | None \<Rightarrow>
             (case (if type = CTRL_ATTR_FAMILY_ID then mnl_attr_validate attr MNL_TYPE_U16 else None) of
                Some e \<Rightarrow> Some (MNL_CB_ERROR, e, snd s)
              | None \<Rightarrow> Some (MNL_CB_OK, fst s, (snd s)(type := Some attr))))"

definition get_family_id_cb :: "u16 \<Rightarrow> mnlg_socket cb" where
  "get_family_id_cb ctrl_attr_max nlh s =
     (case mnl_attr_parse nlh 4 (get_family_id_attr_cb ctrl_attr_max) (fst s, \<lambda>_. None) of
        None \<Rightarrow> None
      | Some (_, e, tb) \<Rightarrow>
          (case (tb CTRL_ATTR_FAMILY_ID, tb CTRL_ATTR_VERSION) of
             (Some a, Some v) \<Rightarrow>
               if length v < 8 then None
               else Some (MNL_CB_OK, e, (snd s)\<lparr>nlg_id := mnl_attr_get_u16 a, nlg_version := ucast (mnl_attr_get_u32 v)\<rparr>)
           | _ \<Rightarrow> Some (MNL_CB_ERROR, e, snd s)))"

text \<open>The socket, or the value of \<open>errno\<close>. \<open>ctrl_attr_max\<close> is a constant of the headers of the kernel.\<close>

definition mnlg_socket_open :: "u16 \<Rightarrow> netlink \<Rightarrow> string \<Rightarrow> (int + mnlg_socket) option" where
  "mnlg_socket_open ctrl_attr_max nl family_name =
     (case mnl_socket_open nl of
        Some e \<Rightarrow> Some (Inl e)
      | None \<Rightarrow>
          (case mnl_socket_bind nl of
             Inl e \<Rightarrow> Some (Inl e)
           | Inr portid \<Rightarrow>
               let seq = nl_now nl 0;
                   nlg = \<lparr>nlg_id = 0, nlg_version = nl_garbage nl, nlg_seq = seq, nlg_portid = portid, nlg_sent = []\<rparr>;
                   m = mnlg_msg_prepare_id seq CTRL_CMD_GETFAMILY (NLM_F_REQUEST OR NLM_F_ACK) GENL_ID_CTRL 1;
                   m = mnl_attr_put_strz m CTRL_ATTR_FAMILY_NAME family_name
               in case mnlg_socket_send nl nlg m of
                    (Inl e, nlg) \<Rightarrow> Some (Inl e)
                  | (Inr rs, nlg) \<Rightarrow>
                      (case mnlg_socket_recv_run seq portid (Some (get_family_id_cb ctrl_attr_max)) rs (0, nlg) of
                         None \<Rightarrow> None
                       | Some (err, e, nlg) \<Rightarrow>
                           Some (if err < 0
                                 then Inl (if e = ENOENT then EPROTONOSUPPORT else if e \<noteq> 0 then e else ENOSYS)
                                 else Inr nlg))))"

subsection \<open>Loads and stores\<close>

lemma length_store [simp]: "length (store n w) = n"
  by (induction n w rule: store.induct) simp_all

lemma load_store: "load (store n (w :: 'a::len word)) = take_bit (8 * n) w"
proof (induction n w rule: store.induct)
  case (2 n w)
  show ?case
    by (rule bit_word_eqI) (auto simp: 2 bit_simps not_less)
qed simp

lemma load_at_0 [simp]: "load_at 0 n mem = load (take n mem)"
  by (simp add: load_at_def)

lemma load_at_append: "i = length a \<Longrightarrow> n = length b \<Longrightarrow> load_at i n (a @ b @ c) = load b"
  by (simp add: load_at_def)

lemma load_u16 [simp]: "load (store 2 (w :: u16)) = w" and load_u32 [simp]: "load (store 4 (v :: u32)) = v"
  and load_u64 [simp]: "load (store 8 (x :: u64)) = x" and load_u8 [simp]: "load (store 1 (y :: u8)) = y"
  using load_store [of 2 w] load_store [of 4 v] load_store [of 8 x] load_store [of 1 y]
  by (simp_all add: take_bit_word_eq_self)

lemma to_int_small: "- 2147483648 \<le> n \<Longrightarrow> n < 2147483648 \<Longrightarrow> to_int n = n"
  by (simp add: to_int_def sint_sbintrunc' signed_take_bit_int_eq_self)

lemma MNL_ALIGN_ge: "n \<le> MNL_ALIGN n" and MNL_ALIGN_lt: "MNL_ALIGN n < n + 4" and MNL_ALIGN_dvd [simp]: "4 dvd MNL_ALIGN n"
  and MNL_ALIGN_id: "4 dvd n \<Longrightarrow> MNL_ALIGN n = n"
  by (auto simp: MNL_ALIGN_def elim!: dvdE)

lemma MNL_ALIGN_add: "4 dvd n \<Longrightarrow> MNL_ALIGN (n + k) = n + MNL_ALIGN k"
  unfolding MNL_ALIGN_def by presburger

lemma hdrlens [simp]: "MNL_NLMSG_HDRLEN = 16" "MNL_ATTR_HDRLEN = 4" "MNL_ALIGN 4 = 4"
  by (simp_all add: MNL_NLMSG_HDRLEN_def MNL_ATTR_HDRLEN_def MNL_ALIGN_def)

subsection \<open>Attributes as trees\<close>

text \<open>What the library writes: an attribute with its bytes, or a nest of attributes.\<close>

datatype nlattr = Attr u16 "u8 list" | Nest u16 "nlattr list"

definition attr_bytes :: "u16 \<Rightarrow> u8 list \<Rightarrow> u8 list" where
  "attr_bytes type data =
     store 2 (of_nat (4 + length data) :: u16) @ store 2 type @ data @ replicate (MNL_ALIGN (length data) - length data) 0"

fun enc :: "nlattr \<Rightarrow> u8 list" where
  "enc (Attr t data) = attr_bytes t data"
| "enc (Nest t as) = attr_bytes (NLA_F_NESTED OR t) (concat (map enc as))"

definition encs :: "nlattr list \<Rightarrow> u8 list" where
  "encs as = concat (map enc as)"

lemma encs_simps [simp]: "encs [] = []" "encs (a # as) = enc a @ encs as" "encs (as @ bs) = encs as @ encs bs"
  by (simp_all add: encs_def)

lemma enc_Nest [simp]: "enc (Nest t as) = attr_bytes (NLA_F_NESTED OR t) (encs as)"
  by (simp add: encs_def)

declare enc.simps(2) [simp del]

lemma length_attr_bytes: "length (attr_bytes t data) = 4 + MNL_ALIGN (length data)"
  using MNL_ALIGN_ge [of "length data"] by (simp add: attr_bytes_def)

lemma length_enc: "4 dvd length (enc a)" "4 dvd length (encs as)"
proof -
  show *: "4 dvd length (enc a)" for a
    by (cases a) (simp_all add: length_attr_bytes)
  show "4 dvd length (encs as)"
    by (induction as) (simp_all add: *)
qed

text \<open>An attribute whose length fits in its 16 bits, at the start of a piece of memory.\<close>

lemma attr_header:
  assumes "4 + length data < 65536"
  shows "unat (nla_len (attr_bytes t data @ mem)) = 4 + length data"
    and "mnl_attr_get_type (attr_bytes t data @ mem) = t AND NLA_TYPE_MASK"
    and "unat (mnl_attr_get_payload_len (attr_bytes t data @ mem)) = length data"
    and "mnl_attr_get_payload (attr_bytes t data @ mem) = data @ replicate (MNL_ALIGN (length data) - length data) 0 @ mem"
    and "mnl_attr_next (attr_bytes t data @ mem) = mem"
proof -
  let ?m = "attr_bytes t data @ mem"
  have l: "nla_len ?m = of_nat (4 + length data)"
    unfolding nla_len_def attr_bytes_def by (simp del: of_nat_add)
  show u: "unat (nla_len ?m) = 4 + length data"
    unfolding l using assms by (simp add: unat_of_nat del: of_nat_add)
  show "mnl_attr_get_type ?m = t AND NLA_TYPE_MASK"
    by (simp add: mnl_attr_get_type_def attr_bytes_def load_at_append)
  have "mnl_attr_get_payload_len ?m = of_nat (length data)"
    by (simp add: mnl_attr_get_payload_len_def l)
  then show "unat (mnl_attr_get_payload_len ?m) = length data"
    using assms by (simp add: unat_of_nat)
  show "mnl_attr_get_payload ?m = data @ replicate (MNL_ALIGN (length data) - length data) 0 @ mem"
    by (simp add: mnl_attr_get_payload_def attr_bytes_def)
  have "MNL_ALIGN (unat (nla_len ?m)) = length (attr_bytes t data)"
    by (simp add: u length_attr_bytes MNL_ALIGN_add)
  then show "mnl_attr_next ?m = mem"
    by (simp add: mnl_attr_next_def)
qed

subsection \<open>Reading what was written\<close>

text \<open>The callback accepts an attribute, wherever it lies in memory, and changes its data by \<open>g\<close>.\<close>

definition hears :: "'d cb \<Rightarrow> nlattr \<Rightarrow> ('d \<Rightarrow> 'd) \<Rightarrow> bool" where
  "hears cb a g \<longleftrightarrow> (\<forall>mem e d. \<exists>e'. cb (enc a @ mem) (e, d) = Some (MNL_CB_OK, e', g d))"

lemma enc_attr_bytes:
  obtains t data where "enc a = attr_bytes t data" and "length (enc a) = 4 + MNL_ALIGN (length data)"
  by (cases a) (simp_all add: length_attr_bytes)

lemma for_each_encs:
  assumes "list_all2 (hears cb) as gs" and "length (encs as) < 65536"
  shows "\<exists>e'. mnl_attr_for_each cb (encs as @ mem) (int (length (encs as))) ret (e, d)
     = Some (if as = [] then ret else MNL_CB_OK, e', fold (\<lambda>g. g) gs d)"
  using assms
proof (induction as gs arbitrary: ret e d rule: list_all2_induct)
  case Nil
  show ?case
    by (simp add: mnl_attr_for_each.simps to_int_small)
next
  case (Cons a as g gs)
  let ?m = "enc a @ encs as @ mem"
  obtain t data where a: "enc a = attr_bytes t data" "length (enc a) = 4 + MNL_ALIGN (length data)"
    by (rule enc_attr_bytes)
  have s: "4 + length data < 65536"
    using Cons.prems a(2) MNL_ALIGN_ge [of "length data"] by simp
  note h = attr_header [OF s, of t "encs as @ mem", folded a(1)]
  have u: "uint (nla_len ?m) = 4 + int (length data)" and n: "nla_len ?m \<ge> 4"
    using h(1) by (simp_all add: uint_nat word_le_nat_alt)
  define R where "R = int (length (encs (a # as)))"
  have r: "to_int R = R" "\<not> R < 4"
    using Cons.prems a(2) unfolding R_def by (auto intro: to_int_small)
  obtain e1 where cb: "cb ?m (e, d) = Some (MNL_CB_OK, e1, g d)"
    using Cons.hyps(1) unfolding hears_def by meson
  have next_rest: "R - int (MNL_ALIGN (unat (nla_len ?m))) = int (length (encs as))"
    by (simp add: R_def h(1) a(2) MNL_ALIGN_add)
  have ok: "mnl_attr_ok ?m R"
    using n u a(2) MNL_ALIGN_ge [of "length data"] by (simp add: mnl_attr_ok_def R_def)
  have "\<not> length ?m < 4" "\<not> length ?m < unat (nla_len ?m)"
    using a(2) h(1) MNL_ALIGN_ge [of "length data"] by simp_all
  then have "mnl_attr_for_each cb ?m R ret (e, d)
     = mnl_attr_for_each cb (encs as @ mem) (int (length (encs as))) MNL_CB_OK (e1, g d)"
    by (subst mnl_attr_for_each.simps) (simp only: r ok if_False if_True not_True_eq_False cb h(5) next_rest option.case prod.case cb_codes, simp)
  also obtain e' where "\<dots> = Some (MNL_CB_OK, e', fold (\<lambda>g. g) gs (g d))"
    using Cons.IH [of MNL_CB_OK e1 "g d"] Cons.prems by (auto split: if_splits)
  finally show ?case
    by (auto simp: R_def)
qed

lemma parse_nested_encs:
  assumes "list_all2 (hears cb) as gs" and "length (encs as) < 65532"
  shows "\<exists>e'. mnl_attr_parse_nested (enc (Nest t as) @ mem) cb (e, d) = Some (MNL_CB_OK, e', fold (\<lambda>g. g) gs d)"
proof -
  have s: "4 + length (encs as) < 65536"
    using assms(2) by simp
  note h = attr_header [OF s, of "NLA_F_NESTED OR t" mem]
  have "uint (mnl_attr_get_payload_len (enc (Nest t as) @ mem)) = int (length (encs as))"
    using h(3) by (simp add: uint_nat)
  moreover have "mnl_attr_get_payload (enc (Nest t as) @ mem) = encs as @ mem"
    using h(4) length_enc(2) [of as] by (simp add: MNL_ALIGN_id)
  ultimately show ?thesis
    using for_each_encs [OF assms(1), of mem MNL_CB_OK e d] assms(2) by (auto simp: mnl_attr_parse_nested_def cb_codes)
qed

text \<open>The types in a message have no bits outside the mask.\<close>

lemma attr_type [simp]:
  assumes "length (enc a) < 65536"
  shows "mnl_attr_get_type (enc a @ mem) = (case a of Attr t _ \<Rightarrow> t | Nest t _ \<Rightarrow> t) AND NLA_TYPE_MASK"
proof (cases a)
  case (Attr t data)
  then show ?thesis
    using assms MNL_ALIGN_ge [of "length data"] by (simp add: attr_header(2) length_attr_bytes)
next
  case (Nest t as)
  have "(NLA_F_NESTED OR t) AND NLA_TYPE_MASK = t AND NLA_TYPE_MASK"
    by (simp add: bit.conj_disj_distrib2)
  then show ?thesis
    using Nest assms MNL_ALIGN_ge [of "length (encs as)"] by (simp add: attr_header(2) length_attr_bytes)
qed

subsection \<open>Writing attributes\<close>

definition add :: "nlmsg \<Rightarrow> nlattr list \<Rightarrow> nlmsg" where
  "add m as = m\<lparr>nlmsg_body := nlmsg_body m @ encs as\<rparr>"

lemma add_simps [simp]:
  "add m [] = m" "add (add m as) bs = add m (as @ bs)" "nlmsg_len_of (add m as) = nlmsg_len_of m + length (encs as)"
  "nlmsg_body (add m as) = nlmsg_body m @ encs as"
  by (simp_all add: add_def nlmsg_len_of_def)

lemma mnl_attr_put_add:
  assumes "length data < 65532"
  shows "mnl_attr_put m t data = add m [Attr t data]"
proof -
  have "unat (of_nat (4 + length data) :: u16) = 4 + length data"
    using assms by (simp add: unat_of_nat del: of_nat_add)
  then show ?thesis
    using length_attr_bytes [of t data]
    by (simp add: mnl_attr_put_def add_def Let_def attr_bytes_def MNL_ALIGN_add)
qed

lemma mnl_attr_put_check_add:
  assumes "length data < 65532"
  shows "mnl_attr_put_check m n t data = (if nlmsg_len_of (add m [Attr t data]) > n then None else Some (add m [Attr t data]))"
  using assms by (simp add: mnl_attr_put_check_def mnl_attr_put_add length_attr_bytes)

lemma nest_end_add:
  assumes "mnl_attr_nest_start m t = (m', nest)"
  shows "mnl_attr_nest_end (add m' as) nest = add m [Nest t as]"
    and "mnl_attr_nest_cancel (add m' as) nest = m"
    and "nlmsg_len_of m' = nlmsg_len_of m + 4"
proof -
  have n: "nest = length (nlmsg_body m)" and m': "m' = m\<lparr>nlmsg_body := nlmsg_body m @ store 2 (0 :: u16) @ store 2 (NLA_F_NESTED OR t)\<rparr>"
    using assms by (auto simp: mnl_attr_nest_start_def)
  show "mnl_attr_nest_end (add m' as) nest = add m [Nest t as]"
    using length_enc(2) [of as]
    by (simp add: mnl_attr_nest_end_def n m' add_def attr_bytes_def MNL_ALIGN_id)
  show "mnl_attr_nest_cancel (add m' as) nest = m" "nlmsg_len_of m' = nlmsg_len_of m + 4"
    by (simp_all add: mnl_attr_nest_cancel_def n m' add_def nlmsg_len_of_def)
qed

subsection \<open>Reading any memory\<close>

text \<open>An attribute inside its memory, with \<open>slack\<close> bytes behind it.\<close>

definition inside :: "nat \<Rightarrow> u8 list \<Rightarrow> bool" where
  "inside slack attr \<longleftrightarrow> 4 \<le> unat (nla_len attr) \<and> unat (nla_len attr) + slack \<le> length attr"

text \<open>A callback that reads nothing outside the memory and keeps \<open>P\<close>, for the attributes inside their memory.\<close>

definition safe_cb :: "nat \<Rightarrow> ('d \<Rightarrow> bool) \<Rightarrow> 'd cb \<Rightarrow> bool" where
  "safe_cb slack P cb \<longleftrightarrow>
     (\<forall>attr e d. inside slack attr \<longrightarrow> P d \<longrightarrow> (\<exists>ret e' d'. cb attr (e, d) = Some (ret, e', d') \<and> P d'))"

lemma safe_cbI:
  assumes "\<And>attr e d. inside slack attr \<Longrightarrow> P d \<Longrightarrow> \<exists>ret e' d'. cb attr (e, d) = Some (ret, e', d') \<and> P d'"
  shows "safe_cb slack P cb"
  using assms unfolding safe_cb_def by blast

lemma safe_cbD:
  assumes "safe_cb slack P cb" and "inside slack attr" and "P d"
  obtains ret e' d' where "cb attr (e, d) = Some (ret, e', d')" and "P d'"
  using assms unfolding safe_cb_def by blast

lemma for_each_safe:
  assumes "safe_cb slack P cb" and "P d" and "rest + int slack \<le> int (length attr)" and "rest < 2147483648"
    and "- 2147483648 \<le> rest"
  shows "\<exists>ret' e' d'. mnl_attr_for_each cb attr rest ret (e, d) = Some (ret', e', d') \<and> P d'"
  using assms(2-5)
proof (induction "length attr" arbitrary: attr rest ret e d rule: less_induct)
  case less
  have t: "to_int rest = rest"
    using less.prems by (intro to_int_small) simp_all
  show ?case
  proof (cases "mnl_attr_ok attr rest")
    case True
    then have l: "\<not> rest < 4" "int (unat (nla_len attr)) \<le> rest" "4 \<le> unat (nla_len attr)"
      unfolding mnl_attr_ok_def word_le_nat_alt uint_nat by simp_all
    then have i: "inside slack attr"
      using less.prems(2) unfolding inside_def by linarith
    obtain r1 e1 d1 where cb: "cb attr (e, d) = Some (r1, e1, d1)" "P d1"
      using safe_cbD [OF assms(1) i less.prems(1)] by blast
    let ?n = "MNL_ALIGN (unat (nla_len attr))"
    have n: "4 \<le> ?n" "int ?n < rest + 4"
      using l(2,3) MNL_ALIGN_ge [of "unat (nla_len attr)"] MNL_ALIGN_lt [of "unat (nla_len attr)"] by linarith+
    have "\<exists>ret' e' d'. mnl_attr_for_each cb (mnl_attr_next attr) (rest - int ?n) r1 (e1, d1) = Some (ret', e', d') \<and> P d'"
    proof (rule less.hyps [OF _ cb(2)])
      show "length (mnl_attr_next attr) < length attr"
        using i n unfolding mnl_attr_next_def inside_def length_drop by linarith
      show "rest - int ?n + int slack \<le> int (length (mnl_attr_next attr))"
        using less.prems(2) by (simp add: mnl_attr_next_def)
      show "rest - int ?n < 2147483648" "- 2147483648 \<le> rest - int ?n"
        using less.prems(3) n l(1) by linarith+
    qed
    moreover have "\<not> length attr < 4" "\<not> length attr < unat (nla_len attr)"
      using i by (auto simp: inside_def)
    ultimately show ?thesis
      using l True cb less.prems(1) by (subst mnl_attr_for_each.simps) (simp add: t)
  next
    case False
    then show ?thesis
      using less.prems by (subst mnl_attr_for_each.simps) (auto simp: t)
  qed
qed

lemma nested_safe:
  assumes "safe_cb slack P cb" and "inside slack attr" and "P d"
  shows "\<exists>ret e' d'. mnl_attr_parse_nested attr cb (e, d) = Some (ret, e', d') \<and> P d'"
proof -
  have "unat (mnl_attr_get_payload_len attr) = unat (nla_len attr) - 4"
    using assms(2) by (simp add: mnl_attr_get_payload_len_def inside_def unat_sub word_le_nat_alt)
  then have u: "uint (mnl_attr_get_payload_len attr) = int (unat (nla_len attr) - 4)"
    by (metis uint_nat)
  define k where "k = unat (nla_len attr)"
  have "4 \<le> k" "k + slack \<le> length attr" "k < 65536"
    using assms(2) unsigned_less [of "nla_len attr", where 'a = nat] by (simp_all add: inside_def k_def)
  then show ?thesis
    unfolding mnl_attr_parse_nested_def u k_def [symmetric]
    by (intro for_each_safe [OF assms(1,3)]) (auto simp: mnl_attr_get_payload_def)
qed

text \<open>A length that is negative as an \<open>int\<close>, in the header of a message of the datagram.\<close>

definition huge_header :: "u8 list \<Rightarrow> nat \<Rightarrow> bool" where
  "huge_header buf n \<longleftrightarrow> (\<exists>i. 4 dvd i \<and> i + 16 \<le> n \<and> sint (nlmsg_len (drop i buf)) < 0)"

definition safe_message_cb :: "nat \<Rightarrow> ('d \<Rightarrow> bool) \<Rightarrow> 'd cb \<Rightarrow> bool" where
  "safe_message_cb slack P cb \<longleftrightarrow>
     (\<forall>nlh e d. 16 \<le> nlmsg_len nlh \<longrightarrow> 0 \<le> sint (nlmsg_len nlh) \<longrightarrow> unat (nlmsg_len nlh) + slack \<le> length nlh \<longrightarrow>
        length nlh < 2147483648 \<longrightarrow> P d \<longrightarrow> (\<exists>ret e' d'. cb nlh (e, d) = Some (ret, e', d') \<and> P d'))"

lemma safe_message_cbD:
  assumes "safe_message_cb slack P cb" and "16 \<le> nlmsg_len nlh" and "0 \<le> sint (nlmsg_len nlh)"
    and "unat (nlmsg_len nlh) + slack \<le> length nlh" and "length nlh < 2147483648" and "P d"
  obtains ret e' d' where "cb nlh (e, d) = Some (ret, e', d')" and "P d'"
  using assms unfolding safe_message_cb_def by blast

lemma unat_sint: "0 \<le> sint (w :: u32) \<Longrightarrow> int (unat w) = sint w"
proof -
  assume nonneg: "0 \<le> sint w"
  have "uint w < 2147483648"
  proof (rule ccontr)
    assume "\<not> uint w < 2147483648"
    moreover have "uint w < 4294967296"
      using uint_lt2p [of w] by simp
    ultimately have "(uint w - 2147483648) mod 4294967296 = uint w - 2147483648"
      by (intro mod_pos_pos_trivial) simp_all
    then have "sint w = uint w - 4294967296"
      using int_word_sint [of "uint w", where 'a = 32] minus_mod_self2 [of "uint w + 2147483648" 4294967296] by simp
    then show False
      using nonneg \<open>uint w < 4294967296\<close> by simp
  qed
  then show ?thesis
    using sint_small [of w] by simp
qed

lemma cb_loop_safe:
  assumes "\<And>type cb. cbs type = Some cb \<Longrightarrow> safe_message_cb slack P cb"
    and "P d" and "len + int slack \<le> int (length nlh)" and "length nlh < 2147483648"
    and "\<And>i. 4 dvd i \<Longrightarrow> int i + 16 \<le> len \<Longrightarrow> 0 \<le> sint (nlmsg_len (drop i nlh))"
  shows "\<exists>ret' e' d'. mnl_cb_loop seq portid cbs nlh len ret (e, d) = Some (ret', e', d') \<and> P d'"
  using assms(2-5)
proof (induction "length nlh" arbitrary: nlh len ret e d rule: less_induct)
  case less
  show ?case
  proof (cases "mnl_nlmsg_ok nlh len")
    case True
    then have l: "16 \<le> len" "16 \<le> nlmsg_len nlh" "sint (nlmsg_len nlh) \<le> len"
      by (simp_all add: mnl_nlmsg_ok_def)
    have s: "0 \<le> sint (nlmsg_len nlh)"
      using less.prems(4) [of 0] l(1) by simp
    have u: "int (unat (nlmsg_len nlh)) \<le> len" "16 \<le> unat (nlmsg_len nlh)"
      using l unat_sint [OF s] by (simp_all only: word_le_nat_alt) simp
    let ?n = "MNL_ALIGN (unat (nlmsg_len nlh))" and ?r = "case cbs (nlmsg_type nlh) of None \<Rightarrow> Some (ret, e, d) | Some cb \<Rightarrow> cb nlh (e, d)"
    have n: "16 \<le> ?n" "16 \<le> length nlh" "unat (nlmsg_len nlh) + slack \<le> length nlh"
      using u less.prems(2) MNL_ALIGN_ge [of "unat (nlmsg_len nlh)"] by linarith+
    obtain r1 e1 d1 where cb: "?r = Some (r1, e1, d1)" "P d1"
    proof (cases "cbs (nlmsg_type nlh)")
      case (Some cb)
      obtain r1 e1 d1 where "cb nlh (e, d) = Some (r1, e1, d1)" "P d1"
        by (rule safe_message_cbD [OF assms(1) [OF Some] l(2) s n(3) less.prems(3,1)])
      then show ?thesis
        using Some that by simp
    qed (use less.prems(1) that in simp)
    have "\<exists>ret' e' d'. mnl_cb_loop seq portid cbs (drop ?n nlh) (len - int ?n) r1 (e1, d1) = Some (ret', e', d') \<and> P d'"
    proof (rule less.hyps [OF _ cb(2)])
      show "0 \<le> sint (nlmsg_len (drop i (drop ?n nlh)))" if "4 dvd i" "int i + 16 \<le> len - int ?n" for i
        using less.prems(4) [of "i + ?n"] that by simp
    qed (use n less.prems(2,3) in auto)
    then show ?thesis
      using True n(2,3) s less.prems(1) cb
      by (subst mnl_cb_loop.simps) (simp add: mnl_nlmsg_next_def Let_def)
  next
    case False
    have "length nlh < 16 \<Longrightarrow> len < 16"
      using less.prems(2) by linarith
    then show ?thesis
      using less.prems(1) False by (subst mnl_cb_loop.simps) auto
  qed
qed

lemma control_cbs_safe [simp]:
  "safe_message_cb slack P mnl_cb_noop" "safe_message_cb slack P mnl_cb_error" "safe_message_cb slack P mnl_cb_stop"
  "safe_message_cb slack P mnlg_cb_stop"
  by (simp_all add: safe_message_cb_def mnl_cb_noop_def mnl_cb_error_def mnl_cb_stop_def mnlg_cb_stop_def Let_def)

lemma cb_run2_safe:
  assumes "safe_message_cb slack P cb" and "P d" and "n + slack \<le> length buf" and "length buf < 2147483648" and "\<not> huge_header buf n"
  shows "\<exists>ret e' d'. mnl_cb_run2 buf n seq portid (Some cb) (e, d) mnlg_cb_array 5 = Some (ret, e', d') \<and> P d'"
  unfolding mnl_cb_run2_def
proof (rule cb_loop_safe [where P = P and slack = slack])
  show "safe_message_cb slack P f" if "message_cb (Some cb) mnlg_cb_array 5 type = Some f" for type f
    using that assms(1) by (auto simp: message_cb_def mnlg_cb_array_def default_cb_array_def split: if_splits)
  show "0 \<le> sint (nlmsg_len (drop i buf))" if "4 dvd i" "int i + 16 \<le> int n" for i
    using assms(5) that unfolding huge_header_def by (metis linorder_not_le of_nat_add of_nat_le_iff of_nat_numeral)
qed (use assms in simp_all)

lemma attr_parse_safe:
  assumes "safe_cb slack P cb" and "offset < 65536"
  shows "safe_message_cb (slack + 3) P (\<lambda>nlh. mnl_attr_parse nlh offset cb)"
  unfolding safe_message_cb_def mnl_attr_parse_def
proof (intro allI impI)
  fix nlh :: "u8 list" and e d
  assume a: "unat (nlmsg_len nlh) + (slack + 3) \<le> length nlh" "length nlh < 2147483648" "P d"
  define k where "k = MNL_ALIGN (unat (nlmsg_len nlh))"
  have k: "k + slack \<le> length nlh"
    using a(1) MNL_ALIGN_lt [of "unat (nlmsg_len nlh)"] unfolding k_def by linarith
  have "MNL_ALIGN offset < 65540"
    using assms(2) MNL_ALIGN_lt [of offset] by linarith
  then show "\<exists>ret e' d'. mnl_attr_for_each cb (mnl_nlmsg_get_payload_offset nlh offset)
      (int (MNL_ALIGN (unat (nlmsg_len nlh))) - int (MNL_NLMSG_HDRLEN + MNL_ALIGN offset)) MNL_CB_OK (e, d) = Some (ret, e', d') \<and> P d'"
    unfolding k_def [symmetric]
    by (intro for_each_safe [OF assms(1) a(3)]) (use k a(2) in \<open>auto simp: mnl_nlmsg_get_payload_offset_def\<close>)
qed

subsection \<open>Reading a message that was written\<close>

lemma nlmsg_bytes_header:
  assumes "nlmsg_len_of m < 4294967296"
  shows "nlmsg_len (nlmsg_bytes m @ mem) = of_nat (nlmsg_len_of m)" and "nlmsg_type (nlmsg_bytes m @ mem) = nlmsg_type_field m"
    and "length (nlmsg_bytes m) = nlmsg_len_of m" and "drop 16 (nlmsg_bytes m @ mem) = nlmsg_body m @ mem"
proof -
  show "nlmsg_len (nlmsg_bytes m @ mem) = of_nat (nlmsg_len_of m)"
    by (simp add: nlmsg_len_def nlmsg_bytes_def del: of_nat_add)
  have "nlmsg_type (store 4 a @ store 2 b @ c) = b" for a :: u32 and b :: u16 and c
    by (simp add: nlmsg_type_def load_at_append)
  then show "nlmsg_type (nlmsg_bytes m @ mem) = nlmsg_type_field m"
    by (simp add: nlmsg_bytes_def)
  show "length (nlmsg_bytes m) = nlmsg_len_of m" "drop 16 (nlmsg_bytes m @ mem) = nlmsg_body m @ mem"
    by (simp_all add: nlmsg_bytes_def nlmsg_len_of_def)
qed

lemma attr_parse_encs:
  assumes "nlmsg_body m = g @ encs as" and "length g = MNL_ALIGN offset" and "nlmsg_len_of m < 65536"
    and "list_all2 (hears cb) as gs"
  shows "\<exists>e'. mnl_attr_parse (nlmsg_bytes m @ mem) offset cb (e, d) = Some (MNL_CB_OK, e', fold (\<lambda>g. g) gs d)"
proof -
  have l: "nlmsg_len_of m = 16 + (MNL_ALIGN offset + length (encs as))"
    by (simp add: nlmsg_len_of_def assms(1,2))
  have n: "unat (nlmsg_len (nlmsg_bytes m @ mem)) = nlmsg_len_of m"
    using nlmsg_bytes_header(1) [of m mem] assms(3) by (simp add: unat_of_nat)
  have "MNL_ALIGN (nlmsg_len_of m) = nlmsg_len_of m"
    unfolding l using length_enc(2) [of as] by (intro MNL_ALIGN_id) simp
  then have r: "int (MNL_ALIGN (unat (nlmsg_len (nlmsg_bytes m @ mem)))) - int (MNL_NLMSG_HDRLEN + MNL_ALIGN offset) = int (length (encs as))"
    by (simp add: n l)
  have p: "mnl_nlmsg_get_payload_offset (nlmsg_bytes m @ mem) offset = encs as @ mem"
  proof -
    have "mnl_nlmsg_get_payload_offset xs offset = drop (MNL_ALIGN offset) (drop 16 xs)" for xs
      by (simp add: mnl_nlmsg_get_payload_offset_def add.commute)
    moreover have "drop 16 (nlmsg_bytes m @ mem) = nlmsg_body m @ mem"
      using assms(3) by (intro nlmsg_bytes_header(4)) simp
    ultimately show ?thesis
      by (simp only: assms(1,2) append_assoc) (simp add: assms(2) [symmetric])
  qed
  have "length (encs as) < 65536"
    using assms(3) l by simp
  then show ?thesis
    unfolding mnl_attr_parse_def p r using for_each_encs [OF assms(4), of mem MNL_CB_OK e d] by (auto simp: cb_codes)
qed

end
