(* ===== verification/Ipc_Linux.thy ===== *)
theory Ipc_Linux
  imports Netlink
begin

unbundle bit_operations_syntax

text \<open>
  The kernel interface, \<open>src/ipc-linux.h\<close> under \<open>src/tunnel/tools/amneziawg-tools\<close>, with the attributes of
  \<open>src/uapi/linux/linux/wireguard.h\<close>: the list of interfaces, the messages that configure an interface, cut where the buffer ends, and
  the reading of an interface from the messages of the kernel. The kernel is the record \<open>netlink\<close>.

  The result \<open>None\<close> is a read or write outside of a buffer, a null pointer that is followed, or a call that never returns. Allocation
  does not fail.
\<close>

subsection \<open>Attributes\<close>

definition WG_GENL_NAME :: string where "WG_GENL_NAME = ''amneziawg''"

abbreviation WG_CMD_GET_DEVICE :: u8 where "WG_CMD_GET_DEVICE \<equiv> 0"
abbreviation WG_CMD_SET_DEVICE :: u8 where "WG_CMD_SET_DEVICE \<equiv> 1"
abbreviation WGDEVICE_F_REPLACE_PEERS :: u32 where "WGDEVICE_F_REPLACE_PEERS \<equiv> 1"
abbreviation WGDEVICE_A_IFINDEX :: u16 where "WGDEVICE_A_IFINDEX \<equiv> 1"
abbreviation WGDEVICE_A_IFNAME :: u16 where "WGDEVICE_A_IFNAME \<equiv> 2"
abbreviation WGDEVICE_A_PRIVATE_KEY :: u16 where "WGDEVICE_A_PRIVATE_KEY \<equiv> 3"
abbreviation WGDEVICE_A_PUBLIC_KEY :: u16 where "WGDEVICE_A_PUBLIC_KEY \<equiv> 4"
abbreviation WGDEVICE_A_FLAGS :: u16 where "WGDEVICE_A_FLAGS \<equiv> 5"
abbreviation WGDEVICE_A_LISTEN_PORT :: u16 where "WGDEVICE_A_LISTEN_PORT \<equiv> 6"
abbreviation WGDEVICE_A_FWMARK :: u16 where "WGDEVICE_A_FWMARK \<equiv> 7"
abbreviation WGDEVICE_A_PEERS :: u16 where "WGDEVICE_A_PEERS \<equiv> 8"
abbreviation WGDEVICE_A_JC :: u16 where "WGDEVICE_A_JC \<equiv> 9"
abbreviation WGDEVICE_A_JMIN :: u16 where "WGDEVICE_A_JMIN \<equiv> 10"
abbreviation WGDEVICE_A_JMAX :: u16 where "WGDEVICE_A_JMAX \<equiv> 11"
abbreviation WGDEVICE_A_S1 :: u16 where "WGDEVICE_A_S1 \<equiv> 12"
abbreviation WGDEVICE_A_S2 :: u16 where "WGDEVICE_A_S2 \<equiv> 13"
abbreviation WGDEVICE_A_H1 :: u16 where "WGDEVICE_A_H1 \<equiv> 14"
abbreviation WGDEVICE_A_H2 :: u16 where "WGDEVICE_A_H2 \<equiv> 15"
abbreviation WGDEVICE_A_H3 :: u16 where "WGDEVICE_A_H3 \<equiv> 16"
abbreviation WGDEVICE_A_H4 :: u16 where "WGDEVICE_A_H4 \<equiv> 17"
abbreviation WGDEVICE_A_S3 :: u16 where "WGDEVICE_A_S3 \<equiv> 19"
abbreviation WGDEVICE_A_S4 :: u16 where "WGDEVICE_A_S4 \<equiv> 20"
abbreviation WGDEVICE_A_I1 :: u16 where "WGDEVICE_A_I1 \<equiv> 21"
abbreviation WGDEVICE_A_I2 :: u16 where "WGDEVICE_A_I2 \<equiv> 22"
abbreviation WGDEVICE_A_I3 :: u16 where "WGDEVICE_A_I3 \<equiv> 23"
abbreviation WGDEVICE_A_I4 :: u16 where "WGDEVICE_A_I4 \<equiv> 24"
abbreviation WGDEVICE_A_I5 :: u16 where "WGDEVICE_A_I5 \<equiv> 25"
abbreviation WGPEER_F_REMOVE_ME :: u32 where "WGPEER_F_REMOVE_ME \<equiv> 1"
abbreviation WGPEER_F_REPLACE_ALLOWEDIPS :: u32 where "WGPEER_F_REPLACE_ALLOWEDIPS \<equiv> 2"
abbreviation WGPEER_F_HAS_AWG :: u32 where "WGPEER_F_HAS_AWG \<equiv> 8"
abbreviation WGPEER_A_PUBLIC_KEY :: u16 where "WGPEER_A_PUBLIC_KEY \<equiv> 1"
abbreviation WGPEER_A_PRESHARED_KEY :: u16 where "WGPEER_A_PRESHARED_KEY \<equiv> 2"
abbreviation WGPEER_A_FLAGS :: u16 where "WGPEER_A_FLAGS \<equiv> 3"
abbreviation WGPEER_A_ENDPOINT :: u16 where "WGPEER_A_ENDPOINT \<equiv> 4"
abbreviation WGPEER_A_PERSISTENT_KEEPALIVE_INTERVAL :: u16 where "WGPEER_A_PERSISTENT_KEEPALIVE_INTERVAL \<equiv> 5"
abbreviation WGPEER_A_LAST_HANDSHAKE_TIME :: u16 where "WGPEER_A_LAST_HANDSHAKE_TIME \<equiv> 6"
abbreviation WGPEER_A_RX_BYTES :: u16 where "WGPEER_A_RX_BYTES \<equiv> 7"
abbreviation WGPEER_A_TX_BYTES :: u16 where "WGPEER_A_TX_BYTES \<equiv> 8"
abbreviation WGPEER_A_ALLOWEDIPS :: u16 where "WGPEER_A_ALLOWEDIPS \<equiv> 9"
abbreviation WGPEER_A_AWG :: u16 where "WGPEER_A_AWG \<equiv> 11"
abbreviation WGALLOWEDIP_A_FAMILY :: u16 where "WGALLOWEDIP_A_FAMILY \<equiv> 1"
abbreviation WGALLOWEDIP_A_IPADDR :: u16 where "WGALLOWEDIP_A_IPADDR \<equiv> 2"
abbreviation WGALLOWEDIP_A_CIDR_MASK :: u16 where "WGALLOWEDIP_A_CIDR_MASK \<equiv> 3"
abbreviation IFLA_IFNAME :: u16 where "IFLA_IFNAME \<equiv> 3"
abbreviation IFLA_LINKINFO :: u16 where "IFLA_LINKINFO \<equiv> 18"
abbreviation IFLA_INFO_KIND :: u16 where "IFLA_INFO_KIND \<equiv> 1"
abbreviation RTM_GETLINK :: u16 where "RTM_GETLINK \<equiv> 18"
abbreviation ENAMETOOLONG :: int where "ENAMETOOLONG \<equiv> 36"

text \<open>The structures \<open>sockaddr_in\<close> and \<open>sockaddr_in6\<close> in memory; the port is in network byte order.\<close>

fun sockaddr_bytes :: "sockaddr \<Rightarrow> u8 list" where
  "sockaddr_bytes SA_UNSPEC = []"
| "sockaddr_bytes (SA_IN a p) = store 2 AF_INET @ rev (store 2 p) @ a @ replicate 8 0"
| "sockaddr_bytes (SA_IN6 a p f s) = store 2 AF_INET6 @ rev (store 2 p) @ store 4 f @ a @ store 4 s"

definition load_sockaddr_in :: "u8 list \<Rightarrow> sockaddr" where
  "load_sockaddr_in mem = SA_IN (take 4 (drop 4 mem)) (load (rev (take 2 (drop 2 mem))))"

definition load_sockaddr_in6 :: "u8 list \<Rightarrow> sockaddr" where
  "load_sockaddr_in6 mem =
     SA_IN6 (take 16 (drop 8 mem)) (load (rev (take 2 (drop 2 mem)))) (load_at 4 4 mem) (load_at 24 4 mem)"

subsection \<open>The list of interfaces\<close>

record interface =
  if_name :: "u8 list option"
  is_wireguard :: bool

definition parse_linkinfo :: "interface cb" where
  "parse_linkinfo attr s =
     (if mnl_attr_get_type attr = IFLA_INFO_KIND
      then case c_str (mnl_attr_get_str attr) of
             None \<Rightarrow> None
           | Some kind \<Rightarrow> Some (MNL_CB_OK, fst s, if kind = WG_GENL_NAME then (snd s)\<lparr>is_wireguard := True\<rparr> else snd s)
      else Some (MNL_CB_OK, s))"

definition parse_infomsg :: "interface cb" where
  "parse_infomsg attr s =
     (if mnl_attr_get_type attr = IFLA_LINKINFO then mnl_attr_parse_nested attr parse_linkinfo s
      else if mnl_attr_get_type attr = IFLA_IFNAME
      then Some (MNL_CB_OK, fst s, (snd s)\<lparr>if_name := Some (mnl_attr_get_str attr)\<rparr>)
      else Some (MNL_CB_OK, s))"

definition read_devices_cb :: "string_list cb" where
  "read_devices_cb nlh s =
     (case mnl_attr_parse nlh 16 parse_infomsg (fst s, \<lparr>if_name = None, is_wireguard = False\<rparr>) of
        None \<Rightarrow> None
      | Some (ret, e, i) \<Rightarrow>
          if ret \<noteq> MNL_CB_OK then Some (ret, e, snd s)
          else case (if is_wireguard i then if_name i else None) of
              None \<Rightarrow> Some (if nlmsg_type nlh \<noteq> NLMSG_DONE then MNL_CB_OK + 1 else MNL_CB_OK, e, snd s)
            | Some p \<Rightarrow>
                (case Option.bind (c_str p) (string_list_add (snd s)) of
                   None \<Rightarrow> None
                 | Some l \<Rightarrow> Some (if nlmsg_type nlh \<noteq> NLMSG_DONE then MNL_CB_OK + 1 else MNL_CB_OK, e, l)))"

text \<open>The receptions: the code and the list.\<close>

fun read_devices :: "u32 \<Rightarrow> u32 \<Rightarrow> recvmsg_result list \<Rightarrow> int \<Rightarrow> string_list \<Rightarrow> (int \<times> string_list) option" where
  "read_devices seq portid [] e l = None"
| "read_devices seq portid (r # rs) e l =
     (case mnl_socket_recvfrom r of
        Inl e \<Rightarrow> Some (- e, l)
      | Inr (buf, n) \<Rightarrow>
          (case mnl_cb_run buf n seq portid (Some read_devices_cb) (e, l) of
             None \<Rightarrow> None
           | Some (len, e, l) \<Rightarrow>
               if len < 0 \<and> e \<noteq> EINTR then Some (- e, l)
               else if len = MNL_CB_OK + 1 then read_devices seq portid rs e l
               else Some (0, l)))"

definition kernel_get_wireguard_interfaces :: "netlink \<Rightarrow> int \<Rightarrow> string_list \<Rightarrow> (int \<times> string_list) option" where
  "kernel_get_wireguard_interfaces nl eno l =
     (case mnl_socket_open nl of
        Some e \<Rightarrow> Some (- e, l)
      | None \<Rightarrow>
          (case mnl_socket_bind nl of
             Inl e \<Rightarrow> Some (- e, l)
           | Inr portid \<Rightarrow>
               let seq = nl_now nl 0;
                   m = mnl_nlmsg_put_header\<lparr>nlmsg_type_field := RTM_GETLINK,
                         nlmsg_flags_field := NLM_F_REQUEST OR NLM_F_ACK OR NLM_F_DUMP, nlmsg_seq_field := seq\<rparr>;
                   m = mnl_nlmsg_put_extra_header m 16 []
               in case mnl_socket_sendto nl [] m of
                    Inl e \<Rightarrow> Some (- e, l)
                  | Inr rs \<Rightarrow> read_devices seq portid rs eno l))"

subsection \<open>Setting a device\<close>

fun steps :: "('a \<Rightarrow> 'a option) list \<Rightarrow> 'a \<Rightarrow> 'a option" where
  "steps [] x = Some x"
| "steps (f # fs) x = (case f x of None \<Rightarrow> None | Some y \<Rightarrow> steps fs y)"

text \<open>A string that is not there is a null pointer that is followed.\<close>

definition put_str :: "u16 \<Rightarrow> string option \<Rightarrow> nlmsg \<Rightarrow> nlmsg option" where
  "put_str type v m = map_option (mnl_attr_put_strz m type) v"

definition put_magic_header_attr :: "u8 \<Rightarrow> u16 \<Rightarrow> string option \<Rightarrow> nlmsg \<Rightarrow> nlmsg option" where
  "put_magic_header_attr version type v m =
     (if version \<ge> 2 then put_str type v m
      else map_option (\<lambda>s. mnl_attr_put_u32 m type (ucast (fst (strtoul 10 s)))) v)"

definition when_flag :: "u32 \<Rightarrow> u32 \<Rightarrow> (nlmsg \<Rightarrow> nlmsg option) \<Rightarrow> nlmsg \<Rightarrow> nlmsg option" where
  "when_flag fl bits f m = (if fl AND bits \<noteq> 0 then f m else Some m)"

definition put_device :: "u8 \<Rightarrow> wgdevice \<Rightarrow> nlmsg \<Rightarrow> nlmsg option" where
  "put_device version d =
     (let on = when_flag (dev_flags d); u16 = (\<lambda>t v m. Some (mnl_attr_put_u16 m t v));
          fl = (if dev_flags d AND WGDEVICE_REPLACE_PEERS \<noteq> 0 then WGDEVICE_F_REPLACE_PEERS else 0)
      in steps
        [on WGDEVICE_HAS_PRIVATE_KEY (\<lambda>m. Some (mnl_attr_put m WGDEVICE_A_PRIVATE_KEY (private_key d))),
         on WGDEVICE_HAS_LISTEN_PORT (u16 WGDEVICE_A_LISTEN_PORT (listen_port d)),
         on WGDEVICE_HAS_JC (u16 WGDEVICE_A_JC (junk_packet_count d)),
         on WGDEVICE_HAS_JMIN (u16 WGDEVICE_A_JMIN (junk_packet_min_size d)),
         on WGDEVICE_HAS_JMAX (u16 WGDEVICE_A_JMAX (junk_packet_max_size d)),
         on WGDEVICE_HAS_S1 (u16 WGDEVICE_A_S1 (init_packet_junk_size d)),
         on WGDEVICE_HAS_S2 (u16 WGDEVICE_A_S2 (response_packet_junk_size d)),
         on WGDEVICE_HAS_S3 (u16 WGDEVICE_A_S3 (cookie_reply_packet_junk_size d)),
         on WGDEVICE_HAS_S4 (u16 WGDEVICE_A_S4 (transport_packet_junk_size d)),
         on WGDEVICE_HAS_H1 (put_magic_header_attr version WGDEVICE_A_H1 (init_packet_magic_header d)),
         on WGDEVICE_HAS_H2 (put_magic_header_attr version WGDEVICE_A_H2 (response_packet_magic_header d)),
         on WGDEVICE_HAS_H3 (put_magic_header_attr version WGDEVICE_A_H3 (underload_packet_magic_header d)),
         on WGDEVICE_HAS_H4 (put_magic_header_attr version WGDEVICE_A_H4 (transport_packet_magic_header d)),
         on WGDEVICE_HAS_I1 (put_str WGDEVICE_A_I1 (i1 d)),
         on WGDEVICE_HAS_I2 (put_str WGDEVICE_A_I2 (i2 d)),
         on WGDEVICE_HAS_I3 (put_str WGDEVICE_A_I3 (i3 d)),
         on WGDEVICE_HAS_I4 (put_str WGDEVICE_A_I4 (i4 d)),
         on WGDEVICE_HAS_I5 (put_str WGDEVICE_A_I5 (i5 d)),
         on WGDEVICE_HAS_FWMARK (\<lambda>m. Some (mnl_attr_put_u32 m WGDEVICE_A_FWMARK (fwmark d))),
         \<lambda>m. Some (if fl \<noteq> 0 then mnl_attr_put_u32 m WGDEVICE_A_FLAGS fl else m)])"

text \<open>One allowed address in its nest. When it does not fit, the nest is cancelled: what was put behind its start is cut off.\<close>

definition put_allowedip :: "nat \<Rightarrow> nlmsg \<Rightarrow> wgallowedip \<Rightarrow> nlmsg + nlmsg" where
  "put_allowedip bufsize m a =
     (case mnl_attr_nest_start_check m bufsize 0 of
        None \<Rightarrow> Inl m
      | Some (m, nest) \<Rightarrow>
          (case steps
             [\<lambda>m. mnl_attr_put_u16_check m bufsize WGALLOWEDIP_A_FAMILY (family a),
              \<lambda>m. if family a = AF_INET then mnl_attr_put_check m bufsize WGALLOWEDIP_A_IPADDR (ip4 a)
                  else if family a = AF_INET6 then mnl_attr_put_check m bufsize WGALLOWEDIP_A_IPADDR (ip6 a)
                  else Some m,
              \<lambda>m. mnl_attr_put_u8_check m bufsize WGALLOWEDIP_A_CIDR_MASK (cidr a)] m of
             None \<Rightarrow> Inl (mnl_attr_nest_cancel m nest)
           | Some m \<Rightarrow> Inr (mnl_attr_nest_end m nest)))"

text \<open>The loop over allowed addresses: those that are left.\<close>

fun put_allowedips :: "nat \<Rightarrow> nlmsg \<Rightarrow> wgallowedip list \<Rightarrow> nlmsg \<times> wgallowedip list" where
  "put_allowedips bufsize m [] = (m, [])"
| "put_allowedips bufsize m (a # as) =
     (case put_allowedip bufsize m a of Inl m \<Rightarrow> (m, a # as) | Inr m \<Rightarrow> put_allowedips bufsize m as)"

text \<open>The attributes of a peer before its allowed addresses; \<open>fresh\<close> when no message has started with them. The result
  of putting the attribute \<open>WGPEER_A_AWG\<close> is not looked at.\<close>

definition put_peer_attrs :: "nat \<Rightarrow> wgpeer \<Rightarrow> bool \<Rightarrow> nlmsg \<Rightarrow> nlmsg option" where
  "put_peer_attrs bufsize p fresh =
     (let fl = (if flags p AND WGPEER_REMOVE_ME \<noteq> 0 then WGPEER_F_REMOVE_ME else 0) OR
               (if fresh \<and> flags p AND WGPEER_REPLACE_ALLOWEDIPS \<noteq> 0 then WGPEER_F_REPLACE_ALLOWEDIPS else 0) OR
               (if flags p AND WGPEER_HAS_AWG \<noteq> 0 then WGPEER_F_HAS_AWG else 0)
      in steps
        [\<lambda>m. mnl_attr_put_check m bufsize WGPEER_A_PUBLIC_KEY (public_key p),
         \<lambda>m. if fresh \<and> flags p AND WGPEER_HAS_PRESHARED_KEY \<noteq> 0
             then mnl_attr_put_check m bufsize WGPEER_A_PRESHARED_KEY (preshared_key p) else Some m,
         \<lambda>m. if fresh \<and> endpoint p \<noteq> SA_UNSPEC
             then mnl_attr_put_check m bufsize WGPEER_A_ENDPOINT (sockaddr_bytes (endpoint p)) else Some m,
         \<lambda>m. if fresh \<and> flags p AND WGPEER_HAS_PERSISTENT_KEEPALIVE_INTERVAL \<noteq> 0
             then mnl_attr_put_u16_check m bufsize WGPEER_A_PERSISTENT_KEEPALIVE_INTERVAL (persistent_keepalive_interval p) else Some m,
         \<lambda>m. Some (if flags p AND WGPEER_HAS_AWG \<noteq> 0 \<and> awg p
             then case mnl_attr_put_check m bufsize WGPEER_A_AWG [] of None \<Rightarrow> m | Some m \<Rightarrow> m else m),
         \<lambda>m. if fl \<noteq> 0 then mnl_attr_put_u32_check m bufsize WGPEER_A_FLAGS fl else Some m])"

datatype put_result = Put nlmsg | Toobig_peers nlmsg | Toobig_allowedips nlmsg "wgallowedip list"

text \<open>\<open>as\<close> is where the allowed addresses go on, \<open>[]\<close> the null pointer.\<close>

definition put_peer :: "nat \<Rightarrow> nlmsg \<Rightarrow> wgpeer \<Rightarrow> wgallowedip list \<Rightarrow> put_result" where
  "put_peer bufsize m p as =
     (case mnl_attr_nest_start_check m bufsize 0 of
        None \<Rightarrow> Toobig_peers m
      | Some (m, peer_nest) \<Rightarrow>
          (case put_peer_attrs bufsize p (as = []) m of
             None \<Rightarrow> Toobig_peers (mnl_attr_nest_cancel m peer_nest)
           | Some m \<Rightarrow>
               if allowedips p = [] then Put (mnl_attr_nest_end m peer_nest)
               else let as = (if as = [] then allowedips p else as)
                    in case mnl_attr_nest_start_check m bufsize WGPEER_A_ALLOWEDIPS of
                         None \<Rightarrow> Toobig_allowedips (mnl_attr_nest_end m peer_nest) as
                       | Some (m, allowedips_nest) \<Rightarrow>
                           let (m, as) = put_allowedips bufsize m as;
                               m = mnl_attr_nest_end (mnl_attr_nest_end m allowedips_nest) peer_nest
                           in if as = [] then Put m else Toobig_allowedips m as))"

fun put_peers :: "nat \<Rightarrow> nlmsg \<Rightarrow> wgallowedip list \<Rightarrow> wgpeer list \<Rightarrow> nlmsg \<times> wgpeer list \<times> wgallowedip list" where
  "put_peers bufsize m as [] = (m, [], as)"
| "put_peers bufsize m as (p # ps) =
     (case put_peer bufsize m p as of
        Put m \<Rightarrow> put_peers bufsize m [] ps
      | Toobig_peers m \<Rightarrow> (m, p # ps, as)
      | Toobig_allowedips m as \<Rightarrow> (m, p # ps, as))"

text \<open>One message: \<open>ps\<close> are the peers from the current one on, \<open>None\<close> at the start. The message with the peers that are left and the allowed
  addresses of the first of them. A message that is longer than the buffer was written beyond its end.\<close>

definition set_message ::
  "nat \<Rightarrow> u8 \<Rightarrow> wgdevice \<Rightarrow> nlmsg \<Rightarrow> wgpeer list option \<Rightarrow> wgallowedip list \<Rightarrow> (nlmsg \<times> wgpeer list \<times> wgallowedip list) option" where
  "set_message bufsize version d m ps as =
     (case (let m = mnl_attr_put_strz m WGDEVICE_A_IFNAME (dev_name d) in if ps = None then put_device version d m else Some m) of
        None \<Rightarrow> None
      | Some m \<Rightarrow>
          if peers d = [] then if nlmsg_len_of m \<le> bufsize then Some (m, [], []) else None
          else let (m, peers_nest) = mnl_attr_nest_start m WGDEVICE_A_PEERS
               in if nlmsg_len_of m > bufsize then None
                  else let (m, ps, as) = put_peers bufsize m as (case ps of None \<Rightarrow> peers d | Some ps \<Rightarrow> ps)
                       in Some (mnl_attr_nest_end m peers_nest, ps, as))"

text \<open>The loop over the messages: the code and what was sent.\<close>

partial_function (option) set_loop ::
  "netlink \<Rightarrow> wgdevice \<Rightarrow> mnlg_socket \<Rightarrow> wgpeer list option \<Rightarrow> wgallowedip list \<Rightarrow> (int \<times> mnlg_socket) option" where
  "set_loop nl d nlg ps as =
     (let (nlg, m) = mnlg_msg_prepare nlg (nl_now nl (length (nlg_sent nlg))) WG_CMD_SET_DEVICE (NLM_F_REQUEST OR NLM_F_ACK)
      in case set_message (mnl_ideal_socket_buffer_size (nl_pagesize nl)) (nlg_version nlg) d m ps as of
           None \<Rightarrow> None
         | Some (m, ps, as) \<Rightarrow>
             (case mnlg_socket_send nl nlg m of
                (Inl e, nlg) \<Rightarrow> Some (- e, nlg)
              | (Inr rs, nlg) \<Rightarrow>
                  (case mnlg_socket_recv_run (nlg_seq nlg) (nlg_portid nlg) None rs (0, ()) of
                     None \<Rightarrow> None
                   | Some (err, e, _) \<Rightarrow>
                       if err < 0 then Some (if e \<noteq> 0 then - e else - EINVAL, nlg)
                       else if ps \<noteq> [] then set_loop nl d nlg (Some ps) as
                       else Some (0, nlg))))"

definition kernel_set_device :: "u16 \<Rightarrow> netlink \<Rightarrow> wgdevice \<Rightarrow> (int \<times> u8 list list) option" where
  "kernel_set_device ctrl_attr_max nl d =
     (case mnlg_socket_open ctrl_attr_max nl WG_GENL_NAME of
        None \<Rightarrow> None
      | Some (Inl e) \<Rightarrow> Some (- e, [])
      | Some (Inr nlg) \<Rightarrow> map_option (\<lambda>(ret, nlg). (ret, nlg_sent nlg)) (set_loop nl d nlg None []))"

subsection \<open>Getting a device\<close>

text \<open>\<open>if (!mnl_attr_validate(attr, type)) \<dots>\<close>: an attribute that is not accepted only leaves its error in \<open>errno\<close>.\<close>

definition if_valid :: "u8 list \<Rightarrow> mnl_attr_data_type \<Rightarrow> ('d \<Rightarrow> 'd) \<Rightarrow> 'd cb_state \<Rightarrow> (int \<times> 'd cb_state) option" where
  "if_valid attr type f s =
     Some (case mnl_attr_validate attr type of None \<Rightarrow> (MNL_CB_OK, fst s, f (snd s)) | Some e \<Rightarrow> (MNL_CB_OK, e, snd s))"

text \<open>\<open>if (mnl_attr_get_payload_len(attr) == len) \<dots>\<close>\<close>

definition if_len :: "u8 list \<Rightarrow> nat \<Rightarrow> ('d \<Rightarrow> 'd) \<Rightarrow> 'd cb_state \<Rightarrow> (int \<times> 'd cb_state) option" where
  "if_len attr len f s =
     Some (MNL_CB_OK, fst s, if unat (mnl_attr_get_payload_len attr) = len then f (snd s) else snd s)"

definition cb_cases :: "(u16 \<times> 'd cb) list \<Rightarrow> 'd cb" where
  "cb_cases cs attr s = (case map_of cs (mnl_attr_get_type attr) of None \<Rightarrow> Some (MNL_CB_OK, s) | Some f \<Rightarrow> f attr s)"

definition nl_parse_allowedip :: "wgallowedip cb" where
  "nl_parse_allowedip = cb_cases
     [(WGALLOWEDIP_A_FAMILY, \<lambda>attr. if_valid attr MNL_TYPE_U16 (\<lambda>a. a\<lparr>family := mnl_attr_get_u16 attr\<rparr>)),
      (WGALLOWEDIP_A_IPADDR, \<lambda>attr.
         if unat (mnl_attr_get_payload_len attr) = 4
         then if_len attr 4 (\<lambda>a. a\<lparr>ip := take 4 (mnl_attr_get_payload attr) @ drop 4 (ip a)\<rparr>)
         else if_len attr 16 (\<lambda>a. a\<lparr>ip := take 16 (mnl_attr_get_payload attr)\<rparr>)),
      (WGALLOWEDIP_A_CIDR_MASK, \<lambda>attr. if_valid attr MNL_TYPE_U8 (\<lambda>a. a\<lparr>cidr := mnl_attr_get_u8 attr\<rparr>))]"

text \<open>The new node is linked before it is filled, and stays linked whatever the code.\<close>

definition nl_parse_allowedips :: "wgpeer cb" where
  "nl_parse_allowedips attr s =
     (case mnl_attr_parse_nested attr nl_parse_allowedip (fst s, zero_allowedip) of
        None \<Rightarrow> None
      | Some (ret, e, a) \<Rightarrow>
          let p = (snd s)\<lparr>allowedips := allowedips (snd s) @ [a]\<rparr>
          in Some (if ret = 0 then ret
                   else if \<not> (family a = AF_INET \<and> cidr a \<le> 32 \<or> family a = AF_INET6 \<and> cidr a \<le> 128) then MNL_CB_ERROR
                   else MNL_CB_OK, e, p))"

definition load_timespec64 :: "u8 list \<Rightarrow> timespec64" where
  "load_timespec64 mem = \<lparr>tv_sec = load_at 0 8 mem, tv_nsec = load_at 8 8 mem\<rparr>"

definition nl_parse_endpoint :: "wgpeer cb" where
  "nl_parse_endpoint attr s =
     (let addr = mnl_attr_get_payload attr; len = unat (mnl_attr_get_payload_len attr); fam = load_at 0 2 addr
      in Some (MNL_CB_OK, fst s,
           if len < 16 then snd s
           else if fam = AF_INET \<and> len = 16 then (snd s)\<lparr>endpoint := load_sockaddr_in addr\<rparr>
           else if fam = AF_INET6 \<and> len = 28 then (snd s)\<lparr>endpoint := load_sockaddr_in6 addr\<rparr>
           else snd s))"

definition nl_parse_peer :: "wgpeer cb" where
  "nl_parse_peer = cb_cases
     [(WGPEER_A_PUBLIC_KEY, \<lambda>attr. if_len attr WG_KEY_LEN (\<lambda>p.
         p\<lparr>public_key := take WG_KEY_LEN (mnl_attr_get_payload attr), flags := flags p OR WGPEER_HAS_PUBLIC_KEY\<rparr>)),
      (WGPEER_A_PRESHARED_KEY, \<lambda>attr. if_len attr WG_KEY_LEN (\<lambda>p.
         let key = take WG_KEY_LEN (mnl_attr_get_payload attr)
         in p\<lparr>preshared_key := key, flags := flags p OR (if key_is_zero key then 0 else WGPEER_HAS_PRESHARED_KEY)\<rparr>)),
      (WGPEER_A_ENDPOINT, nl_parse_endpoint),
      (WGPEER_A_PERSISTENT_KEEPALIVE_INTERVAL, \<lambda>attr.
         if_valid attr MNL_TYPE_U16 (\<lambda>p. p\<lparr>persistent_keepalive_interval := mnl_attr_get_u16 attr\<rparr>)),
      (WGPEER_A_LAST_HANDSHAKE_TIME, \<lambda>attr.
         if_len attr 16 (\<lambda>p. p\<lparr>last_handshake_time := load_timespec64 (mnl_attr_get_payload attr)\<rparr>)),
      (WGPEER_A_RX_BYTES, \<lambda>attr. if_valid attr MNL_TYPE_U64 (\<lambda>p. p\<lparr>rx_bytes := mnl_attr_get_u64 attr\<rparr>)),
      (WGPEER_A_TX_BYTES, \<lambda>attr. if_valid attr MNL_TYPE_U64 (\<lambda>p. p\<lparr>tx_bytes := mnl_attr_get_u64 attr\<rparr>)),
      (WGPEER_A_FLAGS, \<lambda>attr. if_valid attr MNL_TYPE_U32 (\<lambda>p.
         if mnl_attr_get_u32 attr AND WGPEER_F_HAS_AWG \<noteq> 0 \<and> flags p AND WGPEER_HAS_AWG = 0
         then p\<lparr>flags := flags p OR WGPEER_HAS_AWG, awg := False\<rparr> else p)),
      (WGPEER_A_AWG, \<lambda>attr. if_valid attr MNL_TYPE_FLAG (\<lambda>p. p\<lparr>awg := True, flags := flags p OR WGPEER_HAS_AWG\<rparr>)),
      (WGPEER_A_ALLOWEDIPS, \<lambda>attr. mnl_attr_parse_nested attr nl_parse_allowedips)]"

definition nl_parse_peers :: "wgdevice cb" where
  "nl_parse_peers attr s =
     (case mnl_attr_parse_nested attr nl_parse_peer (fst s, zero_peer) of
        None \<Rightarrow> None
      | Some (ret, e, p) \<Rightarrow>
          let d = (snd s)\<lparr>peers := peers (snd s) @ [p]\<rparr>
          in Some (if ret = 0 then ret else if flags p AND WGPEER_HAS_PUBLIC_KEY = 0 then MNL_CB_ERROR else MNL_CB_OK, e, d))"

text \<open>The macro \<open>GET_MAGIC_HEADER\<close> and the strings: the store is given by \<open>upd\<close>.\<close>

definition dev_flag :: "u32 \<Rightarrow> wgdevice \<Rightarrow> wgdevice" where
  "dev_flag bits d = d\<lparr>dev_flags := dev_flags d OR bits\<rparr>"

definition get_str :: "(string option \<Rightarrow> wgdevice \<Rightarrow> wgdevice) \<Rightarrow> u32 \<Rightarrow> wgdevice cb" where
  "get_str upd bits attr s =
     (case mnl_attr_validate attr MNL_TYPE_NUL_STRING of
        Some e \<Rightarrow> Some (MNL_CB_OK, e, snd s)
      | None \<Rightarrow>
          (case c_str (mnl_attr_get_str attr) of
             None \<Rightarrow> None
           | Some v \<Rightarrow> Some (MNL_CB_OK, fst s, dev_flag bits (upd (Some v) (snd s)))))"

definition GET_MAGIC_HEADER :: "(string option \<Rightarrow> wgdevice \<Rightarrow> wgdevice) \<Rightarrow> u32 \<Rightarrow> wgdevice cb" where
  "GET_MAGIC_HEADER upd bits attr s =
     (case mnl_attr_validate attr MNL_TYPE_U32 of
        None \<Rightarrow> Some (MNL_CB_OK, fst s, dev_flag bits (upd (Some (show_dec (unat (mnl_attr_get_u32 attr)))) (snd s)))
      | Some e \<Rightarrow> get_str upd bits attr (e, snd s))"

definition get_u16 :: "(u16 \<Rightarrow> wgdevice \<Rightarrow> wgdevice) \<Rightarrow> u32 \<Rightarrow> wgdevice cb" where
  "get_u16 upd bits attr = if_valid attr MNL_TYPE_U16 (\<lambda>d. dev_flag bits (upd (mnl_attr_get_u16 attr) d))"

definition nl_parse_device :: "wgdevice cb" where
  "nl_parse_device = cb_cases
     [(WGDEVICE_A_IFINDEX, \<lambda>attr. if_valid attr MNL_TYPE_U32 (\<lambda>d. d\<lparr>ifindex := mnl_attr_get_u32 attr\<rparr>)),
      (WGDEVICE_A_IFNAME, \<lambda>attr s.
         case mnl_attr_validate attr MNL_TYPE_STRING of
           Some e \<Rightarrow> Some (MNL_CB_OK, e, snd s)
         | None \<Rightarrow>
             (case c_strn (IFNAMSIZ - 1) (mnl_attr_get_str attr) of
                None \<Rightarrow> None
              | Some n \<Rightarrow> Some (MNL_CB_OK, fst s, (snd s)\<lparr>dev_name := n\<rparr>))),
      (WGDEVICE_A_PRIVATE_KEY, \<lambda>attr. if_len attr WG_KEY_LEN (\<lambda>d.
         dev_flag WGDEVICE_HAS_PRIVATE_KEY (d\<lparr>private_key := take WG_KEY_LEN (mnl_attr_get_payload attr)\<rparr>))),
      (WGDEVICE_A_PUBLIC_KEY, \<lambda>attr. if_len attr WG_KEY_LEN (\<lambda>d.
         dev_flag WGDEVICE_HAS_PUBLIC_KEY (d\<lparr>dev_public_key := take WG_KEY_LEN (mnl_attr_get_payload attr)\<rparr>))),
      (WGDEVICE_A_LISTEN_PORT, \<lambda>attr. if_valid attr MNL_TYPE_U16 (\<lambda>d. d\<lparr>listen_port := mnl_attr_get_u16 attr\<rparr>)),
      (WGDEVICE_A_FWMARK, \<lambda>attr. if_valid attr MNL_TYPE_U32 (\<lambda>d. d\<lparr>fwmark := mnl_attr_get_u32 attr\<rparr>)),
      (WGDEVICE_A_PEERS, \<lambda>attr. mnl_attr_parse_nested attr nl_parse_peers),
      (WGDEVICE_A_JC, get_u16 (\<lambda>v d. d\<lparr>junk_packet_count := v\<rparr>) WGDEVICE_HAS_JC),
      (WGDEVICE_A_JMIN, get_u16 (\<lambda>v d. d\<lparr>junk_packet_min_size := v\<rparr>) WGDEVICE_HAS_JMIN),
      (WGDEVICE_A_JMAX, get_u16 (\<lambda>v d. d\<lparr>junk_packet_max_size := v\<rparr>) WGDEVICE_HAS_JMAX),
      (WGDEVICE_A_S1, get_u16 (\<lambda>v d. d\<lparr>init_packet_junk_size := v\<rparr>) WGDEVICE_HAS_S1),
      (WGDEVICE_A_S2, get_u16 (\<lambda>v d. d\<lparr>response_packet_junk_size := v\<rparr>) WGDEVICE_HAS_S2),
      (WGDEVICE_A_S3, get_u16 (\<lambda>v d. d\<lparr>cookie_reply_packet_junk_size := v\<rparr>) WGDEVICE_HAS_S3),
      (WGDEVICE_A_S4, get_u16 (\<lambda>v d. d\<lparr>transport_packet_junk_size := v\<rparr>) WGDEVICE_HAS_S4),
      (WGDEVICE_A_H1, GET_MAGIC_HEADER (\<lambda>v d. d\<lparr>init_packet_magic_header := v\<rparr>) WGDEVICE_HAS_H1),
      (WGDEVICE_A_H2, GET_MAGIC_HEADER (\<lambda>v d. d\<lparr>response_packet_magic_header := v\<rparr>) WGDEVICE_HAS_H2),
      (WGDEVICE_A_H3, GET_MAGIC_HEADER (\<lambda>v d. d\<lparr>underload_packet_magic_header := v\<rparr>) WGDEVICE_HAS_H3),
      (WGDEVICE_A_H4, GET_MAGIC_HEADER (\<lambda>v d. d\<lparr>transport_packet_magic_header := v\<rparr>) WGDEVICE_HAS_H4),
      (WGDEVICE_A_I1, get_str (\<lambda>v d. d\<lparr>i1 := v\<rparr>) WGDEVICE_HAS_I1),
      (WGDEVICE_A_I2, get_str (\<lambda>v d. d\<lparr>i2 := v\<rparr>) WGDEVICE_HAS_I2),
      (WGDEVICE_A_I3, get_str (\<lambda>v d. d\<lparr>i3 := v\<rparr>) WGDEVICE_HAS_I3),
      (WGDEVICE_A_I4, get_str (\<lambda>v d. d\<lparr>i4 := v\<rparr>) WGDEVICE_HAS_I4),
      (WGDEVICE_A_I5, get_str (\<lambda>v d. d\<lparr>i5 := v\<rparr>) WGDEVICE_HAS_I5)]"

definition read_device_cb :: "wgdevice cb" where
  "read_device_cb nlh s = mnl_attr_parse nlh 4 nl_parse_device s"

text \<open>The merging of adjacent peers with one key. \<open>nolast\<close> says that \<open>last_allowedip\<close> of the current peer is null.\<close>

fun coalesce_from :: "bool \<Rightarrow> wgpeer list \<Rightarrow> wgpeer list option" where
  "coalesce_from nolast [] = Some []"
| "coalesce_from nolast [p] = Some [p]"
| "coalesce_from nolast (p # q # ps) =
     (if public_key p \<noteq> public_key q then map_option ((#) p) (coalesce_from (allowedips q = []) (q # ps))
      else if allowedips p = [] then coalesce_from (allowedips q = []) (p\<lparr>allowedips := allowedips q\<rparr> # ps)
      else if nolast then None
      else coalesce_from (allowedips q = []) (p\<lparr>allowedips := allowedips p @ allowedips q\<rparr> # ps))"

definition coalesce_peers :: "wgdevice \<Rightarrow> wgdevice option" where
  "coalesce_peers d =
     map_option (\<lambda>ps. d\<lparr>peers := ps\<rparr>) (case peers d of [] \<Rightarrow> Some [] | p # ps \<Rightarrow> coalesce_from (allowedips p = []) (p # ps))"

text \<open>One attempt: the code and the device.\<close>

definition get_device_attempt :: "u16 \<Rightarrow> netlink \<Rightarrow> string \<Rightarrow> (int + int \<times> wgdevice option) option" where
  "get_device_attempt ctrl_attr_max nl iface =
     (case mnlg_socket_open ctrl_attr_max nl WG_GENL_NAME of
        None \<Rightarrow> None
      | Some (Inl e) \<Rightarrow> Some (Inl (- e))
      | Some (Inr nlg) \<Rightarrow>
          let (nlg, m) = mnlg_msg_prepare nlg (nl_now nl (length (nlg_sent nlg))) WG_CMD_GET_DEVICE
                           (NLM_F_REQUEST OR NLM_F_ACK OR NLM_F_DUMP);
              m = mnl_attr_put_strz m WGDEVICE_A_IFNAME iface
          in case mnlg_socket_send nl nlg m of
               (Inl e, nlg) \<Rightarrow> Some (Inr (- e, None))
             | (Inr rs, nlg) \<Rightarrow>
                 (case mnlg_socket_recv_run (nlg_seq nlg) (nlg_portid nlg) (Some read_device_cb) rs (0, zero_device) of
                    None \<Rightarrow> None
                  | Some (err, e, d) \<Rightarrow>
                      if err < 0 then Some (Inr (if e \<noteq> 0 then - e else - EINVAL, None))
                      else map_option (\<lambda>d. Inr (0, Some d)) (coalesce_peers d)))"

text \<open>The attempts, each with a socket of its own: one that was interrupted is repeated.\<close>

partial_function (option) get_device_loop :: "u16 \<Rightarrow> (nat \<Rightarrow> netlink) \<Rightarrow> nat \<Rightarrow> string \<Rightarrow> (int \<times> wgdevice option) option" where
  "get_device_loop ctrl_attr_max nls k iface =
     (case get_device_attempt ctrl_attr_max (nls k) iface of
        None \<Rightarrow> None
      | Some (Inl ret) \<Rightarrow> Some (ret, None)
      | Some (Inr (ret, d)) \<Rightarrow> if ret = - EINTR then get_device_loop ctrl_attr_max nls (Suc k) iface else Some (ret, d))"

definition kernel_get_device :: "u16 \<Rightarrow> (nat \<Rightarrow> netlink) \<Rightarrow> string \<Rightarrow> (int \<times> wgdevice option) option" where
  "kernel_get_device ctrl_attr_max nls iface =
     (if length iface \<ge> IFNAMSIZ then Some (- ENAMETOOLONG, None) else get_device_loop ctrl_attr_max nls 0 iface)"

end
