(* ===== verification/Kernel_Messages.thy ===== *)
theory Kernel_Messages
  imports Ipc_Linux
begin

unbundle bit_operations_syntax

text \<open>
  The messages of \<^verbatim>\<open>Ipc_Linux\<close> as trees of attributes, and the round trip: what \<open>kernel_set_device\<close> sends, cut into messages where the
  buffer ends, is read by the callbacks of \<open>kernel_get_device\<close> and merged by \<open>coalesce_peers\<close> to the same settings.
\<close>

subsection \<open>The attributes of a message\<close>

text \<open>The attributes are put when they fit in the buffer, all together.\<close>

definition fit :: "nat \<Rightarrow> nlmsg \<Rightarrow> nlattr list \<Rightarrow> nlmsg option" where
  "fit bufsize m as = (if nlmsg_len_of m + length (encs as) \<le> bufsize then Some (add m as) else None)"

lemma fit_Nil: "nlmsg_len_of m \<le> bufsize \<Longrightarrow> fit bufsize m [] = Some m"
  by (simp add: fit_def)

lemma fit_append: "(case fit bufsize m as of None \<Rightarrow> None | Some m \<Rightarrow> fit bufsize m bs) = fit bufsize m (as @ bs)"
  by (simp add: fit_def add.assoc)

lemma put_check_fit: "length data < 65532 \<Longrightarrow> mnl_attr_put_check m bufsize t data = fit bufsize m [Attr t data]"
  by (simp add: mnl_attr_put_check_add fit_def)

lemma steps_append: "steps (fs @ gs) x = (case steps fs x of None \<Rightarrow> None | Some y \<Rightarrow> steps gs y)"
  by (induction fs arbitrary: x) (simp_all split: option.split)

lemma steps_fit:
  assumes "list_all2 (\<lambda>f as. \<forall>m. nlmsg_len_of m \<le> bufsize \<longrightarrow> f m = fit bufsize m as) fs ass" and "nlmsg_len_of m \<le> bufsize"
  shows "steps fs m = fit bufsize m (concat ass)"
  using assms
proof (induction fs ass arbitrary: m rule: list_all2_induct)
  case (Cons f fs as ass)
  show ?case
  proof (cases "fit bufsize m as")
    case None
    then show ?thesis
      using Cons.hyps(1) Cons.prems fit_append [where bufsize = bufsize and m = m and as = as and bs = "concat ass"] by simp
  next
    case (Some m')
    then have "nlmsg_len_of m' \<le> bufsize"
      by (auto simp: fit_def split: if_splits)
    then show ?thesis
      using Some Cons.hyps(1) Cons.prems Cons.IH fit_append [where bufsize = bufsize and m = m and as = as and bs = "concat ass"] by simp
  qed
qed (simp add: fit_Nil)

lemma steps_add:
  assumes "list_all2 (\<lambda>f as. \<forall>m. f m = Some (add m as)) fs ass"
  shows "steps fs m = Some (add m (concat ass))"
  using assms by (induction fs ass arbitrary: m rule: list_all2_induct) simp_all

subsection \<open>Allowed addresses\<close>

definition allowedip_attr :: "wgallowedip \<Rightarrow> nlattr" where
  "allowedip_attr a = Nest 0 (
     [Attr WGALLOWEDIP_A_FAMILY (store 2 (family a))] @
     (if family a = AF_INET then [Attr WGALLOWEDIP_A_IPADDR (ip4 a)]
      else if family a = AF_INET6 then [Attr WGALLOWEDIP_A_IPADDR (ip6 a)] else []) @
     [Attr WGALLOWEDIP_A_CIDR_MASK (store 1 (cidr a))])"

lemma length_store_attr [simp]: "length (attr_bytes t (store n w)) = 4 + MNL_ALIGN n"
  by (simp add: length_attr_bytes)

lemma MNL_ALIGN_small [simp]: "MNL_ALIGN 0 = 0" "MNL_ALIGN 1 = 4" "MNL_ALIGN (Suc 0) = 4" "MNL_ALIGN 2 = 4" "MNL_ALIGN 16 = 16" "MNL_ALIGN 28 = 28"
  "MNL_ALIGN 32 = 32" "MNL_ALIGN 20 = 20"
  by (simp_all add: MNL_ALIGN_def)

lemma length_allowedip_attr: "allowedip_wf a \<Longrightarrow> length (enc (allowedip_attr a)) \<in> {28, 40}"
  by (auto simp: allowedip_attr_def allowedip_wf_def length_attr_bytes ip4_def ip6_def MNL_ALIGN_def)

lemma put_allowedip_fit:
  assumes "allowedip_wf a"
  shows "put_allowedip bufsize m a = (case fit bufsize m [allowedip_attr a] of None \<Rightarrow> Inl m | Some m \<Rightarrow> Inr m)"
proof (cases "nlmsg_len_of m + 4 \<le> bufsize")
  case False
  then show ?thesis
    using length_allowedip_attr [OF assms]
    by (auto simp: put_allowedip_def mnl_attr_nest_start_check_def fit_def)
next
  case True
  obtain m' nest where n: "mnl_attr_nest_start m 0 = (m', nest)"
    by force
  let ?as = "[Attr WGALLOWEDIP_A_FAMILY (store 2 (family a))] @
     (if family a = AF_INET then [Attr WGALLOWEDIP_A_IPADDR (ip4 a)]
      else if family a = AF_INET6 then [Attr WGALLOWEDIP_A_IPADDR (ip6 a)] else []) @
     [Attr WGALLOWEDIP_A_CIDR_MASK (store 1 (cidr a))]"
  let ?fs = "[\<lambda>m. mnl_attr_put_u16_check m bufsize WGALLOWEDIP_A_FAMILY (family a),
              \<lambda>m. if family a = AF_INET then mnl_attr_put_check m bufsize WGALLOWEDIP_A_IPADDR (ip4 a)
                  else if family a = AF_INET6 then mnl_attr_put_check m bufsize WGALLOWEDIP_A_IPADDR (ip6 a)
                  else Some m,
              \<lambda>m. mnl_attr_put_u8_check m bufsize WGALLOWEDIP_A_CIDR_MASK (cidr a)]"
  have l: "length (ip4 a) < 65532" "length (ip6 a) < 65532"
    using assms by (auto simp: allowedip_wf_def ip4_def ip6_def)
  have f: "steps ?fs m' = fit bufsize m' ?as"
    using True nest_end_add(3) [OF n] l
    by (subst steps_fit [where ass = "[[Attr WGALLOWEDIP_A_FAMILY (store 2 (family a))],
        if family a = AF_INET then [Attr WGALLOWEDIP_A_IPADDR (ip4 a)]
        else if family a = AF_INET6 then [Attr WGALLOWEDIP_A_IPADDR (ip6 a)] else [],
        [Attr WGALLOWEDIP_A_CIDR_MASK (store 1 (cidr a))]]"])
      (simp_all add: put_check_fit fit_Nil mnl_attr_put_u16_check_def mnl_attr_put_u8_check_def)
  have e: "allowedip_attr a = Nest 0 ?as"
    by (simp only: allowedip_attr_def)
  have "nlmsg_len_of m' + length (encs ?as) = nlmsg_len_of m + length (encs [allowedip_attr a])"
    using nest_end_add(3) [OF n] length_enc(2) [of ?as] unfolding e by (simp add: length_attr_bytes MNL_ALIGN_id)
  then have "(case fit bufsize m' ?as of None \<Rightarrow> Inl (mnl_attr_nest_cancel m' nest) | Some m \<Rightarrow> Inr (mnl_attr_nest_end m nest))
     = (case fit bufsize m [allowedip_attr a] of None \<Rightarrow> Inl m | Some m \<Rightarrow> Inr m)"
    using nest_end_add(1) [OF n, of ?as] nest_end_add(2) [OF n, of "[]"] unfolding fit_def e by simp
  then show ?thesis
    using True n f by (simp only: put_allowedip_def mnl_attr_nest_start_check_def) simp
qed

lemma put_allowedips_split:
  assumes "list_all allowedip_wf as" and "put_allowedips bufsize m as = (m', rest)"
  shows "\<exists>k. k \<le> length as \<and> m' = add m (map allowedip_attr (take k as)) \<and> rest = drop k as \<and>
     (k = 0 \<longrightarrow> as \<noteq> [] \<longrightarrow> nlmsg_len_of m + 40 > bufsize) \<and> (nlmsg_len_of m \<le> bufsize \<longrightarrow> nlmsg_len_of m' \<le> bufsize)"
  using assms
proof (induction as arbitrary: m)
  case (Cons a as)
  show ?case
  proof (cases "fit bufsize m [allowedip_attr a]")
    case None
    then show ?thesis
      using Cons.prems length_allowedip_attr [of a]
      by (intro exI [of _ 0]) (auto simp: put_allowedip_fit fit_def split: if_splits)
  next
    case (Some m1)
    then have p: "put_allowedips bufsize m1 as = (m', rest)" "m1 = add m [allowedip_attr a]" "nlmsg_len_of m1 \<le> bufsize"
      using Cons.prems by (auto simp: put_allowedip_fit fit_def split: if_splits)
    then obtain k where "k \<le> length as" "m' = add m1 (map allowedip_attr (take k as))" "rest = drop k as" "nlmsg_len_of m' \<le> bufsize"
      using Cons.IH [OF _ p(1)] Cons.prems(1) p(3) by auto
    then show ?thesis
      using p(2) by (intro exI [of _ "Suc k"]) simp
  qed
qed simp

subsection \<open>Peers\<close>

definition peer_flag_bits :: "wgpeer \<Rightarrow> bool \<Rightarrow> u32" where
  "peer_flag_bits p fresh =
     (if flags p AND WGPEER_REMOVE_ME \<noteq> 0 then WGPEER_F_REMOVE_ME else 0) OR
     (if fresh \<and> flags p AND WGPEER_REPLACE_ALLOWEDIPS \<noteq> 0 then WGPEER_F_REPLACE_ALLOWEDIPS else 0) OR
     (if flags p AND WGPEER_HAS_AWG \<noteq> 0 then WGPEER_F_HAS_AWG else 0)"

definition opt_attr :: "bool \<Rightarrow> u16 \<Rightarrow> u8 list \<Rightarrow> nlattr list" where
  "opt_attr c t data = (if c then [Attr t data] else [])"

definition peer_attrs :: "wgpeer \<Rightarrow> bool \<Rightarrow> nlattr list" where
  "peer_attrs p fresh = concat
     [[Attr WGPEER_A_PUBLIC_KEY (public_key p)],
      opt_attr (fresh \<and> flags p AND WGPEER_HAS_PRESHARED_KEY \<noteq> 0) WGPEER_A_PRESHARED_KEY (preshared_key p),
      opt_attr (fresh \<and> endpoint p \<noteq> SA_UNSPEC) WGPEER_A_ENDPOINT (sockaddr_bytes (endpoint p)),
      opt_attr (fresh \<and> flags p AND WGPEER_HAS_PERSISTENT_KEEPALIVE_INTERVAL \<noteq> 0) WGPEER_A_PERSISTENT_KEEPALIVE_INTERVAL
        (store 2 (persistent_keepalive_interval p)),
      opt_attr (flags p AND WGPEER_HAS_AWG \<noteq> 0 \<and> awg p) WGPEER_A_AWG [],
      opt_attr (peer_flag_bits p fresh \<noteq> 0) WGPEER_A_FLAGS (store 4 (peer_flag_bits p fresh))]"

lemma length_opt_attr: "length (encs (opt_attr c t data)) = (if c then 4 + MNL_ALIGN (length data) else 0)"
  by (simp add: opt_attr_def length_attr_bytes)

lemma length_sockaddr_bytes: "sockaddr_wf a \<Longrightarrow> length (sockaddr_bytes a) \<le> 28"
  by (cases a) auto

lemma length_peer_attrs:
  assumes "peer_wf p"
  shows "length (encs (peer_attrs p fresh)) \<le> (if fresh then 128 else 48)"
proof -
  have "length (sockaddr_bytes (endpoint p)) \<le> 28"
    using assms by (intro length_sockaddr_bytes) (simp add: peer_wf_def)
  then have "MNL_ALIGN (length (sockaddr_bytes (endpoint p))) \<le> 28"
    by (simp add: MNL_ALIGN_def)
  then show ?thesis
    using assms by (simp add: peer_attrs_def length_opt_attr length_attr_bytes peer_wf_def WG_KEY_LEN_def)
qed

lemma put_peer_attrs_fit:
  assumes "peer_wf p" and "nlmsg_len_of m \<le> bufsize"
  shows "put_peer_attrs bufsize p fresh m = fit bufsize m (peer_attrs p fresh)"
proof -
  let ?fl = "peer_flag_bits p fresh" and ?w = "flags p AND WGPEER_HAS_AWG \<noteq> 0"
  let ?fs = "[\<lambda>m. mnl_attr_put_check m bufsize WGPEER_A_PUBLIC_KEY (public_key p),
         \<lambda>m. if fresh \<and> flags p AND WGPEER_HAS_PRESHARED_KEY \<noteq> 0
             then mnl_attr_put_check m bufsize WGPEER_A_PRESHARED_KEY (preshared_key p) else Some m,
         \<lambda>m. if fresh \<and> endpoint p \<noteq> SA_UNSPEC
             then mnl_attr_put_check m bufsize WGPEER_A_ENDPOINT (sockaddr_bytes (endpoint p)) else Some m,
         \<lambda>m. if fresh \<and> flags p AND WGPEER_HAS_PERSISTENT_KEEPALIVE_INTERVAL \<noteq> 0
             then mnl_attr_put_u16_check m bufsize WGPEER_A_PERSISTENT_KEEPALIVE_INTERVAL (persistent_keepalive_interval p) else Some m]"
  let ?gs = "[\<lambda>m. Some (if ?w \<and> awg p then case mnl_attr_put_check m bufsize WGPEER_A_AWG [] of None \<Rightarrow> m | Some m \<Rightarrow> m else m),
         \<lambda>m. if ?fl \<noteq> 0 then mnl_attr_put_u32_check m bufsize WGPEER_A_FLAGS ?fl else Some m]"
  let ?as = "[[Attr WGPEER_A_PUBLIC_KEY (public_key p)],
      opt_attr (fresh \<and> flags p AND WGPEER_HAS_PRESHARED_KEY \<noteq> 0) WGPEER_A_PRESHARED_KEY (preshared_key p),
      opt_attr (fresh \<and> endpoint p \<noteq> SA_UNSPEC) WGPEER_A_ENDPOINT (sockaddr_bytes (endpoint p)),
      opt_attr (fresh \<and> flags p AND WGPEER_HAS_PERSISTENT_KEEPALIVE_INTERVAL \<noteq> 0) WGPEER_A_PERSISTENT_KEEPALIVE_INTERVAL
        (store 2 (persistent_keepalive_interval p))]"
  let ?bs = "opt_attr (?w \<and> awg p) WGPEER_A_AWG [] @ opt_attr (?fl \<noteq> 0) WGPEER_A_FLAGS (store 4 ?fl)"
  have l: "length (public_key p) < 65532" "length (preshared_key p) < 65532" "length (sockaddr_bytes (endpoint p)) < 65532"
    using assms(1) length_sockaddr_bytes [of "endpoint p"] by (auto simp: peer_wf_def WG_KEY_LEN_def)
  have fs: "steps ?fs m = fit bufsize m (concat ?as)"
    using assms(2) l by (intro steps_fit) (simp_all add: put_check_fit fit_Nil opt_attr_def mnl_attr_put_u16_check_def)
  have "?w \<Longrightarrow> ?fl \<noteq> 0"
    by (auto simp: peer_flag_bits_def or_eq_0_iff)
  then have gs: "steps ?gs m' = fit bufsize m' ?bs" if "nlmsg_len_of m' \<le> bufsize" for m'
    using that by (auto simp: put_check_fit fit_def opt_attr_def mnl_attr_put_u32_check_def length_attr_bytes)
  have "put_peer_attrs bufsize p fresh m = steps (?fs @ ?gs) m"
    by (simp only: put_peer_attrs_def Let_def peer_flag_bits_def append.simps)
  also have "\<dots> = fit bufsize m (concat ?as @ ?bs)"
    unfolding steps_append fs using gs
    by (subst fit_append [symmetric]) (simp add: fit_def split: if_split option.split)
  finally show ?thesis
    by (simp add: peer_attrs_def)
qed

subsection \<open>Peers in parts\<close>

text \<open>What a message holds of a peer: whether it is the first part, and the allowed addresses, if there is a nest for them.\<close>

datatype fragment = Fragment (fr_peer: wgpeer) (fr_fresh: bool) (fr_ips: "wgallowedip list option")

definition ips_attr :: "wgallowedip list option \<Rightarrow> nlattr list" where
  "ips_attr ips = (case ips of None \<Rightarrow> [] | Some as \<Rightarrow> [Nest WGPEER_A_ALLOWEDIPS (map allowedip_attr as)])"

fun fragment_attr :: "fragment \<Rightarrow> nlattr" where
  "fragment_attr (Fragment p fresh ips) = Nest 0 (peer_attrs p fresh @ ips_attr ips)"

definition pending :: "wgpeer \<Rightarrow> wgallowedip list \<Rightarrow> wgallowedip list" where
  "pending p as = (if as = [] then allowedips p else as)"

definition whole :: "wgpeer \<Rightarrow> wgallowedip list \<Rightarrow> fragment" where
  "whole p as = Fragment p (as = []) (if allowedips p = [] then None else Some (pending p as))"

lemma length_nest [simp]: "length (enc (Nest t as)) = 4 + length (encs as)"
  using length_enc(2) [of as] by (simp add: length_attr_bytes MNL_ALIGN_id)

text \<open>The length of a message with the attributes of a peer, before its allowed addresses.\<close>

definition peer_size :: "nlmsg \<Rightarrow> wgpeer \<Rightarrow> wgallowedip list \<Rightarrow> nat" where
  "peer_size m p as = nlmsg_len_of m + 4 + length (encs (peer_attrs p (as = [])))"

lemma fragment_len [simp]:
  "nlmsg_len_of (add m [fragment_attr (Fragment p (as = []) ips)]) = peer_size m p as + length (encs (ips_attr ips))"
  by (simp add: peer_size_def length_attr_bytes MNL_ALIGN_id length_enc)

lemma put_peer_toobig:
  assumes "peer_wf p" and "nlmsg_len_of m \<le> bufsize" and "bufsize < peer_size m p as"
  shows "put_peer bufsize m p as = Toobig_peers m"
proof (cases "nlmsg_len_of m + 4 \<le> bufsize")
  case True
  obtain m1 nest where n: "mnl_attr_nest_start m 0 = (m1, nest)"
    by force
  have "put_peer_attrs bufsize p (as = []) m1 = None"
    using True assms nest_end_add(3) [OF n] by (subst put_peer_attrs_fit) (auto simp: fit_def peer_size_def)
  then show ?thesis
    using True n nest_end_add(2) [OF n, of "[]"] by (simp add: put_peer_def mnl_attr_nest_start_check_def)
qed (simp add: put_peer_def mnl_attr_nest_start_check_def)

text \<open>The start of a peer that fits: its nest is open, and its attributes are put.\<close>

lemma put_peer_start:
  assumes "peer_wf p" and "peer_size m p as \<le> bufsize"
  obtains m1 nest where "mnl_attr_nest_start m 0 = (m1, nest)"
    and "put_peer_attrs bufsize p (as = []) m1 = Some (add m1 (peer_attrs p (as = [])))"
    and "nlmsg_len_of (add m1 (peer_attrs p (as = []))) = peer_size m p as"
    and "\<And>ips. mnl_attr_nest_end (add m1 (peer_attrs p (as = []) @ ips_attr ips)) nest = add m [fragment_attr (Fragment p (as = []) ips)]"
proof -
  obtain m1 nest where n: "mnl_attr_nest_start m 0 = (m1, nest)"
    by force
  then show ?thesis
    using assms nest_end_add(3) [OF n] nest_end_add(1) [OF n]
    by (intro that [OF n]) (auto simp: put_peer_attrs_fit fit_def peer_size_def)
qed

lemma put_peer_no_ips:
  assumes "peer_wf p" and "peer_size m p as \<le> bufsize" and "allowedips p = [] \<or> bufsize < peer_size m p as + 4"
  shows "put_peer bufsize m p as =
    (if allowedips p = [] then Put else (\<lambda>m. Toobig_allowedips m (pending p as))) (add m [fragment_attr (Fragment p (as = []) None)])"
proof (rule put_peer_start [OF assms(1,2)])
  fix m1 nest
  assume "mnl_attr_nest_start m 0 = (m1, nest)"
    and "put_peer_attrs bufsize p (as = []) m1 = Some (add m1 (peer_attrs p (as = [])))"
    and "nlmsg_len_of (add m1 (peer_attrs p (as = []))) = peer_size m p as"
    and "\<And>ips. mnl_attr_nest_end (add m1 (peer_attrs p (as = []) @ ips_attr ips)) nest = add m [fragment_attr (Fragment p (as = []) ips)]"
  moreover from this(4) [of None] have "mnl_attr_nest_end (add m1 (peer_attrs p (as = []))) nest = add m [fragment_attr (Fragment p (as = []) None)]"
    by (simp add: ips_attr_def)
  moreover have "nlmsg_len_of m + 4 \<le> bufsize"
    using assms(2) by (simp add: peer_size_def)
  ultimately show ?thesis
    using assms(3) by (auto simp: put_peer_def mnl_attr_nest_start_check_def pending_def)
qed

lemma put_peer_ips:
  assumes "peer_wf p" and "list_all allowedip_wf as" and "allowedips p \<noteq> []" and "peer_size m p as + 4 \<le> bufsize"
  obtains k where "k \<le> length (pending p as)" and "k = 0 \<longrightarrow> bufsize < peer_size m p as + 44"
    and "nlmsg_len_of (add m [fragment_attr (Fragment p (as = []) (Some (take k (pending p as))))]) \<le> bufsize"
    and "put_peer bufsize m p as = (if k = length (pending p as) then Put else (\<lambda>m. Toobig_allowedips m (drop k (pending p as))))
      (add m [fragment_attr (Fragment p (as = []) (Some (take k (pending p as))))])"
proof (rule put_peer_start [OF assms(1), of m as bufsize])
  fix m1 nest
  let ?m2 = "add m1 (peer_attrs p (as = []))"
  assume n: "mnl_attr_nest_start m 0 = (m1, nest)" and a: "put_peer_attrs bufsize p (as = []) m1 = Some ?m2"
    and s: "nlmsg_len_of ?m2 = peer_size m p as"
    and e: "\<And>ips. mnl_attr_nest_end (add m1 (peer_attrs p (as = []) @ ips_attr ips)) nest = add m [fragment_attr (Fragment p (as = []) ips)]"
  have p: "pending p as \<noteq> []" "list_all allowedip_wf (pending p as)"
    using assms(1-3) by (auto simp: pending_def peer_wf_def)
  obtain m3 anest where n3: "mnl_attr_nest_start ?m2 WGPEER_A_ALLOWEDIPS = (m3, anest)"
    by force
  obtain m4 rest where p4: "put_allowedips bufsize m3 (pending p as) = (m4, rest)"
    by force
  have m3: "nlmsg_len_of m3 = peer_size m p as + 4"
    using nest_end_add(3) [OF n3] s by simp
  obtain k where k: "k \<le> length (pending p as)" "m4 = add m3 (map allowedip_attr (take k (pending p as)))" "rest = drop k (pending p as)"
    "k = 0 \<longrightarrow> bufsize < peer_size m p as + 44" "nlmsg_len_of m4 \<le> bufsize"
    using put_allowedips_split [OF p(2) p4] m3 assms(4) p(1) by auto
  let ?f = "fragment_attr (Fragment p (as = []) (Some (take k (pending p as))))"
  have f: "mnl_attr_nest_end (mnl_attr_nest_end m4 anest) nest = add m [?f]"
    unfolding k(2) nest_end_add(1) [OF n3] using e [of "Some (take k (pending p as))"] by (simp add: ips_attr_def)
  have b: "nlmsg_len_of (add m [?f]) \<le> bufsize"
    using k(5) unfolding fragment_len by (simp add: k(2) m3 ips_attr_def length_attr_bytes MNL_ALIGN_id length_enc)
  have "nlmsg_len_of m + 4 \<le> bufsize"
    using assms(4) by (simp add: peer_size_def)
  then have "put_peer bufsize m p as = (if rest = [] then Put else (\<lambda>m. Toobig_allowedips m rest)) (add m [?f])"
    using assms(3,4) n a s n3 p4
    by (simp add: put_peer_def mnl_attr_nest_start_check_def Let_def f pending_def [symmetric])
  then show ?thesis
    using that [OF k(1,4) b] k(1,3) by auto
qed (use assms(4) in simp)

text \<open>The fragments lead from the peers \<open>ps\<close>, the first of which goes on at \<open>as\<close>, to the peers \<open>ps'\<close> at \<open>as'\<close>. Only the first part of a
  peer may lack allowed addresses when more of them follow.\<close>

inductive cover :: "wgpeer list \<Rightarrow> wgallowedip list \<Rightarrow> fragment list \<Rightarrow> wgpeer list \<Rightarrow> wgallowedip list \<Rightarrow> bool" where
  cover_stop: "cover ps as [] ps as"
| cover_whole: "as \<noteq> [] \<longrightarrow> allowedips p \<noteq> [] \<Longrightarrow> cover ps [] fs ps' as' \<Longrightarrow> cover (p # ps) as (whole p as # fs) ps' as'"
| cover_part: "k < length (pending p as) \<Longrightarrow> as \<noteq> [] \<longrightarrow> 0 < k \<Longrightarrow> ips = Some (take k (pending p as)) \<or> ips = None \<and> k = 0 \<Longrightarrow>
     cover (p # ps) (drop k (pending p as)) fs ps' as' \<Longrightarrow> cover (p # ps) as (Fragment p (as = []) ips # fs) ps' as'"

lemma cover_trans: "cover ps as fs ps1 as1 \<Longrightarrow> cover ps1 as1 gs ps2 as2 \<Longrightarrow> cover ps as (fs @ gs) ps2 as2"
  by (induction rule: cover.induct) (auto intro: cover.intros)

definition cursor_ok :: "wgpeer list \<Rightarrow> wgallowedip list \<Rightarrow> bool" where
  "cursor_ok ps as \<longleftrightarrow> list_all peer_wf ps \<and> list_all allowedip_wf as \<and> (as \<noteq> [] \<longrightarrow> ps \<noteq> [] \<and> allowedips (hd ps) \<noteq> [])"

text \<open>A bound of the number of fragments.\<close>

definition weight :: "wgpeer list \<Rightarrow> wgallowedip list \<Rightarrow> nat" where
  "weight ps as = (case ps of [] \<Rightarrow> 0 | p # ps \<Rightarrow>
     (if as = [] then length (allowedips p) + 2 else length as + 1) + sum_list (map (\<lambda>p. length (allowedips p) + 2) ps))"

lemma weight_Nil: "weight ps [] = sum_list (map (\<lambda>p. length (allowedips p) + 2) ps)"
  by (cases ps) (simp_all add: weight_def)

lemma cover_weight: "cover ps as fs ps' as' \<Longrightarrow> weight ps' as' + length fs \<le> weight ps as"
proof (induction rule: cover.induct)
  case (cover_whole as p ps fs ps' as')
  then show ?case
    unfolding weight_Nil by (simp add: weight_def)
next
  case (cover_part k p as ips ps fs ps' as')
  then have "weight (p # ps) (drop k (pending p as)) + 1 \<le> weight (p # ps) as"
    by (auto simp: weight_def pending_def)
  then show ?case
    using cover_part.IH by simp
qed simp

lemma fragment_room:
  assumes "peer_wf p" and "nlmsg_len_of m + 176 \<le> bufsize"
  shows "peer_size m p as + 44 \<le> bufsize"
  using length_peer_attrs [OF assms(1), of "as = []"] assms(2) by (auto simp: peer_size_def split: if_splits)

lemma put_peer_cases:
  assumes "peer_wf p" and "list_all allowedip_wf as" and "as \<noteq> [] \<longrightarrow> allowedips p \<noteq> []"
    and "nlmsg_len_of m \<le> bufsize" and "as \<noteq> [] \<longrightarrow> nlmsg_len_of m + 176 \<le> bufsize"
  obtains (none) "put_peer bufsize m p as = Toobig_peers m" and "bufsize < nlmsg_len_of m + 176"
  | (all) "put_peer bufsize m p as = Put (add m [fragment_attr (whole p as)])"
      and "nlmsg_len_of (add m [fragment_attr (whole p as)]) \<le> bufsize"
  | (part) k ips where "put_peer bufsize m p as = Toobig_allowedips (add m [fragment_attr (Fragment p (as = []) ips)]) (drop k (pending p as))"
      and "nlmsg_len_of (add m [fragment_attr (Fragment p (as = []) ips)]) \<le> bufsize"
      and "k < length (pending p as)" and "as \<noteq> [] \<longrightarrow> 0 < k" and "ips = Some (take k (pending p as)) \<or> ips = None \<and> k = 0"
proof -
  note room = fragment_room [OF assms(1), of m bufsize as]
  have small: "nlmsg_len_of (add m [fragment_attr (Fragment p (as = []) None)]) \<le> bufsize" if "peer_size m p as \<le> bufsize"
    unfolding fragment_len using that by (simp add: ips_attr_def)
  consider (big) "bufsize < peer_size m p as" | (empty) "allowedips p = []" "peer_size m p as \<le> bufsize"
    | (nest) "allowedips p \<noteq> []" "bufsize < peer_size m p as + 4" "peer_size m p as \<le> bufsize"
    | (ips) "allowedips p \<noteq> []" "peer_size m p as + 4 \<le> bufsize"
    by linarith
  then show ?thesis
  proof cases
    case big
    then have "bufsize < nlmsg_len_of m + 176"
      using room by linarith
    then show ?thesis
      using none put_peer_toobig [OF assms(1,4) big] by blast
  next
    case empty
    then have w: "whole p as = Fragment p (as = []) None" and r: "put_peer bufsize m p as = Put (add m [fragment_attr (Fragment p (as = []) None)])"
      using put_peer_no_ips [OF assms(1), of m as bufsize] by (simp_all add: whole_def)
    show ?thesis
      using all r small [OF empty(2)] unfolding w by blast
  next
    case nest
    then have "as = []"
      using assms(5) room by linarith
    have "put_peer bufsize m p as = Toobig_allowedips (add m [fragment_attr (Fragment p (as = []) None)]) (drop 0 (pending p as))"
      using put_peer_no_ips [OF assms(1), of m as bufsize] nest by simp
    then show ?thesis
      by (rule part [OF _ small [OF nest(3)]]) (use nest(1) \<open>as = []\<close> in \<open>simp_all add: pending_def\<close>)
  next
    case ips
    obtain k where k: "k \<le> length (pending p as)" "k = 0 \<longrightarrow> bufsize < peer_size m p as + 44"
      "nlmsg_len_of (add m [fragment_attr (Fragment p (as = []) (Some (take k (pending p as))))]) \<le> bufsize"
      "put_peer bufsize m p as = (if k = length (pending p as) then Put else (\<lambda>m. Toobig_allowedips m (drop k (pending p as))))
        (add m [fragment_attr (Fragment p (as = []) (Some (take k (pending p as))))])"
      by (rule put_peer_ips [OF assms(1,2) ips])
    have "k = length (pending p as) \<Longrightarrow> whole p as = Fragment p (as = []) (Some (take k (pending p as)))" "as \<noteq> [] \<longrightarrow> 0 < k"
      using k(2) assms(5) room ips(1) by (auto simp: whole_def)
    then show ?thesis
      using k(1,3,4) all part [of "Some (take k (pending p as))" k] by (cases "k = length (pending p as)") simp_all
  qed
qed

lemma put_peers_cover:
  assumes "cursor_ok ps as" and "nlmsg_len_of m \<le> bufsize" and "as \<noteq> [] \<longrightarrow> nlmsg_len_of m + 176 \<le> bufsize"
    and "put_peers bufsize m as ps = (m', ps', as')"
  shows "\<exists>fs. cover ps as fs ps' as' \<and> m' = add m (map fragment_attr fs) \<and> nlmsg_len_of m' \<le> bufsize \<and> cursor_ok ps' as' \<and>
     (ps \<noteq> [] \<longrightarrow> nlmsg_len_of m + 176 \<le> bufsize \<longrightarrow> fs \<noteq> [])"
  using assms
proof (induction ps arbitrary: m as)
  case Nil
  then show ?case
    by (intro exI [of _ "[]"]) (auto simp: cover_stop)
next
  case (Cons p ps)
  have p: "peer_wf p" "list_all allowedip_wf as" "as \<noteq> [] \<longrightarrow> allowedips p \<noteq> []" "list_all peer_wf ps"
    using Cons.prems(1) by (auto simp: cursor_ok_def)
  show ?case
  proof (rule put_peer_cases [OF p(1-3) Cons.prems(2,3)])
    assume "put_peer bufsize m p as = Toobig_peers m" "bufsize < nlmsg_len_of m + 176"
    then show ?thesis
      using Cons.prems by (intro exI [of _ "[]"]) (auto simp: cover_stop)
  next
    let ?m1 = "add m [fragment_attr (whole p as)]"
    assume t: "put_peer bufsize m p as = Put ?m1" "nlmsg_len_of ?m1 \<le> bufsize"
    have "put_peers bufsize ?m1 [] ps = (m', ps', as')" "cursor_ok ps []"
      using Cons.prems(4) t(1) p(4) by (simp_all add: cursor_ok_def)
    then obtain fs where "cover ps [] fs ps' as'" "m' = add ?m1 (map fragment_attr fs)" "nlmsg_len_of m' \<le> bufsize" "cursor_ok ps' as'"
      using Cons.IH [OF _ t(2)] by blast
    then show ?thesis
      using p(3) by (intro exI [of _ "whole p as # fs"]) (auto intro: cover_whole)
  next
    fix k ips
    assume t: "put_peer bufsize m p as = Toobig_allowedips (add m [fragment_attr (Fragment p (as = []) ips)]) (drop k (pending p as))"
      "nlmsg_len_of (add m [fragment_attr (Fragment p (as = []) ips)]) \<le> bufsize"
      "k < length (pending p as)" "as \<noteq> [] \<longrightarrow> 0 < k" "ips = Some (take k (pending p as)) \<or> ips = None \<and> k = 0"
    have "list_all allowedip_wf (drop k (pending p as))" "allowedips p \<noteq> []"
      using p t(3) by (auto simp: pending_def peer_wf_def list_all_iff dest: in_set_dropD split: if_splits)
    then show ?thesis
      using t Cons.prems(1,4)
      by (intro exI [of _ "[Fragment p (as = []) ips]"]) (auto simp: cursor_ok_def intro!: cover_part cover_stop)
  qed
qed

subsection \<open>Reading attributes\<close>

lemma hears_cases:
  assumes "length data < 65532" and "map_of cs (t AND NLA_TYPE_MASK) = Some f"
    and "\<And>mem e d. \<exists>e'. f (attr_bytes t data @ mem) (e, d) = Some (MNL_CB_OK, e', g d)"
  shows "hears (cb_cases cs) (Attr t data) g"
proof -
  have "mnl_attr_get_type (enc (Attr t data) @ mem) = t AND NLA_TYPE_MASK" for mem
    using assms(1) by (simp add: attr_header)
  then show ?thesis
    unfolding hears_def cb_cases_def using assms(2,3) by simp
qed

lemma hears_cases_nested:
  assumes "list_all2 (hears cb) as gs" and "length (encs as) < 65532"
    and "map_of cs (t AND NLA_TYPE_MASK) = Some (\<lambda>attr. mnl_attr_parse_nested attr cb)"
  shows "hears (cb_cases cs) (Nest t as) (fold (\<lambda>g. g) gs)"
proof -
  have "mnl_attr_get_type (enc (Nest t as) @ mem) = t AND NLA_TYPE_MASK" for mem
    using attr_type [of "Nest t as"] assms(2) by (simp only: length_nest) simp
  then show ?thesis
    unfolding hears_def cb_cases_def using assms(3) parse_nested_encs [OF assms(1,2), of t] by (simp only: option.case) simp
qed

lemma hears_opt: "(c \<Longrightarrow> hears cb (Attr t data) g) \<Longrightarrow> list_all2 (hears cb) (opt_attr c t data) (if c then [g] else [])"
  by (simp add: opt_attr_def)

lemma fold_opt [simp]: "fold (\<lambda>g. g) (if c then [g] else []) d = (if c then g d else d)"
  by simp

lemma if_len_attr:
  assumes "length data < 65532"
  shows "if_len (attr_bytes t data @ mem) n f (e, d) = Some (MNL_CB_OK, e, if length data = n then f d else d)"
  using assms by (simp add: if_len_def attr_header)

lemma payload_attr:
  assumes "length data < 65532" and "n = length data"
  shows "take n (mnl_attr_get_payload (attr_bytes t data @ mem)) = data"
  using assms by (simp add: attr_header)

lemma validate_attr:
  assumes "length data < 65532" and "mnl_attr_data_type_len type \<noteq> 0"
  shows "mnl_attr_validate (attr_bytes t data @ mem) type = (if length data = mnl_attr_data_type_len type then None else Some ERANGE)"
  using assms by (cases type) (auto simp: mnl_attr_validate_def mnl_attr_validate_len_def Let_def attr_header not_less le_Suc_eq)

lemma validate_flag: "mnl_attr_validate (attr_bytes t [] @ mem) MNL_TYPE_FLAG = None"
  by (simp add: mnl_attr_validate_def mnl_attr_validate_len_def Let_def attr_header)

lemma get_stored:
  "mnl_attr_get_u8 (attr_bytes t [a] @ mem) = a" "mnl_attr_get_u16 (attr_bytes t (store 2 b) @ mem) = b"
  "mnl_attr_get_u32 (attr_bytes t (store 4 c) @ mem) = c"
  unfolding mnl_attr_get_u8_def mnl_attr_get_u16_def mnl_attr_get_u32_def load_at_0
  by (subst payload_attr; simp; fail)+

lemma if_valid_stored:
  "if_valid (attr_bytes t [a] @ mem) MNL_TYPE_U8 f (e, d) = Some (MNL_CB_OK, e, f d)"
  "if_valid (attr_bytes t (store 2 b) @ mem) MNL_TYPE_U16 f (e, d) = Some (MNL_CB_OK, e, f d)"
  "if_valid (attr_bytes t (store 4 c) @ mem) MNL_TYPE_U32 f (e, d) = Some (MNL_CB_OK, e, f d)"
  "if_valid (attr_bytes t [] @ mem) MNL_TYPE_FLAG f (e, d) = Some (MNL_CB_OK, e, f d)"
  by (simp_all add: if_valid_def validate_attr validate_flag)

lemmas attr_reads = if_len_attr payload_attr if_valid_stored get_stored attr_header

subsection \<open>Reading peers\<close>

definition received_allowedip :: "wgallowedip \<Rightarrow> wgallowedip" where
  "received_allowedip a = \<lparr>family = family a, ip = (if family a = AF_INET then take 4 (ip a) @ replicate 12 0 else ip a), cidr = cidr a\<rparr>"

lemma hears_allowedip:
  assumes "allowedip_wf a"
  shows "hears nl_parse_allowedips (allowedip_attr a) (\<lambda>p. p\<lparr>allowedips := allowedips p @ [received_allowedip a]\<rparr>)"
proof -
  let ?gs = "[\<lambda>b. b\<lparr>family := family a\<rparr>, \<lambda>b. b\<lparr>ip := (if family a = AF_INET then ip4 a @ drop 4 (ip b) else ip6 a)\<rparr>, \<lambda>b. b\<lparr>cidr := cidr a\<rparr>]"
  let ?as = "[Attr WGALLOWEDIP_A_FAMILY (store 2 (family a)), Attr WGALLOWEDIP_A_IPADDR (if family a = AF_INET then ip4 a else ip6 a),
    Attr WGALLOWEDIP_A_CIDR_MASK (store 1 (cidr a))]"
  have f: "family a = AF_INET \<or> family a = AF_INET6" and l: "length (ip4 a) = 4" "length (ip6 a) = 16"
    using assms by (auto simp: allowedip_wf_def ip4_def ip6_def)
  have e: "allowedip_attr a = Nest 0 ?as"
    using f by (auto simp: allowedip_attr_def)
  have h: "list_all2 (hears nl_parse_allowedip) ?as ?gs"
    using l by (auto simp: nl_parse_allowedip_def attr_reads intro!: hears_cases)
  have "length (encs ?as) < 65532"
    using l by (simp add: length_attr_bytes MNL_ALIGN_def)
  moreover have "fold (\<lambda>g. g) ?gs zero_allowedip = received_allowedip a"
    using f by (auto simp: received_allowedip_def zero_allowedip_def ip4_def ip6_def)
  ultimately have p: "\<exists>e'. mnl_attr_parse_nested (enc (allowedip_attr a) @ mem) nl_parse_allowedip (e, zero_allowedip)
      = Some (MNL_CB_OK, e', received_allowedip a)" for mem e
    unfolding e using parse_nested_encs [OF h, where t = 0 and d = zero_allowedip and mem = mem and e = e] by (simp only:)
  show ?thesis
    unfolding hears_def
  proof (intro allI)
    fix mem e and d :: wgpeer
    obtain e' where "mnl_attr_parse_nested (enc (allowedip_attr a) @ mem) nl_parse_allowedip (e, zero_allowedip)
        = Some (MNL_CB_OK, e', received_allowedip a)"
      using p by blast
    then show "\<exists>e'. nl_parse_allowedips (enc (allowedip_attr a) @ mem) (e, d)
        = Some (MNL_CB_OK, e', d\<lparr>allowedips := allowedips d @ [received_allowedip a]\<rparr>)"
      using assms by (auto simp: nl_parse_allowedips_def cb_codes received_allowedip_def allowedip_wf_def)
  qed
qed

text \<open>The peer the reader builds from a fragment.\<close>

fun received_part :: "fragment \<Rightarrow> wgpeer" where
  "received_part (Fragment p fresh ips) = zero_peer\<lparr>
     flags := WGPEER_HAS_PUBLIC_KEY OR
       (if fresh \<and> flags p AND WGPEER_HAS_PRESHARED_KEY \<noteq> 0 \<and> \<not> key_is_zero (preshared_key p) then WGPEER_HAS_PRESHARED_KEY else 0) OR
       (if flags p AND WGPEER_HAS_AWG \<noteq> 0 then WGPEER_HAS_AWG else 0),
     public_key := public_key p,
     preshared_key := if fresh \<and> flags p AND WGPEER_HAS_PRESHARED_KEY \<noteq> 0 then preshared_key p else replicate WG_KEY_LEN 0,
     endpoint := if fresh then endpoint p else SA_UNSPEC,
     persistent_keepalive_interval :=
       if fresh \<and> flags p AND WGPEER_HAS_PERSISTENT_KEEPALIVE_INTERVAL \<noteq> 0 then persistent_keepalive_interval p else 0,
     awg := flags p AND WGPEER_HAS_AWG \<noteq> 0 \<and> awg p,
     allowedips := (case ips of None \<Rightarrow> [] | Some as \<Rightarrow> map received_allowedip as)\<rparr>"

lemma hears_endpoint:
  assumes "sockaddr_wf a" and "a \<noteq> SA_UNSPEC"
  shows "nl_parse_endpoint (attr_bytes t (sockaddr_bytes a) @ mem) (e, d) = Some (MNL_CB_OK, e, d\<lparr>endpoint := a\<rparr>)"
proof (cases a)
  case (SA_IN addr port)
  let ?b = "sockaddr_bytes a"
  have l: "length ?b = 16" "?b = store 2 AF_INET @ rev (store 2 port) @ addr @ replicate 8 0" "length addr = 4"
    using assms SA_IN by simp_all
  have "load_sockaddr_in (?b @ mem) = a" "load (take 2 (?b @ mem)) = AF_INET" for mem
    unfolding l(2) load_sockaddr_in_def using l(3) SA_IN by simp_all
  then show ?thesis
    using l(1) by (simp add: nl_parse_endpoint_def Let_def attr_header)
next
  case (SA_IN6 addr port flow scope)
  let ?b = "sockaddr_bytes a"
  have l: "length ?b = 28" "?b = store 2 AF_INET6 @ rev (store 2 port) @ store 4 flow @ addr @ store 4 scope" "length addr = 16"
    using assms SA_IN6 by simp_all
  have "load_sockaddr_in6 (?b @ mem) = a" "load (take 2 (?b @ mem)) = AF_INET6" for mem
    unfolding l(2) load_sockaddr_in6_def using l(3) SA_IN6 by (simp_all add: load_at_def)
  then show ?thesis
    using l(1) by (simp add: nl_parse_endpoint_def Let_def attr_header)
qed (use assms in simp)

lemma length_allowedip_attrs:
  assumes "list_all allowedip_wf as"
  shows "length (encs (map allowedip_attr as)) \<le> 40 * length as"
  using assms
proof (induction as)
  case (Cons a as)
  then show ?case
    using length_allowedip_attr [of a] by auto
qed simp

text \<open>The effects of the attributes of a peer, in the order of \<open>peer_attrs\<close>.\<close>

definition peer_effects :: "wgpeer \<Rightarrow> bool \<Rightarrow> (wgpeer \<Rightarrow> wgpeer) list" where
  "peer_effects p fresh = concat
     [[\<lambda>q. q\<lparr>public_key := public_key p, flags := flags q OR WGPEER_HAS_PUBLIC_KEY\<rparr>],
      if fresh \<and> flags p AND WGPEER_HAS_PRESHARED_KEY \<noteq> 0
      then [\<lambda>q. q\<lparr>preshared_key := preshared_key p, flags := flags q OR (if key_is_zero (preshared_key p) then 0 else WGPEER_HAS_PRESHARED_KEY)\<rparr>] else [],
      if fresh \<and> endpoint p \<noteq> SA_UNSPEC then [\<lambda>q. q\<lparr>endpoint := endpoint p\<rparr>] else [],
      if fresh \<and> flags p AND WGPEER_HAS_PERSISTENT_KEEPALIVE_INTERVAL \<noteq> 0
      then [\<lambda>q. q\<lparr>persistent_keepalive_interval := persistent_keepalive_interval p\<rparr>] else [],
      if flags p AND WGPEER_HAS_AWG \<noteq> 0 \<and> awg p then [\<lambda>q. q\<lparr>awg := True, flags := flags q OR WGPEER_HAS_AWG\<rparr>] else [],
      if peer_flag_bits p fresh \<noteq> 0
      then [\<lambda>q. if peer_flag_bits p fresh AND WGPEER_F_HAS_AWG \<noteq> 0 \<and> flags q AND WGPEER_HAS_AWG = 0
                then q\<lparr>flags := flags q OR WGPEER_HAS_AWG, awg := False\<rparr> else q] else []]"

lemma hears_peer_attrs:
  assumes "peer_wf p"
  shows "list_all2 (hears nl_parse_peer) (peer_attrs p fresh) (peer_effects p fresh)"
proof -
  have l: "length (public_key p) = WG_KEY_LEN" "length (preshared_key p) = WG_KEY_LEN" "sockaddr_wf (endpoint p)" "WG_KEY_LEN < 65532"
    "length (sockaddr_bytes (endpoint p)) < 65532"
    using assms length_sockaddr_bytes [of "endpoint p"] by (auto simp: peer_wf_def WG_KEY_LEN_def)
  show ?thesis
    unfolding peer_attrs_def peer_effects_def concat.simps append_Nil2
    by (intro list_all2_appendI list_all2_Cons [THEN iffD2] conjI list_all2_Nil [THEN iffD2] hears_opt)
      (use l in \<open>auto simp: nl_parse_peer_def attr_reads hears_endpoint Let_def intro!: hears_cases\<close>)
qed

lemma peer_flag_bits_awg: "peer_flag_bits p fresh AND WGPEER_F_HAS_AWG \<noteq> 0 \<longleftrightarrow> flags p AND WGPEER_HAS_AWG \<noteq> 0"
  by (simp add: peer_flag_bits_def)

lemma peer_flags_disjoint:
  "WGPEER_HAS_AWG AND WGPEER_HAS_AWG = WGPEER_HAS_AWG" "WGPEER_HAS_AWG \<noteq> 0"
  "WGPEER_HAS_PUBLIC_KEY AND WGPEER_HAS_AWG = 0" "WGPEER_HAS_PRESHARED_KEY AND WGPEER_HAS_AWG = 0"
  by (simp_all add: peer_flag_defs)

lemma fold_peer_effects: "fold (\<lambda>g. g) (peer_effects p fresh) zero_peer = received_part (Fragment p fresh None)"
proof -
  have "flags p AND WGPEER_HAS_AWG \<noteq> 0 \<Longrightarrow> peer_flag_bits p fresh \<noteq> 0"
    by (auto simp: peer_flag_bits_def or_eq_0_iff)
  then show ?thesis
    using peer_flag_bits_awg [of p fresh]
    by (cases fresh) (auto simp: peer_effects_def zero_peer_def peer_flags_disjoint bit.conj_disj_distrib2 or.assoc)
qed

lemma fold_allowedips:
  "fold (\<lambda>g. g) (map (\<lambda>a p. p\<lparr>allowedips := allowedips p @ [received_allowedip a]\<rparr>) as) p
   = p\<lparr>allowedips := allowedips p @ map received_allowedip as\<rparr>"
  by (induction as arbitrary: p) simp_all

lemma hears_fragment:
  assumes "peer_wf (fr_peer f)" and "list_all allowedip_wf (case fr_ips f of None \<Rightarrow> [] | Some as \<Rightarrow> as)" and "length (enc (fragment_attr f)) < 65536"
  shows "hears nl_parse_peers (fragment_attr f) (\<lambda>d. d\<lparr>peers := peers d @ [received_part f]\<rparr>)"
proof (cases f)
  case (Fragment p fresh ips)
  let ?as = "peer_attrs p fresh @ ips_attr ips"
  let ?g = "\<lambda>as. fold (\<lambda>g. g) (map (\<lambda>a p. p\<lparr>allowedips := allowedips p @ [received_allowedip a]\<rparr>) as)"
  let ?gs = "peer_effects p fresh @ (case ips of None \<Rightarrow> [] | Some as \<Rightarrow> [?g as])"
  have e: "fragment_attr f = Nest 0 ?as" and l: "length (encs ?as) < 65532"
    using assms(3) Fragment by (simp_all add: length_attr_bytes MNL_ALIGN_id length_enc)
  have "hears nl_parse_peer (Nest WGPEER_A_ALLOWEDIPS (map allowedip_attr as)) (?g as)" if "ips = Some as" for as
    unfolding nl_parse_peer_def
  proof (rule hears_cases_nested)
    show "list_all2 (hears nl_parse_allowedips) (map allowedip_attr as) (map (\<lambda>a p. p\<lparr>allowedips := allowedips p @ [received_allowedip a]\<rparr>) as)"
      using assms(2) that Fragment by (auto simp: list_all2_map1 list_all2_map2 list_all_iff intro!: list_all2_same [THEN iffD2] hears_allowedip)
    show "length (encs (map allowedip_attr as)) < 65532"
      using l that by (simp add: ips_attr_def length_attr_bytes MNL_ALIGN_id length_enc)
  qed simp
  then have h: "list_all2 (hears nl_parse_peer) ?as ?gs"
    using hears_peer_attrs assms(1) Fragment by (auto simp: ips_attr_def intro!: list_all2_appendI split: option.split)
  have v: "fold (\<lambda>g. g) ?gs zero_peer = received_part f"
    by (cases ips) (simp_all add: Fragment fold_peer_effects fold_allowedips del: received_part.simps, simp_all)
  show ?thesis
    unfolding hears_def
  proof (intro allI)
    fix mem e and d :: wgdevice
    obtain e' where "mnl_attr_parse_nested (enc (fragment_attr f) @ mem) nl_parse_peer (e, zero_peer) = Some (MNL_CB_OK, e', received_part f)"
      using parse_nested_encs [OF h l, where t = 0 and d = zero_peer and mem = mem and e = e] unfolding e v by blast
    moreover have "flags (received_part f) AND WGPEER_HAS_PUBLIC_KEY \<noteq> 0"
      by (simp add: Fragment c_flags bit.conj_disj_distrib2)
    ultimately show "\<exists>e'. nl_parse_peers (enc (fragment_attr f) @ mem) (e, d) = Some (MNL_CB_OK, e', d\<lparr>peers := peers d @ [received_part f]\<rparr>)"
      by (auto simp: nl_parse_peers_def cb_codes)
  qed
qed

subsection \<open>Merging the parts\<close>

definition received_peer :: "wgpeer \<Rightarrow> wgpeer" where
  "received_peer p = received_part (Fragment p True (Some (allowedips p)))"

definition coalesce_list :: "wgpeer list \<Rightarrow> wgpeer list option" where
  "coalesce_list ps = (case ps of [] \<Rightarrow> Some [] | p # _ \<Rightarrow> coalesce_from (allowedips p = []) ps)"

lemma coalesce_peers_list: "coalesce_peers d = map_option (\<lambda>ps. d\<lparr>peers := ps\<rparr>) (coalesce_list (peers d))"
  by (simp add: coalesce_peers_def coalesce_list_def split: list.split)

lemma received_part_fields [simp]:
  "public_key (received_part f) = public_key (fr_peer f)"
  "allowedips (received_part f) = (case fr_ips f of None \<Rightarrow> [] | Some as \<Rightarrow> map received_allowedip as)"
  by (cases f; simp)+

lemma received_part_ips: "(received_part (Fragment p fresh ips))\<lparr>allowedips := map received_allowedip as\<rparr> = received_part (Fragment p fresh (Some as))"
  by simp

lemma cover_first: "cover ps as (f # fs) ps' as' \<Longrightarrow> ps \<noteq> [] \<and> fr_peer f = hd ps"
  by (erule cover.cases) (auto simp: whole_def)

lemma coalesce_next:
  assumes "cover ps [] fs [] []" and "coalesce_list (map received_part fs) = Some rs" and "ps \<noteq> [] \<Longrightarrow> public_key q \<noteq> public_key (hd ps)"
  shows "coalesce_from b (q # map received_part fs) = Some (q # rs)"
proof (cases fs)
  case Nil
  then show ?thesis
    using assms(2) by (simp add: coalesce_list_def)
next
  case (Cons f fs')
  then show ?thesis
    using assms cover_first [of ps "[]" f fs'] by (simp add: coalesce_list_def)
qed

lemma cover_coalesce:
  assumes "cover ps as fs [] []" and "distinct_adj (map public_key ps)"
  shows "as = [] \<Longrightarrow> coalesce_list (map received_part fs) = Some (map received_peer ps)"
    and "as \<noteq> [] \<Longrightarrow> ps \<noteq> [] \<Longrightarrow> public_key q = public_key (hd ps) \<Longrightarrow> coalesce_from (allowedips q = []) (q # map received_part fs)
       = Some (q\<lparr>allowedips := allowedips q @ map received_allowedip as\<rparr> # map received_peer (tl ps))"
  using assms
proof (induction ps as fs "[] :: wgpeer list" "[] :: wgallowedip list" arbitrary: q rule: cover.induct)
  case cover_stop
  case 1
  then show ?case
    by (simp add: coalesce_list_def)
next
  case cover_stop
  case 2
  then show ?case
    by simp
next
  case (cover_whole as p ps fs)
  have d: "distinct_adj (map public_key ps)" "ps \<noteq> [] \<Longrightarrow> public_key p \<noteq> public_key (hd ps)" if "distinct_adj (map public_key (p # ps))"
    using that by (cases ps; simp)+
  case 1
  then have n: "coalesce_from b (q # map received_part fs) = Some (q # map received_peer ps)" if "public_key q = public_key p" for b q
    using d cover_whole that by (intro coalesce_next) auto
  have "received_part (whole p []) = received_peer p"
    by (simp add: whole_def received_peer_def pending_def)
  then show ?case
    using 1 n [of "received_peer p"] by (simp add: coalesce_list_def received_peer_def del: received_part.simps)
next
  case (cover_whole as p ps fs)
  have d: "distinct_adj (map public_key ps)" "ps \<noteq> [] \<Longrightarrow> public_key p \<noteq> public_key (hd ps)" if "distinct_adj (map public_key (p # ps))"
    using that by (cases ps; simp)+
  case 2
  then have n: "coalesce_from b (q # map received_part fs) = Some (q # map received_peer ps)" if "public_key q = public_key p" for b q
    using d cover_whole that by (intro coalesce_next) auto
  have w: "allowedips (received_part (whole p as)) = map received_allowedip as" "public_key (received_part (whole p as)) = public_key p"
    using 2(1) cover_whole.hyps(1) by (simp_all add: whole_def pending_def)
  then show ?case
    using 2 n [of "q\<lparr>allowedips := allowedips q @ map received_allowedip as\<rparr>"] by (cases "allowedips q = []") simp_all
next
  case (cover_part k p as ips ps fs)
  have r: "allowedips (received_part (Fragment p b ips)) = map received_allowedip (take k (pending p as))" for b
    using cover_part.hyps(3) by auto
  case 1
  let ?x = "received_part (Fragment p True ips)"
  have "?x\<lparr>allowedips := map received_allowedip (pending p as)\<rparr> = received_peer p"
    using 1 by (simp add: received_peer_def pending_def)
  moreover have "map received_allowedip (take k (pending p as)) @ map received_allowedip (drop k (pending p as)) = map received_allowedip (pending p as)"
    by (simp add: map_append [symmetric] del: map_append)
  ultimately show ?case
    using 1 cover_part.hyps(1) cover_part.hyps(6) [of ?x] r [of True] by (simp add: coalesce_list_def del: received_part.simps map_append)
next
  case (cover_part k p as ips ps fs)
  have r: "allowedips (received_part (Fragment p b ips)) = map received_allowedip (take k (pending p as))" for b
    using cover_part.hyps(3) by auto
  case 2
  let ?x = "received_part (Fragment p False ips)" and ?q = "q\<lparr>allowedips := allowedips q @ map received_allowedip (take k as)\<rparr>"
  have p: "pending p as = as" "take k as \<noteq> []" "drop k as \<noteq> []"
    using 2(1) cover_part.hyps(1,2) by (auto simp: pending_def)
  have "map received_allowedip (take k as) @ map received_allowedip (drop k as) = map received_allowedip as"
    by (simp add: map_append [symmetric] del: map_append)
  then show ?case
    using 2 p cover_part.hyps(6) [of ?q] r [of False]
    by (cases "allowedips q = []") (simp_all del: received_part.simps map_append)
qed

subsection \<open>The attributes of a device\<close>

definition str_bytes :: "string option \<Rightarrow> u8 list" where
  "str_bytes v = map u8_of_char (the v) @ [0]"

definition header_bytes :: "u8 \<Rightarrow> string option \<Rightarrow> u8 list" where
  "header_bytes version v = (if version \<ge> 2 then str_bytes v else store 4 (ucast (fst (strtoul 10 (the v))) :: u32))"

definition device_entries :: "u8 \<Rightarrow> wgdevice \<Rightarrow> (u32 \<times> u16 \<times> u8 list) list" where
  "device_entries version d =
     [(WGDEVICE_HAS_PRIVATE_KEY, WGDEVICE_A_PRIVATE_KEY, private_key d),
      (WGDEVICE_HAS_LISTEN_PORT, WGDEVICE_A_LISTEN_PORT, store 2 (listen_port d)),
      (WGDEVICE_HAS_JC, WGDEVICE_A_JC, store 2 (junk_packet_count d)),
      (WGDEVICE_HAS_JMIN, WGDEVICE_A_JMIN, store 2 (junk_packet_min_size d)),
      (WGDEVICE_HAS_JMAX, WGDEVICE_A_JMAX, store 2 (junk_packet_max_size d)),
      (WGDEVICE_HAS_S1, WGDEVICE_A_S1, store 2 (init_packet_junk_size d)),
      (WGDEVICE_HAS_S2, WGDEVICE_A_S2, store 2 (response_packet_junk_size d)),
      (WGDEVICE_HAS_S3, WGDEVICE_A_S3, store 2 (cookie_reply_packet_junk_size d)),
      (WGDEVICE_HAS_S4, WGDEVICE_A_S4, store 2 (transport_packet_junk_size d)),
      (WGDEVICE_HAS_H1, WGDEVICE_A_H1, header_bytes version (init_packet_magic_header d)),
      (WGDEVICE_HAS_H2, WGDEVICE_A_H2, header_bytes version (response_packet_magic_header d)),
      (WGDEVICE_HAS_H3, WGDEVICE_A_H3, header_bytes version (underload_packet_magic_header d)),
      (WGDEVICE_HAS_H4, WGDEVICE_A_H4, header_bytes version (transport_packet_magic_header d)),
      (WGDEVICE_HAS_I1, WGDEVICE_A_I1, str_bytes (i1 d)),
      (WGDEVICE_HAS_I2, WGDEVICE_A_I2, str_bytes (i2 d)),
      (WGDEVICE_HAS_I3, WGDEVICE_A_I3, str_bytes (i3 d)),
      (WGDEVICE_HAS_I4, WGDEVICE_A_I4, str_bytes (i4 d)),
      (WGDEVICE_HAS_I5, WGDEVICE_A_I5, str_bytes (i5 d)),
      (WGDEVICE_HAS_FWMARK, WGDEVICE_A_FWMARK, store 4 (fwmark d)),
      (WGDEVICE_REPLACE_PEERS, WGDEVICE_A_FLAGS, store 4 WGDEVICE_F_REPLACE_PEERS)]"

definition device_attrs :: "u8 \<Rightarrow> wgdevice \<Rightarrow> nlattr list" where
  "device_attrs version d = concat (map (\<lambda>(bits, t, data). opt_attr (dev_flags d AND bits \<noteq> 0) t data) (device_entries version d))"

text \<open>A string that may be put: one that is flagged is there, and its length fits an attribute.\<close>

definition puttable :: "u32 \<Rightarrow> u32 \<Rightarrow> string option \<Rightarrow> bool" where
  "puttable fl bits v \<longleftrightarrow> (fl AND bits \<noteq> 0 \<longrightarrow> (\<exists>s. v = Some s \<and> length s < MAX_AWG_STRING_LEN))"

lemma when_put:
  "length data < 65532 \<Longrightarrow> when_flag fl bits (\<lambda>m. Some (mnl_attr_put m t data)) m = Some (add m (opt_attr (fl AND bits \<noteq> 0) t data))"
  "when_flag fl bits (\<lambda>m. Some (mnl_attr_put_u16 m t a)) m = Some (add m (opt_attr (fl AND bits \<noteq> 0) t (store 2 a)))"
  "when_flag fl bits (\<lambda>m. Some (mnl_attr_put_u32 m t b)) m = Some (add m (opt_attr (fl AND bits \<noteq> 0) t (store 4 b)))"
  "puttable fl bits v \<Longrightarrow> when_flag fl bits (put_str t v) m = Some (add m (opt_attr (fl AND bits \<noteq> 0) t (str_bytes v)))"
  "puttable fl bits v \<Longrightarrow> when_flag fl bits (put_magic_header_attr version t v) m = Some (add m (opt_attr (fl AND bits \<noteq> 0) t (header_bytes version v)))"
  by (auto simp: when_flag_def opt_attr_def mnl_attr_put_u16_def mnl_attr_put_u32_def mnl_attr_put_add put_str_def
      put_magic_header_attr_def header_bytes_def str_bytes_def mnl_attr_put_strz_def puttable_def MAX_AWG_STRING_LEN_def)

lemma strings_wf_puttable:
  assumes "strings_wf d"
  shows "puttable (dev_flags d) WGDEVICE_HAS_H1 (init_packet_magic_header d)" "puttable (dev_flags d) WGDEVICE_HAS_H2 (response_packet_magic_header d)"
    "puttable (dev_flags d) WGDEVICE_HAS_H3 (underload_packet_magic_header d)" "puttable (dev_flags d) WGDEVICE_HAS_H4 (transport_packet_magic_header d)"
    "puttable (dev_flags d) WGDEVICE_HAS_I1 (i1 d)" "puttable (dev_flags d) WGDEVICE_HAS_I2 (i2 d)" "puttable (dev_flags d) WGDEVICE_HAS_I3 (i3 d)"
    "puttable (dev_flags d) WGDEVICE_HAS_I4 (i4 d)" "puttable (dev_flags d) WGDEVICE_HAS_I5 (i5 d)"
  using assms unfolding puttable_def device_flag_defs
  by (simp_all only: flag_test strings_wf_def string_wf_def Let_def) (auto split: option.splits)

lemma put_device_add:
  assumes "device_wf d" and "strings_wf d"
  shows "put_device version d m = Some (add m (device_attrs version d))"
proof -
  have "length (private_key d) < 65532"
    using assms(1) by (simp add: device_wf_def WG_KEY_LEN_def)
  moreover have "Some (if (if c then WGDEVICE_F_REPLACE_PEERS else 0) \<noteq> 0
      then mnl_attr_put_u32 m WGDEVICE_A_FLAGS (if c then WGDEVICE_F_REPLACE_PEERS else 0) else m)
     = Some (add m (opt_attr c WGDEVICE_A_FLAGS (store 4 WGDEVICE_F_REPLACE_PEERS)))" for c m
    by (simp add: opt_attr_def mnl_attr_put_u32_def mnl_attr_put_add)
  ultimately show ?thesis
    unfolding put_device_def device_attrs_def device_entries_def Let_def
    by (intro steps_add) (simp only: list.map prod.case list_all2_Cons list_all2_Nil when_put strings_wf_puttable [OF assms(2)] simp_thms all_simps)
qed

end
