(* ===== verification/Kernel_Device.thy ===== *)
theory Kernel_Device
  imports Kernel_Messages
begin

text \<open>
  A whole device over netlink. What is read back of the attributes \<open>kernel_set_device\<close> puts, the messages of the loop
  with the fragments of peers in them, and the round trip: the loop ends, its messages fit the buffer, and reading them
  gives back the interface and its peers.
\<close>

unbundle bit_operations_syntax

subsection \<open>Reading a device\<close>

text \<open>The callback turns the data of a device by \<open>G\<close> when it has heard all the attributes.\<close>

definition hears_list :: "'d cb \<Rightarrow> nlattr list \<Rightarrow> ('d \<Rightarrow> 'd) \<Rightarrow> bool" where
  "hears_list cb as G \<longleftrightarrow> (\<exists>gs. list_all2 (hears cb) as gs \<and> (\<forall>d. fold (\<lambda>g. g) gs d = G d))"

lemma hears_list_Nil: "hears_list cb [] (\<lambda>d. d)"
  by (auto simp: hears_list_def)

lemma hears_list_append: "hears_list cb as F \<Longrightarrow> hears_list cb bs G \<Longrightarrow> hears_list cb (as @ bs) (\<lambda>d. G (F d))"
  unfolding hears_list_def by (metis comp_apply fold_append list_all2_appendI)

lemma hears_list_one: "hears cb a G \<Longrightarrow> hears_list cb [a] G"
  unfolding hears_list_def by (intro exI [of _ "[G]"]) simp

lemma hears_list_opt: "(c \<Longrightarrow> hears cb (Attr t data) G) \<Longrightarrow> (\<And>d. \<not> c \<Longrightarrow> G d = d) \<Longrightarrow> hears_list cb (opt_attr c t data) G"
  by (cases c) (auto simp: opt_attr_def hears_list_def intro!: exI [of _ "[G]"])

lemma hears_list_concat:
  assumes "list_all2 (hears_list cb) ass Gs"
  shows "hears_list cb (concat ass) (fold (\<lambda>g. g) Gs)"
  using assms
proof (induction ass Gs rule: list_all2_induct)
  case Nil
  show ?case
    using hears_list_Nil [of cb] by (simp add: id_def)
next
  case (Cons as ass G Gs)
  show ?case
    using hears_list_append [OF Cons.hyps(1) Cons.IH] by (simp add: comp_def)
qed

lemma takeWhile_zero: "0 \<notin> set bs \<Longrightarrow> takeWhile (\<lambda>b. b \<noteq> 0) (bs @ (0 :: u8) # mem) = bs"
  by (induction bs) auto

lemma c_str_bytes: "CHR 0x00 \<notin> set s \<Longrightarrow> c_str (map u8_of_char s @ 0 # mem) = Some s"
proof -
  assume "CHR 0x00 \<notin> set s"
  then have "0 \<notin> u8_of_char ` set s"
    using u8_of_char_inject [of _ "CHR 0x00"] by (force simp: u8_of_char_def)
  then show ?thesis
    using takeWhile_zero [of "map u8_of_char s" mem] by (simp add: c_str_def comp_def)
qed

lemma hears_str:
  assumes "v = Some s" and "length s < MAX_AWG_STRING_LEN" and "CHR 0x00 \<notin> set s"
  shows "\<exists>e'. get_str upd bits (attr_bytes t (str_bytes v) @ mem) (e, d) = Some (MNL_CB_OK, e', dev_flag bits (upd v d))"
proof -
  have l: "length (str_bytes v) < 65532" "length (str_bytes v) = Suc (length s)"
    using assms by (simp_all add: str_bytes_def MAX_AWG_STRING_LEN_def)
  have "mnl_attr_validate (attr_bytes t (str_bytes v) @ mem) MNL_TYPE_NUL_STRING = None"
    using l by (simp add: mnl_attr_validate_def mnl_attr_validate_len_def Let_def attr_header nth_append) (simp add: str_bytes_def nth_append assms(1))
  moreover have "c_str (mnl_attr_get_payload (attr_bytes t (str_bytes v) @ mem)) = v"
    using l c_str_bytes [OF assms(3)] by (simp add: attr_header) (simp add: str_bytes_def assms(1))
  ultimately show ?thesis
    using assms(1) by (simp add: get_str_def mnl_attr_get_str_def)
qed

text \<open>The value of a header that is read back.\<close>

definition header_seen :: "u8 \<Rightarrow> string option \<Rightarrow> string option" where
  "header_seen version v = (if version \<ge> 2 then v else Some (show_dec (unat (ucast (fst (strtoul 10 (the v))) :: u32))))"

lemma hears_header:
  assumes "v = Some s" and "length s < MAX_AWG_STRING_LEN" and "CHR 0x00 \<notin> set s" and "version \<ge> 2 \<Longrightarrow> length s \<noteq> 3"
  shows "\<exists>e'. GET_MAGIC_HEADER upd bits (attr_bytes t (header_bytes version v) @ mem) (e, d)
    = Some (MNL_CB_OK, e', dev_flag bits (upd (header_seen version v) d))"
proof (cases "version \<ge> 2")
  case True
  have "length (str_bytes v) < 65532" "length (str_bytes v) \<noteq> 4"
    using assms True by (simp_all add: str_bytes_def MAX_AWG_STRING_LEN_def)
  then have "mnl_attr_validate (attr_bytes t (str_bytes v) @ mem) MNL_TYPE_U32 = Some ERANGE"
    by (simp add: validate_attr)
  then show ?thesis
    using True hears_str [OF assms(1-3), of upd bits t mem ERANGE d] by (simp add: GET_MAGIC_HEADER_def header_bytes_def header_seen_def)
next
  case False
  then show ?thesis
    by (simp add: GET_MAGIC_HEADER_def header_bytes_def header_seen_def validate_attr get_stored)
qed

lemma hears_name:
  assumes "length s < IFNAMSIZ" and "CHR 0x00 \<notin> set s"
  shows "hears nl_parse_device (Attr WGDEVICE_A_IFNAME (map u8_of_char s @ [0])) (\<lambda>d. d\<lparr>dev_name := s\<rparr>)"
proof -
  let ?b = "map u8_of_char s @ [0]"
  have l: "length ?b < 65532" "0 < length ?b" "length s \<le> 15"
    using assms by (simp_all add: IFNAMSIZ_def)
  have "c_strn 15 (map u8_of_char s @ 0 # mem) = Some s" for mem
  proof -
    have "0 \<notin> u8_of_char ` set s"
      using assms(2) u8_of_char_inject [of _ "CHR 0x00"] by (force simp: u8_of_char_def)
    then have "takeWhile (\<lambda>b. b \<noteq> 0) (take 15 (map u8_of_char s @ 0 # mem)) = map u8_of_char s"
      using l(3) takeWhile_zero [of "map u8_of_char s"] by (cases "length s = 15") (auto simp: take_Cons' takeWhile_eq_all_conv)
    then show ?thesis
      by (simp add: c_strn_def comp_def)
  qed
  then show ?thesis
    unfolding nl_parse_device_def using l
    by (intro hears_cases)
      (auto simp: mnl_attr_validate_def mnl_attr_validate_len_def Let_def attr_header mnl_attr_get_str_def IFNAMSIZ_def)
qed

text \<open>What is read back of a flagged string: it has no zero byte, and a header that is sent as a string is not three characters long.\<close>

definition readable :: "bool \<Rightarrow> u32 \<Rightarrow> u32 \<Rightarrow> string option \<Rightarrow> bool" where
  "readable short fl bits v \<longleftrightarrow>
     (fl AND bits \<noteq> 0 \<longrightarrow>
        (case v of None \<Rightarrow> False | Some s \<Rightarrow> length s < MAX_AWG_STRING_LEN \<and> CHR 0x00 \<notin> set s \<and> (short \<or> length s \<noteq> 3)))"

definition device_readable :: "u8 \<Rightarrow> wgdevice \<Rightarrow> bool" where
  "device_readable version d \<longleftrightarrow>
     length (dev_name d) < IFNAMSIZ \<and> CHR 0x00 \<notin> set (dev_name d) \<and>
     readable (version < 2) (dev_flags d) WGDEVICE_HAS_H1 (init_packet_magic_header d) \<and>
     readable (version < 2) (dev_flags d) WGDEVICE_HAS_H2 (response_packet_magic_header d) \<and>
     readable (version < 2) (dev_flags d) WGDEVICE_HAS_H3 (underload_packet_magic_header d) \<and>
     readable (version < 2) (dev_flags d) WGDEVICE_HAS_H4 (transport_packet_magic_header d) \<and>
     readable True (dev_flags d) WGDEVICE_HAS_I1 (i1 d) \<and> readable True (dev_flags d) WGDEVICE_HAS_I2 (i2 d) \<and>
     readable True (dev_flags d) WGDEVICE_HAS_I3 (i3 d) \<and> readable True (dev_flags d) WGDEVICE_HAS_I4 (i4 d) \<and>
     readable True (dev_flags d) WGDEVICE_HAS_I5 (i5 d)"

text \<open>An update of a field that is not the field of flags.\<close>

definition keeps_flags :: "(('a \<Rightarrow> 'a) \<Rightarrow> wgdevice \<Rightarrow> wgdevice) \<Rightarrow> bool" where
  "keeps_flags upd \<longleftrightarrow> (\<forall>f d. dev_flags (upd f d) = dev_flags d)"

lemma put_flagged_flag: "keeps_flags upd \<Longrightarrow> put_flagged fl bits upd v = (\<lambda>x. if fl AND bits \<noteq> 0 then dev_flag bits (upd (\<lambda>_. v) x) else x)"
  by (auto simp: keeps_flags_def put_flagged_def dev_flag_def)

lemma hears_entry_str:
  assumes "readable True fl bits v" and "map_of cs (t AND NLA_TYPE_MASK) = Some (get_str (\<lambda>v. upd (\<lambda>_. v)) bits)" and "keeps_flags upd"
  shows "hears_list (cb_cases cs) (opt_attr (fl AND bits \<noteq> 0) t (str_bytes v)) (put_flagged fl bits upd v)"
proof (rule hears_list_opt)
  assume c: "fl AND bits \<noteq> 0"
  then obtain s where s: "v = Some s" "length s < MAX_AWG_STRING_LEN" "CHR 0x00 \<notin> set s"
    using assms(1) by (auto simp: readable_def split: option.splits)
  then have "length (str_bytes v) < 65532"
    by (simp add: str_bytes_def MAX_AWG_STRING_LEN_def)
  then show "hears (cb_cases cs) (Attr t (str_bytes v)) (put_flagged fl bits upd v)"
    using c hears_str [OF s, where upd = "\<lambda>v. upd (\<lambda>_. v)"] by (intro hears_cases [OF _ assms(2)]) (simp_all add: put_flagged_flag [OF assms(3)])
qed (simp add: put_flagged_def)

lemma hears_entry_header:
  assumes "readable (version < 2) fl bits v" and "map_of cs (t AND NLA_TYPE_MASK) = Some (GET_MAGIC_HEADER (\<lambda>v. upd (\<lambda>_. v)) bits)" and "keeps_flags upd"
  shows "hears_list (cb_cases cs) (opt_attr (fl AND bits \<noteq> 0) t (header_bytes version v))
    (put_flagged fl bits upd (header_seen version v))"
proof (rule hears_list_opt)
  assume c: "fl AND bits \<noteq> 0"
  then obtain s where s: "v = Some s" "length s < MAX_AWG_STRING_LEN" "CHR 0x00 \<notin> set s" "2 \<le> version \<Longrightarrow> length s \<noteq> 3"
    using assms(1) by (auto simp: readable_def split: option.splits)
  then have "length (header_bytes version v) < 65532"
    by (simp add: header_bytes_def str_bytes_def MAX_AWG_STRING_LEN_def)
  then show "hears (cb_cases cs) (Attr t (header_bytes version v)) (put_flagged fl bits upd (header_seen version v))"
    using c hears_header [OF s, where upd = "\<lambda>v. upd (\<lambda>_. v)"] by (intro hears_cases [OF _ assms(2)]) (simp_all add: put_flagged_flag [OF assms(3)])
qed (simp add: put_flagged_def)

lemma hears_entry_u16:
  assumes "map_of cs (t AND NLA_TYPE_MASK) = Some (get_u16 (\<lambda>v. upd (\<lambda>_. v)) bits)" and "keeps_flags upd"
  shows "hears_list (cb_cases cs) (opt_attr (fl AND bits \<noteq> 0) t (store 2 v)) (put_flagged fl bits upd v)"
  by (intro hears_list_opt hears_cases [OF _ assms(1)]) (simp_all add: get_u16_def attr_reads put_flagged_flag [OF assms(2)])

lemma hears_entry_ignored:
  assumes "map_of cs (t AND NLA_TYPE_MASK) = None" and "length data < 65532"
  shows "hears_list (cb_cases cs) (opt_attr c t data) (\<lambda>x. x)"
  using assms by (intro hears_list_opt) (simp_all add: hears_def cb_cases_def attr_header)

text \<open>The stores of the callback, in the order of the attributes.\<close>

definition device_effects :: "u8 \<Rightarrow> wgdevice \<Rightarrow> (wgdevice \<Rightarrow> wgdevice) list" where
  "device_effects version d =
     (let f = dev_flags d
      in [put_flagged f WGDEVICE_HAS_PRIVATE_KEY private_key_update (private_key d),
          \<lambda>x. x\<lparr>listen_port := if f AND WGDEVICE_HAS_LISTEN_PORT \<noteq> 0 then listen_port d else listen_port x\<rparr>,
          put_flagged f WGDEVICE_HAS_JC junk_packet_count_update (junk_packet_count d),
          put_flagged f WGDEVICE_HAS_JMIN junk_packet_min_size_update (junk_packet_min_size d),
          put_flagged f WGDEVICE_HAS_JMAX junk_packet_max_size_update (junk_packet_max_size d),
          put_flagged f WGDEVICE_HAS_S1 init_packet_junk_size_update (init_packet_junk_size d),
          put_flagged f WGDEVICE_HAS_S2 response_packet_junk_size_update (response_packet_junk_size d),
          put_flagged f WGDEVICE_HAS_S3 cookie_reply_packet_junk_size_update (cookie_reply_packet_junk_size d),
          put_flagged f WGDEVICE_HAS_S4 transport_packet_junk_size_update (transport_packet_junk_size d),
          put_flagged f WGDEVICE_HAS_H1 init_packet_magic_header_update (header_seen version (init_packet_magic_header d)),
          put_flagged f WGDEVICE_HAS_H2 response_packet_magic_header_update (header_seen version (response_packet_magic_header d)),
          put_flagged f WGDEVICE_HAS_H3 underload_packet_magic_header_update (header_seen version (underload_packet_magic_header d)),
          put_flagged f WGDEVICE_HAS_H4 transport_packet_magic_header_update (header_seen version (transport_packet_magic_header d)),
          put_flagged f WGDEVICE_HAS_I1 i1_update (i1 d),
          put_flagged f WGDEVICE_HAS_I2 i2_update (i2 d),
          put_flagged f WGDEVICE_HAS_I3 i3_update (i3 d),
          put_flagged f WGDEVICE_HAS_I4 i4_update (i4 d),
          put_flagged f WGDEVICE_HAS_I5 i5_update (i5 d),
          \<lambda>x. x\<lparr>fwmark := if f AND WGDEVICE_HAS_FWMARK \<noteq> 0 then fwmark d else fwmark x\<rparr>,
          \<lambda>x. x])"

lemma keeps_flags_fields:
  "keeps_flags private_key_update" "keeps_flags junk_packet_count_update" "keeps_flags junk_packet_min_size_update"
  "keeps_flags junk_packet_max_size_update" "keeps_flags init_packet_junk_size_update" "keeps_flags response_packet_junk_size_update"
  "keeps_flags cookie_reply_packet_junk_size_update" "keeps_flags transport_packet_junk_size_update"
  "keeps_flags init_packet_magic_header_update" "keeps_flags response_packet_magic_header_update"
  "keeps_flags underload_packet_magic_header_update" "keeps_flags transport_packet_magic_header_update"
  "keeps_flags i1_update" "keeps_flags i2_update" "keeps_flags i3_update" "keeps_flags i4_update" "keeps_flags i5_update"
  by (simp_all add: keeps_flags_def)

lemma hears_entry_base:
  assumes "length k = WG_KEY_LEN"
  shows "hears_list nl_parse_device (opt_attr (fl AND WGDEVICE_HAS_PRIVATE_KEY \<noteq> 0) WGDEVICE_A_PRIVATE_KEY k)
      (put_flagged fl WGDEVICE_HAS_PRIVATE_KEY private_key_update k)"
    and "hears_list nl_parse_device (opt_attr c WGDEVICE_A_LISTEN_PORT (store 2 p)) (\<lambda>x. x\<lparr>listen_port := if c then p else listen_port x\<rparr>)"
    and "hears_list nl_parse_device (opt_attr c WGDEVICE_A_FWMARK (store 4 m)) (\<lambda>x. x\<lparr>fwmark := if c then m else fwmark x\<rparr>)"
proof -
  have "WG_KEY_LEN < 65532"
    by (simp add: WG_KEY_LEN_def)
  note k = this assms
  show "hears_list nl_parse_device (opt_attr (fl AND WGDEVICE_HAS_PRIVATE_KEY \<noteq> 0) WGDEVICE_A_PRIVATE_KEY k)
      (put_flagged fl WGDEVICE_HAS_PRIVATE_KEY private_key_update k)"
    unfolding nl_parse_device_def put_flagged_flag [OF keeps_flags_fields(1)]
    by (intro hears_list_opt hears_cases) (auto simp: k attr_reads)
qed (auto simp: nl_parse_device_def attr_reads intro!: hears_list_opt hears_cases)

lemma hears_device_attrs:
  assumes "device_readable version d" and "device_wf d"
  shows "hears_list nl_parse_device (device_attrs version d) (fold (\<lambda>g. g) (device_effects version d))"
proof -
  have k: "length (private_key d) = WG_KEY_LEN"
    using assms(2) by (simp add: device_wf_def)
  note r = assms(1) [unfolded device_readable_def]
  have "list_all2 (hears_list nl_parse_device)
    (map (\<lambda>(bits, t, data). opt_attr (dev_flags d AND bits \<noteq> 0) t data) (device_entries version d)) (device_effects version d)"
    unfolding device_entries_def device_effects_def Let_def list.map prod.case list_all2_Cons list_all2_Nil
    apply (intro conjI hears_entry_base [OF k])
    unfolding nl_parse_device_def
    apply ((rule hears_entry_u16, simp, rule keeps_flags_fields)+)[7]
    apply (rule hears_entry_header, use r in blast, simp, rule keeps_flags_fields)+
    apply (rule hears_entry_str, use r in blast, simp, rule keeps_flags_fields)+
    apply (rule hears_entry_ignored; simp)
    apply simp
    done
  then show ?thesis
    unfolding device_attrs_def by (rule hears_list_concat)
qed

text \<open>The interface that is read back: what is flagged, and of the flags those that reading an attribute sets.\<close>

definition received_interface :: "u8 \<Rightarrow> wgdevice \<Rightarrow> wgdevice" where
  "received_interface version d =
     (let has = (\<lambda>bits. dev_flags d AND bits \<noteq> 0); num = (\<lambda>bits v. if has bits then v else 0);
          str = (\<lambda>bits v. if has bits then v else None); header = (\<lambda>bits v. str bits (header_seen version v))
      in zero_device\<lparr>
        dev_name := dev_name d,
        dev_flags := dev_flags d AND (WGDEVICE_HAS_PRIVATE_KEY OR AWG_FLAGS),
        private_key := (if has WGDEVICE_HAS_PRIVATE_KEY then private_key d else replicate WG_KEY_LEN 0),
        fwmark := (if has WGDEVICE_HAS_FWMARK then fwmark d else 0),
        listen_port := num WGDEVICE_HAS_LISTEN_PORT (listen_port d),
        junk_packet_count := num WGDEVICE_HAS_JC (junk_packet_count d),
        junk_packet_min_size := num WGDEVICE_HAS_JMIN (junk_packet_min_size d),
        junk_packet_max_size := num WGDEVICE_HAS_JMAX (junk_packet_max_size d),
        init_packet_junk_size := num WGDEVICE_HAS_S1 (init_packet_junk_size d),
        response_packet_junk_size := num WGDEVICE_HAS_S2 (response_packet_junk_size d),
        cookie_reply_packet_junk_size := num WGDEVICE_HAS_S3 (cookie_reply_packet_junk_size d),
        transport_packet_junk_size := num WGDEVICE_HAS_S4 (transport_packet_junk_size d),
        init_packet_magic_header := header WGDEVICE_HAS_H1 (init_packet_magic_header d),
        response_packet_magic_header := header WGDEVICE_HAS_H2 (response_packet_magic_header d),
        underload_packet_magic_header := header WGDEVICE_HAS_H3 (underload_packet_magic_header d),
        transport_packet_magic_header := header WGDEVICE_HAS_H4 (transport_packet_magic_header d),
        i1 := str WGDEVICE_HAS_I1 (i1 d), i2 := str WGDEVICE_HAS_I2 (i2 d), i3 := str WGDEVICE_HAS_I3 (i3 d),
        i4 := str WGDEVICE_HAS_I4 (i4 d), i5 := str WGDEVICE_HAS_I5 (i5 d)\<rparr>)"

lemma fold_device_effects:
  "fold (\<lambda>g. g) (device_effects version d) (zero_device\<lparr>dev_name := dev_name d\<rparr>) = received_interface version d"
  unfolding device_effects_def Let_def zero_device_def fold_simps wgdevice.update_convs
  by (simp only: put_flagged_fields wgdevice.select_convs wgdevice.update_convs awg_flags_chain, rule wgdevice.equality)
    (simp_all add: received_interface_def zero_device_def bit.conj_disj_distrib)

text \<open>One message: the name, the attributes of the interface in the first one, and fragments of peers.\<close>

definition message_attrs :: "u8 \<Rightarrow> wgdevice \<Rightarrow> bool \<Rightarrow> nlattr list" where
  "message_attrs version d first = Attr WGDEVICE_A_IFNAME (map u8_of_char (dev_name d) @ [0]) # (if first then device_attrs version d else [])"

definition peers_attr :: "wgdevice \<Rightarrow> fragment list \<Rightarrow> nlattr list" where
  "peers_attr d fs = (if peers d = [] then [] else [Nest WGDEVICE_A_PEERS (map fragment_attr fs)])"

lemma hears_message_attrs:
  assumes "device_readable version d" and "device_wf d"
  shows "hears_list nl_parse_device (message_attrs version d first)
    (\<lambda>x. fold (\<lambda>g. g) (if first then device_effects version d else []) (x\<lparr>dev_name := dev_name d\<rparr>))"
proof -
  have "hears nl_parse_device (Attr WGDEVICE_A_IFNAME (map u8_of_char (dev_name d) @ [0])) (\<lambda>x. x\<lparr>dev_name := dev_name d\<rparr>)"
    using assms(1) by (intro hears_name) (simp_all add: device_readable_def)
  then show ?thesis
    using hears_list_append [OF hears_list_one hears_device_attrs [OF assms]] hears_list_one
    by (cases first) (simp_all add: message_attrs_def)
qed

lemma fold_peers: "fold (\<lambda>g. g) (map (\<lambda>f d. d\<lparr>peers := peers d @ [received_part f]\<rparr>) fs) d = d\<lparr>peers := peers d @ map received_part fs\<rparr>"
  by (induction fs arbitrary: d) simp_all

lemma hears_peers_attr:
  assumes "list_all (\<lambda>f. peer_wf (fr_peer f) \<and> list_all allowedip_wf (case fr_ips f of None \<Rightarrow> [] | Some as \<Rightarrow> as)) fs"
    and "length (encs (map fragment_attr fs)) < 65532"
  shows "hears nl_parse_device (Nest WGDEVICE_A_PEERS (map fragment_attr fs)) (\<lambda>x. x\<lparr>peers := peers x @ map received_part fs\<rparr>)"
proof -
  have "length (enc (fragment_attr f)) < 65536" if "f \<in> set fs" for f
    using assms(2) split_list [OF that] by auto
  then have h: "list_all2 (hears nl_parse_peers) (map fragment_attr fs) (map (\<lambda>f d. d\<lparr>peers := peers d @ [received_part f]\<rparr>) fs)"
    using assms(1) by (auto simp: list_all2_map1 list_all2_map2 list_all_iff intro!: list.rel_refl_strong hears_fragment)
  have eq: "(\<lambda>x. x\<lparr>peers := peers x @ map received_part fs\<rparr>) = fold (\<lambda>g. g) (map (\<lambda>f d. d\<lparr>peers := peers d @ [received_part f]\<rparr>) fs)"
    by (rule ext) (rule fold_peers [symmetric])
  show ?thesis
    unfolding nl_parse_device_def by (subst eq) (rule hears_cases_nested [OF h assms(2)], simp)
qed

definition start_peers :: "wgdevice \<Rightarrow> wgpeer list option \<Rightarrow> wgpeer list" where
  "start_peers d ps = (case ps of None \<Rightarrow> peers d | Some ps \<Rightarrow> ps)"

text \<open>A message for a well-formed device is written inside the buffer when 180 bytes are left for the peers, and it makes progress.\<close>

lemma set_message_cover:
  assumes "device_wf d" and "strings_wf d" and "length (dev_name d) < IFNAMSIZ"
    and "cursor_ok (start_peers d ps) as" and "peers d = [] \<longrightarrow> start_peers d ps = []"
    and "nlmsg_len_of (add m (message_attrs version d (ps = None))) + 180 \<le> bufsize"
  obtains fs ps' as' where "set_message bufsize version d m ps as = Some (add m (message_attrs version d (ps = None) @ peers_attr d fs), ps', as')"
    and "nlmsg_len_of (add m (message_attrs version d (ps = None) @ peers_attr d fs)) \<le> bufsize"
    and "cover (start_peers d ps) as fs ps' as'" and "cursor_ok ps' as'" and "start_peers d ps \<noteq> [] \<longrightarrow> fs \<noteq> []"
proof -
  let ?m = "add m (message_attrs version d (ps = None))"
  have "mnl_attr_put_strz m WGDEVICE_A_IFNAME (dev_name d) = add m [Attr WGDEVICE_A_IFNAME (map u8_of_char (dev_name d) @ [0])]"
    using assms(3) by (simp add: mnl_attr_put_strz_def mnl_attr_put_add IFNAMSIZ_def)
  then have a: "(let m = mnl_attr_put_strz m WGDEVICE_A_IFNAME (dev_name d) in if ps = None then put_device version d m else Some m) = Some ?m"
    using put_device_add [OF assms(1,2)] by (auto simp: message_attrs_def Let_def)
  show thesis
  proof (cases "peers d = []")
    case True
    have "as = []"
      using True assms(4,5) by (auto simp: cursor_ok_def)
    then show thesis
      using that [of "[]" "[]" "[]"] True a assms(4-6) by (simp add: set_message_def peers_attr_def cover_stop)
  next
    case False
    obtain m1 nest where n: "mnl_attr_nest_start ?m WGDEVICE_A_PEERS = (m1, nest)"
      by force
    have m1: "nlmsg_len_of m1 = nlmsg_len_of ?m + 4"
      using nest_end_add(3) [OF n] .
    obtain m2 ps' as' where p: "put_peers bufsize m1 as (start_peers d ps) = (m2, ps', as')"
      by (rule prod_cases3)
    have b: "nlmsg_len_of m1 + 176 \<le> bufsize"
      using m1 assms(6) by simp
    then have b': "nlmsg_len_of m1 \<le> bufsize" "as \<noteq> [] \<longrightarrow> nlmsg_len_of m1 + 176 \<le> bufsize"
      by simp_all
    obtain fs where fs: "cover (start_peers d ps) as fs ps' as'" "m2 = add m1 (map fragment_attr fs)" "nlmsg_len_of m2 \<le> bufsize"
      "cursor_ok ps' as'" "start_peers d ps \<noteq> [] \<longrightarrow> fs \<noteq> []"
      using put_peers_cover [OF assms(4) b' p] b by blast
    have e: "mnl_attr_nest_end m2 nest = add m (message_attrs version d (ps = None) @ peers_attr d fs)"
      unfolding fs(2) nest_end_add(1) [OF n] using False by (simp add: peers_attr_def)
    have "nlmsg_len_of m2 = nlmsg_len_of (add m (message_attrs version d (ps = None) @ peers_attr d fs))"
      using False m1 by (simp add: fs(2) peers_attr_def length_attr_bytes MNL_ALIGN_id length_enc)
    moreover have "set_message bufsize version d m ps as = Some (add m (message_attrs version d (ps = None) @ peers_attr d fs), ps', as')"
      using False a n b p e by (simp add: set_message_def start_peers_def [symmetric])
    ultimately show thesis
      using that fs by simp
  qed
qed

text \<open>The length of the attributes of an interface: at most 168 bytes and the strings.\<close>

definition string_bytes :: "wgdevice \<Rightarrow> nat" where
  "string_bytes d = sum_list (map (\<lambda>(bits, v). if dev_flags d AND bits \<noteq> 0 then length (the v) else 0)
     [(WGDEVICE_HAS_H1, init_packet_magic_header d), (WGDEVICE_HAS_H2, response_packet_magic_header d),
      (WGDEVICE_HAS_H3, underload_packet_magic_header d), (WGDEVICE_HAS_H4, transport_packet_magic_header d),
      (WGDEVICE_HAS_I1, i1 d), (WGDEVICE_HAS_I2, i2 d), (WGDEVICE_HAS_I3, i3 d), (WGDEVICE_HAS_I4, i4 d), (WGDEVICE_HAS_I5, i5 d)])"

lemma length_str_attr:
  "length (encs (opt_attr c t (str_bytes v))) \<le> 8 + (if c then length (the v) else 0)"
  "length (encs (opt_attr c t (header_bytes version v))) \<le> 8 + (if c then length (the v) else 0)"
  using MNL_ALIGN_lt [of "length (the v) + 1"]
  by (auto simp: length_opt_attr str_bytes_def header_bytes_def)

lemma length_concat_le: "list_all2 (\<lambda>as n. length (encs as) \<le> n) ass ns \<Longrightarrow> length (encs (concat ass)) \<le> sum_list ns"
  by (induction rule: list_all2_induct) auto

lemma length_message_attrs:
  assumes "device_wf d" and "length (dev_name d) < IFNAMSIZ"
  shows "length (encs (message_attrs version d first)) \<le> 208 + string_bytes d"
proof -
  have n: "MNL_ALIGN (Suc (length (dev_name d))) \<le> 16"
    using assms(2) by (simp add: MNL_ALIGN_def IFNAMSIZ_def)
  have "length (private_key d) = 32"
    using assms(1) by (simp add: device_wf_def WG_KEY_LEN_def)
  then have b: "length (encs (opt_attr c t (private_key d))) \<le> 36" "length (encs (opt_attr c t (store 2 x))) \<le> 8"
     "length (encs (opt_attr c t (store 4 y))) \<le> 8" for c t x y
    by (simp_all add: length_opt_attr)
  have "length (encs (device_attrs version d)) \<le> 188 + string_bytes d"
  proof -
    let ?s = "\<lambda>bits v. 8 + (if dev_flags d AND bits \<noteq> 0 then length (the v) else 0)"
    have "length (encs (device_attrs version d)) \<le> sum_list 
      [36, 8, 8, 8, 8, 8, 8, 8, 8, ?s WGDEVICE_HAS_H1 (init_packet_magic_header d), ?s WGDEVICE_HAS_H2 (response_packet_magic_header d),
       ?s WGDEVICE_HAS_H3 (underload_packet_magic_header d), ?s WGDEVICE_HAS_H4 (transport_packet_magic_header d),
       ?s WGDEVICE_HAS_I1 (i1 d), ?s WGDEVICE_HAS_I2 (i2 d), ?s WGDEVICE_HAS_I3 (i3 d), ?s WGDEVICE_HAS_I4 (i4 d), ?s WGDEVICE_HAS_I5 (i5 d), 8, 8]"
      unfolding device_attrs_def device_entries_def list.map prod.case
      by (rule length_concat_le, simp only: list_all2_Cons list_all2_Nil simp_thms) (intro conjI b length_str_attr)
    then show ?thesis
      unfolding string_bytes_def list.map prod.case sum_list.Cons sum_list.Nil by linarith
  qed
  then show ?thesis
    using n by (simp add: message_attrs_def length_attr_bytes)
qed

subsection \<open>Sending a device\<close>

lemma cover_wf:
  assumes "cover ps as fs ps' as'" and "cursor_ok ps as"
  shows "list_all (\<lambda>f. peer_wf (fr_peer f) \<and> list_all allowedip_wf (case fr_ips f of None \<Rightarrow> [] | Some as \<Rightarrow> as)) fs"
  using assms
proof (induction rule: cover.induct)
  case (cover_whole as p ps fs ps' as')
  then show ?case
    by (auto simp: cursor_ok_def whole_def pending_def peer_wf_def)
next
  case (cover_part k p as ips ps fs ps' as')
  have w: "list_all allowedip_wf (pending p as)" "peer_wf p" "allowedips p \<noteq> []"
    using cover_part.prems cover_part.hyps(1) by (auto simp: cursor_ok_def pending_def peer_wf_def split: if_splits)
  then have "list_all allowedip_wf (take k (pending p as))" "list_all allowedip_wf (drop k (pending p as))"
    by (auto simp: list_all_iff dest: in_set_takeD in_set_dropD)
  then show ?case
    using cover_part w by (auto simp: cursor_ok_def)
qed simp

text \<open>The messages as the code would read them, one after the other.\<close>

fun read_messages :: "u8 list list \<Rightarrow> wgdevice \<Rightarrow> wgdevice option" where
  "read_messages [] x = Some x"
| "read_messages (b # bs) x =
     (case read_device_cb b (0, x) of
        None \<Rightarrow> None
      | Some (ret, _, y) \<Rightarrow> if ret = MNL_CB_OK then read_messages bs y else None)"

lemma read_message:
  assumes "device_readable version d" and "device_wf d" and "cursor_ok ps as" and "cover ps as fs ps' as'"
    and "length (nlmsg_body m) = 4" and "m' = add m (message_attrs version d first @ peers_attr d fs)" and "nlmsg_len_of m' < 65536"
    and "peers d = [] \<longrightarrow> ps = []" and "y = fold (\<lambda>g. g) (if first then device_effects version d else []) (x\<lparr>dev_name := dev_name d\<rparr>)"
  shows "\<exists>e'. read_device_cb (nlmsg_bytes m') (e, x) = Some (MNL_CB_OK, e', y\<lparr>peers := peers y @ map received_part fs\<rparr>)"
proof -
  have "fs = []" if "peers d = []"
    using assms(4,8) that by (cases fs) (auto dest: cover_first)
  moreover have "length (encs (map fragment_attr fs)) < 65532" if "peers d \<noteq> []"
    using assms(7) that by (simp add: assms(6) peers_attr_def length_attr_bytes MNL_ALIGN_id length_enc nlmsg_len_of_def)
  ultimately have "hears_list nl_parse_device (peers_attr d fs) (\<lambda>x. x\<lparr>peers := peers x @ map received_part fs\<rparr>)"
    using hears_list_one [OF hears_peers_attr [OF cover_wf [OF assms(4,3)]]] hears_list_Nil by (auto simp: peers_attr_def)
  from hears_list_append [OF hears_message_attrs [OF assms(1,2), of first] this]
  obtain gs where gs: "list_all2 (hears nl_parse_device) (message_attrs version d first @ peers_attr d fs) gs"
    and fold: "fold (\<lambda>g. g) gs x = y\<lparr>peers := peers y @ map received_part fs\<rparr>"
    unfolding hears_list_def assms(9) by blast
  have "nlmsg_body m' = nlmsg_body m @ encs (message_attrs version d first @ peers_attr d fs)"
    by (simp add: assms(6) add_def)
  from attr_parse_encs [OF this _ assms(7) gs, of 4 "[]" e x] show ?thesis
    using assms(5) fold by (simp add: read_device_cb_def)
qed

text \<open>The acknowledgement of the kernel: a message of type \<open>NLMSG_ERROR\<close> with the error 0, and the header of what it answers.\<close>

definition ack :: "u32 \<Rightarrow> u32 \<Rightarrow> u8 list \<Rightarrow> u8 list" where
  "ack seq portid sent =
     store 4 (36 :: u32) @ store 2 NLMSG_ERROR @ store 2 (0x100 :: u16) @ store 4 seq @ store 4 portid @ store 4 (0 :: u32) @ take 16 sent"

lemma recv_ack:
  assumes "length sent \<ge> 16"
  shows "mnlg_socket_recv_run seq portid None [Recv (ack seq portid sent) 36 False True] (e, d) = Some (0, 0, d)"
proof -
  define b where "b = ack seq portid sent"
  have l: "length b = 36"
    using assms by (simp add: ack_def b_def)
  have h: "nlmsg_len b = 36" "nlmsg_type b = NLMSG_ERROR" "nlmsg_flags b = 0x100" "nlmsg_seq b = seq" "nlmsg_pid b = portid"
    and "load_at 0 4 (mnl_nlmsg_get_payload b) = (0 :: cint)"
    unfolding nlmsg_len_def nlmsg_type_def nlmsg_flags_def nlmsg_seq_def nlmsg_pid_def load_at_def ack_def b_def mnl_nlmsg_get_payload_def
    by (simp_all add: load_u16 load_u32 del: store.simps)
  then have "mnl_cb_error b (e, d) = Some (MNL_CB_STOP, 0, d)"
    by (simp add: mnl_cb_error_def mnl_nlmsg_size_def)
  then show ?thesis
    unfolding b_def [symmetric] using h l by (simp add: mnl_socket_recvfrom_def mnl_cb_run2_def mnl_cb_loop.simps mnl_nlmsg_ok_def mnl_nlmsg_portid_ok_def mnl_nlmsg_seq_ok_def
      message_cb_def mnlg_cb_array_def cb_codes)
qed

text \<open>A kernel that acknowledges every message after those that were sent already.\<close>

definition acknowledges :: "netlink \<Rightarrow> mnlg_socket \<Rightarrow> bool" where
  "acknowledges nl nlg \<longleftrightarrow>
     (\<forall>sent. length (nlg_sent nlg) < length sent \<longrightarrow>
        nl_send nl sent = Inr [Recv (ack (nl_now nl (length sent - 1)) (nlg_portid nlg) (last sent)) 36 False True])"

text \<open>A device whose messages fit the buffer and are read as they were sent.\<close>

definition sendable :: "nat \<Rightarrow> u8 \<Rightarrow> wgdevice \<Rightarrow> bool" where
  "sendable bufsize version d \<longleftrightarrow> device_wf d \<and> strings_wf d \<and> device_readable version d \<and> string_bytes d + 408 \<le> bufsize \<and> bufsize < 65536"

lemma sendable_message:
  assumes "sendable bufsize version d" and "nlmsg_len_of m = 20" and "cursor_ok (start_peers d ps) as" and "peers d = [] \<longrightarrow> start_peers d ps = []"
  obtains fs ps' as' where "set_message bufsize version d m ps as = Some (add m (message_attrs version d (ps = None) @ peers_attr d fs), ps', as')"
    and "nlmsg_len_of (add m (message_attrs version d (ps = None) @ peers_attr d fs)) \<le> bufsize"
    and "cover (start_peers d ps) as fs ps' as'" and "cursor_ok ps' as'" and "start_peers d ps \<noteq> [] \<longrightarrow> fs \<noteq> []"
proof (rule set_message_cover [of d ps as m version bufsize])
  show "nlmsg_len_of (add m (message_attrs version d (ps = None))) + 180 \<le> bufsize"
    using length_message_attrs [of d version "ps = None"] assms(1,2) by (simp add: sendable_def device_readable_def)
qed (use assms that in \<open>simp_all add: sendable_def device_readable_def\<close>)

lemma prepared: "nlmsg_len_of (mnlg_msg_prepare_id now cmd fl i v) = 20" "length (nlmsg_body (mnlg_msg_prepare_id now cmd fl i v)) = 4"
  by (simp_all add: mnlg_msg_prepare_id_def nlmsg_len_of_def mnl_nlmsg_put_extra_header_def mnl_nlmsg_put_header_def)

lemma set_loop_step:
  assumes "acknowledges nl nlg" and "bufsize = mnl_ideal_socket_buffer_size (nl_pagesize nl)"
    and "set_message bufsize (nlg_version nlg) d (snd (mnlg_msg_prepare nlg (nl_now nl (length (nlg_sent nlg))) WG_CMD_SET_DEVICE (NLM_F_REQUEST OR NLM_F_ACK))) ps as
      = Some (m, ps', as')"
    and "nlmsg_len_of m < 4294967296"
  obtains nlg' where "set_loop nl d nlg ps as = (if ps' \<noteq> [] then set_loop nl d nlg' (Some ps') as' else Some (0, nlg'))"
    and "nlg_sent nlg' = nlg_sent nlg @ [nlmsg_bytes m]" and "nlg_version nlg' = nlg_version nlg" and "acknowledges nl nlg'"
proof
  let ?n = "nlg\<lparr>nlg_seq := nl_now nl (length (nlg_sent nlg)), nlg_sent := nlg_sent nlg @ [nlmsg_bytes m]\<rparr>"
  have "length (nlmsg_bytes m) \<ge> 16"
    using nlmsg_bytes_header(3) [OF assms(4)] by (simp add: nlmsg_len_of_def)
  moreover have "nl_send nl (nlg_sent nlg @ [nlmsg_bytes m]) =
      Inr [Recv (ack (nl_now nl (length (nlg_sent nlg))) (nlg_portid nlg) (nlmsg_bytes m)) 36 False True]"
    using assms(1) by (simp add: acknowledges_def)
  ultimately show "set_loop nl d nlg ps as = (if ps' \<noteq> [] then set_loop nl d ?n (Some ps') as' else Some (0, ?n))"
    using assms(2,3) by (subst set_loop.simps) (simp add: mnlg_msg_prepare_def mnlg_socket_send_def mnl_socket_sendto_def recv_ack del: mnlg_socket_recv_run.simps)
  show "acknowledges nl ?n"
    using assms(1) by (simp add: acknowledges_def)
qed simp_all

lemma effects_name: "dev_name (fold (\<lambda>g. g) (device_effects version d) x) = dev_name x"
proof -
  have "dev_name (fold (\<lambda>g. g) gs x) = dev_name x" if "\<forall>g\<in>set gs. \<forall>x. dev_name (g x) = dev_name x" for gs :: "(wgdevice \<Rightarrow> wgdevice) list" and x
    using that by (induction gs arbitrary: x) simp_all
  note keep = this
  show ?thesis
    by (rule keep) (simp add: device_effects_def put_flagged_def Let_def)
qed

lemma cover_Nil: "cover [] as fs ps' as' \<Longrightarrow> ps' = []"
  by (erule cover.cases) simp_all

text \<open>The loop ends: every message takes some of the peers.\<close>

lemma set_loop_sends:
  assumes "sendable bufsize (nlg_version nlg) d" and "bufsize = mnl_ideal_socket_buffer_size (nl_pagesize nl)" and "acknowledges nl nlg"
    and "cursor_ok (start_peers d ps) as" and "peers d = [] \<longrightarrow> start_peers d ps = []"
  shows "\<exists>nlg' ms fs. set_loop nl d nlg ps as = Some (0, nlg') \<and> nlg_sent nlg' = nlg_sent nlg @ ms \<and> list_all (\<lambda>b. length b \<le> bufsize) ms \<and>
     cover (start_peers d ps) as fs [] [] \<and>
     (\<forall>x y. y = fold (\<lambda>g. g) (if ps = None then device_effects (nlg_version nlg) d else []) (x\<lparr>dev_name := dev_name d\<rparr>) \<longrightarrow>
        read_messages ms x = Some (y\<lparr>peers := peers y @ map received_part fs\<rparr>))"
  using assms
proof (induction "weight (start_peers d ps) as" arbitrary: nlg ps as rule: less_induct)
  case less
  let ?v = "nlg_version nlg"
  let ?e = "\<lambda>x. fold (\<lambda>g. g) (if ps = None then device_effects ?v d else []) (x\<lparr>dev_name := dev_name d\<rparr>)"
  let ?p = "snd (mnlg_msg_prepare nlg (nl_now nl (length (nlg_sent nlg))) WG_CMD_SET_DEVICE (NLM_F_REQUEST OR NLM_F_ACK))"
  have p: "nlmsg_len_of ?p = 20" "length (nlmsg_body ?p) = 4"
    by (simp_all add: mnlg_msg_prepare_def prepared)
  obtain fs ps' as' m where m: "set_message bufsize ?v d ?p ps as = Some (m, ps', as')" "m = add ?p (message_attrs ?v d (ps = None) @ peers_attr d fs)"
    "nlmsg_len_of m \<le> bufsize" and c: "cover (start_peers d ps) as fs ps' as'" "cursor_ok ps' as'" "start_peers d ps \<noteq> [] \<longrightarrow> fs \<noteq> []"
    using sendable_message [OF less.prems(1) p(1) less.prems(4,5)] by metis
  have b: "nlmsg_len_of m < 65536" "device_readable ?v d" "device_wf d"
    using m(3) less.prems(1) by (simp_all add: sendable_def)
  obtain nlg1 where n: "set_loop nl d nlg ps as = (if ps' \<noteq> [] then set_loop nl d nlg1 (Some ps') as' else Some (0, nlg1))"
    "nlg_sent nlg1 = nlg_sent nlg @ [nlmsg_bytes m]" "nlg_version nlg1 = ?v" "acknowledges nl nlg1"
    using set_loop_step [OF less.prems(3,2) m(1)] b(1) by auto
  have l: "length (nlmsg_bytes m) \<le> bufsize"
    using m(3) b(1) by (simp add: nlmsg_bytes_header(3))
  have r: "\<exists>e. read_device_cb (nlmsg_bytes m) (0, x) = Some (MNL_CB_OK, e, (?e x)\<lparr>peers := peers (?e x) @ map received_part fs\<rparr>)" for x
    using read_message [OF b(2,3) less.prems(4) c(1) p(2) m(2) b(1) less.prems(5) refl] .
  have r: "read_messages (nlmsg_bytes m # ms) x = read_messages ms ((?e x)\<lparr>peers := peers (?e x) @ map received_part fs\<rparr>)" for x ms
    using r [of x] by auto
  show ?case
  proof (cases "ps' = []")
    case True
    then have "as' = []"
      using c(2) by (auto simp: cursor_ok_def)
    then show ?thesis
      using True n c(1) l by (intro exI [of _ nlg1] exI [of _ "[nlmsg_bytes m]"] exI [of _ fs]) (simp add: r del: read_messages.simps(2))
  next
    case False
    then have "start_peers d ps \<noteq> []"
      using c(1) cover_Nil by force
    then have w: "weight (start_peers d (Some ps')) as' < weight (start_peers d ps) as"
      using c(3) cover_weight [OF c(1)] by (cases fs) (simp_all add: start_peers_def)
    obtain nlg2 ms gs where i: "set_loop nl d nlg1 (Some ps') as' = Some (0, nlg2)" "nlg_sent nlg2 = nlg_sent nlg1 @ ms"
      "list_all (\<lambda>b. length b \<le> bufsize) ms" "cover ps' as' gs [] []"
      "\<And>x y. y = x\<lparr>dev_name := dev_name d\<rparr> \<Longrightarrow> read_messages ms x = Some (y\<lparr>peers := peers y @ map received_part gs\<rparr>)"
      using less.hyps [OF w, of nlg1] less.prems(1,2,5) n(3,4) c(2) \<open>start_peers d ps \<noteq> []\<close> by (auto simp: start_peers_def)
    have "dev_name (?e x) = dev_name d" for x
      by (simp add: effects_name)
    then have "read_messages (nlmsg_bytes m # ms) x = Some ((?e x)\<lparr>peers := peers (?e x) @ map received_part (fs @ gs)\<rparr>)" for x
      using i(5) [OF refl, of "(?e x)\<lparr>peers := peers (?e x) @ map received_part fs\<rparr>"] by (simp add: r del: read_messages.simps(2))
    then show ?thesis
      using False n i l cover_trans [OF c(1) i(4)] by (intro exI [of _ nlg2] exI [of _ "nlmsg_bytes m # ms"] exI [of _ "fs @ gs"]) simp
  qed
qed

text \<open>C39. Giving a device to the kernel module. When the kernel acknowledges every message, \<open>kernel_set_device\<close> returns with code 0 whatever the number
  of peers and allowed addresses: it sends finitely many messages, none longer than its buffer. Reading these messages with the code that reads a device
  from the kernel, and merging the parts of a peer that was split over messages, gives back the interface and every peer with all its allowed addresses
  in order. Required are neighbouring peers with different keys, strings that leave room in the buffer, and headers that are not three characters long.\<close>

theorem kernel_set_device_roundtrip:
  assumes "mnlg_socket_open ctrl_attr_max nl WG_GENL_NAME = Some (Inr nlg)" and "acknowledges nl nlg"
    and "sendable (mnl_ideal_socket_buffer_size (nl_pagesize nl)) (nlg_version nlg) d" and "distinct_adj (map public_key (peers d))"
  shows "\<exists>ms x. kernel_set_device ctrl_attr_max nl d = Some (0, nlg_sent nlg @ ms) \<and>
     list_all (\<lambda>b. length b \<le> mnl_ideal_socket_buffer_size (nl_pagesize nl)) ms \<and>
     read_messages ms zero_device = Some x \<and>
     coalesce_peers x = Some ((received_interface (nlg_version nlg) d)\<lparr>peers := map received_peer (peers d)\<rparr>)"
proof -
  have start: "start_peers d None = peers d"
    by (simp add: start_peers_def)
  have "cursor_ok (peers d) []" "peers d = [] \<longrightarrow> peers d = []"
    using assms(3) by (simp_all add: sendable_def device_wf_def cursor_ok_def)
  from set_loop_sends [OF assms(3) refl assms(2), where ps = None and as = "[]", unfolded start, OF this]
  obtain nlg' ms fs where s: "set_loop nl d nlg None [] = Some (0, nlg')" "nlg_sent nlg' = nlg_sent nlg @ ms"
    "list_all (\<lambda>b. length b \<le> mnl_ideal_socket_buffer_size (nl_pagesize nl)) ms" "cover (peers d) [] fs [] []"
    and "\<forall>x. read_messages ms x = Some ((fold (\<lambda>g. g) (device_effects (nlg_version nlg) d) (x\<lparr>dev_name := dev_name d\<rparr>))
      \<lparr>peers := peers (fold (\<lambda>g. g) (device_effects (nlg_version nlg) d) (x\<lparr>dev_name := dev_name d\<rparr>)) @ map received_part fs\<rparr>)"
    by (simp only: simp_thms if_True) (elim exE conjE, rule that)
  then have "read_messages ms zero_device = Some ((received_interface (nlg_version nlg) d)\<lparr>peers := peers (received_interface (nlg_version nlg) d) @ map received_part fs\<rparr>)"
    using fold_device_effects [of "nlg_version nlg" d] by simp
  then have r: "read_messages ms zero_device = Some ((received_interface (nlg_version nlg) d)\<lparr>peers := map received_part fs\<rparr>)"
    by (simp add: received_interface_def zero_device_def)
  have "coalesce_list (map received_part fs) = Some (map received_peer (peers d))"
    by (rule cover_coalesce(1) [OF s(4) assms(4) refl])
  then show ?thesis
    using assms(1) s r by (simp add: kernel_set_device_def coalesce_peers_list)
qed

definition sample_family :: "u8 list" where
  "sample_family = store 4 (36 :: u32) @ store 2 GENL_ID_CTRL @ store 2 (0 :: u16) @ store 4 (0 :: u32) @ store 4 (0 :: u32) @ [1, 2, 0, 0] @
     attr_bytes CTRL_ATTR_FAMILY_ID (store 2 (31 :: u16)) @ attr_bytes CTRL_ATTR_VERSION (store 4 (2 :: u32))"

definition sample_netlink :: netlink where
  "sample_netlink = \<lparr>nl_pagesize = 4096, nl_socket_err = None, nl_bind_err = None, nl_name = Inr (12, AF_NETLINK, 77), nl_now = (\<lambda>_. 5),
     nl_send = (\<lambda>sent. Inr ((if length sent = 1 then [Recv sample_family 36 False True] else []) @ [Recv (ack 5 77 (last sent)) 36 False True])), nl_garbage = 0\<rparr>"

definition sample_socket :: mnlg_socket where
  "sample_socket = \<lparr>nlg_id = 31, nlg_version = 2, nlg_seq = 5, nlg_portid = 77,
     nlg_sent = [nlmsg_bytes (mnl_attr_put_strz (mnlg_msg_prepare_id 5 CTRL_CMD_GETFAMILY (NLM_F_REQUEST OR NLM_F_ACK) GENL_ID_CTRL 1) CTRL_ATTR_FAMILY_NAME WG_GENL_NAME)]\<rparr>"

lemma sample_opens: "mnlg_socket_open 10 sample_netlink WG_GENL_NAME = Some (Inr sample_socket)"
  by code_simp

definition sample_kernel_device :: wgdevice where
  "sample_kernel_device = sample_device\<lparr>dev_name := ''wg0'', dev_flags := WGDEVICE_HAS_JC OR WGDEVICE_HAS_H1 OR WGDEVICE_HAS_I1 OR WGDEVICE_HAS_LISTEN_PORT,
     private_key := replicate 32 7\<rparr>"

lemma sample_acknowledges: "acknowledges sample_netlink sample_socket"
  by (simp add: acknowledges_def sample_netlink_def sample_socket_def)

lemma sample_sendable: "sendable 4096 2 sample_kernel_device" "distinct_adj (map public_key (peers sample_kernel_device))"
  by (simp_all add: sendable_def sample_kernel_device_def sample_device_def zero_device_def zero_peer_def device_wf_def peer_wf_def allowedip_wf_def
      strings_wf_def string_wf_def device_readable_def readable_def string_bytes_def Let_def device_flag_defs MAX_AWG_STRING_LEN_def IFNAMSIZ_def WG_KEY_LEN_def)

theorem kernel_set_device_roundtrip_witness:
  "\<exists>ms x. kernel_set_device 10 sample_netlink sample_kernel_device = Some (0, nlg_sent sample_socket @ ms) \<and>
     list_all (\<lambda>b. length b \<le> 4096) ms \<and> read_messages ms zero_device = Some x \<and>
     coalesce_peers x = Some ((received_interface 2 sample_kernel_device)\<lparr>peers := map received_peer (peers sample_kernel_device)\<rparr>)"
proof -
  have "mnl_ideal_socket_buffer_size (nl_pagesize sample_netlink) = 4096" "nlg_version sample_socket = 2"
    by (simp_all add: mnl_ideal_socket_buffer_size_def sample_netlink_def sample_socket_def)
  then show ?thesis
    using kernel_set_device_roundtrip [OF sample_opens sample_acknowledges, of sample_kernel_device] sample_sendable by simp
qed

subsection \<open>What goes wrong\<close>

lemma length_opt_member:
  assumes "(bits, t, data) \<in> set (device_entries version d)" and "dev_flags d AND bits \<noteq> 0"
  shows "length data \<le> length (encs (device_attrs version d))"
proof -
  obtain xs ys where "device_entries version d = xs @ (bits, t, data) # ys"
    using split_list [OF assms(1)] by blast
  then have "length (encs (device_attrs version d)) \<ge> length (encs (opt_attr (dev_flags d AND bits \<noteq> 0) t data))"
    by (simp add: device_attrs_def)
  then show ?thesis
    using assms(2) MNL_ALIGN_ge [of "length data"] by (simp add: length_opt_attr)
qed

text \<open>The attributes of the interface are put without a check of the length. A packet template that the parsers accept may be as long as the buffer
  of the message; then \<open>kernel_set_device\<close> writes behind the end of that buffer, whatever the other settings.\<close>

theorem kernel_set_device_overflow:
  assumes "mnlg_socket_open ctrl_attr_max nl WG_GENL_NAME = Some (Inr nlg)" and "device_wf d" and "strings_wf d" and "length (dev_name d) < IFNAMSIZ"
    and "dev_flags d AND WGDEVICE_HAS_I1 \<noteq> 0" and "i1 d = Some s" and "mnl_ideal_socket_buffer_size (nl_pagesize nl) \<le> length s"
  shows "kernel_set_device ctrl_attr_max nl d = None"
proof -
  let ?b = "mnl_ideal_socket_buffer_size (nl_pagesize nl)"
  have "length (str_bytes (i1 d)) \<le> length (encs (device_attrs version d))" for version
    by (rule length_opt_member [OF _ assms(5), where t = WGDEVICE_A_I1]) (simp add: device_entries_def)
  then have l: "?b < length (encs (device_attrs version d))" for version
    by (rule less_le_trans [rotated]) (use assms(6,7) in \<open>simp add: str_bytes_def\<close>)
  have "set_message ?b version d m None [] = None" for version m
  proof -
    let ?m = "add (mnl_attr_put_strz m WGDEVICE_A_IFNAME (dev_name d)) (device_attrs version d)"
    obtain m1 nest where n: "mnl_attr_nest_start ?m WGDEVICE_A_PEERS = (m1, nest)"
      by force
    have "?b < nlmsg_len_of ?m" "nlmsg_len_of m1 = nlmsg_len_of ?m + 4"
      using l [of version] nest_end_add(3) [OF n] by simp_all
    then show ?thesis
      using n by (simp add: set_message_def put_device_add [OF assms(2,3)])
  qed
  then have "set_loop nl d nlg None [] = None"
    by (subst set_loop.simps) (simp add: mnlg_msg_prepare_def)
  then show ?thesis
    using assms(1) by (simp add: kernel_set_device_def)
qed

definition sample_template_device :: wgdevice where
  "sample_template_device = zero_device\<lparr>dev_name := ''wg0'', dev_flags := WGDEVICE_HAS_I1, i1 := Some (replicate 4096 (CHR ''a''))\<rparr>"

lemma sample_overflow: "kernel_set_device 10 sample_netlink sample_template_device = None"
  by (rule kernel_set_device_overflow [OF sample_opens, where s = "replicate 4096 (CHR ''a'')"])
    (simp_all add: sample_template_device_def zero_device_def device_wf_def strings_wf_def string_wf_def Let_def device_flag_defs MAX_AWG_STRING_LEN_def
      IFNAMSIZ_def mnl_ideal_socket_buffer_size_def sample_netlink_def)

text \<open>A header of three characters, which takes four bytes with its zero byte, is read as a number.\<close>

lemma three_character_header:
  "GET_MAGIC_HEADER upd bits (attr_bytes t (str_bytes (Some ''123'')) @ mem) (e, d) = Some (MNL_CB_OK, e, dev_flag bits (upd (Some ''3355185'') d))"
proof -
  have "map digit_char [3, 3, 5, 5, 1, 8, 5] = ''3355185''"
    by code_simp
  then have n: "show_dec 3355185 = ''3355185''"
    by (simp add: show_base.simps)
  have "store 4 w = [ucast w, ucast (drop_bit 8 w), ucast (drop_bit 16 w), ucast (drop_bit 24 w)]" for w :: u32
    by (simp add: numeral_eq_Suc)
  then have "str_bytes (Some ''123'') = store 4 (3355185 :: u32)"
    by (simp add: str_bytes_def u8_of_char_def)
  then show ?thesis
    using n by (simp add: GET_MAGIC_HEADER_def validate_attr get_stored del: store.simps)
qed

text \<open>An allowed address with a prefix length of 33 bits is refused, but the refusal does not reach the callers of \<open>parse_peers\<close>: the peer is
  accepted with this address.\<close>

lemma invalid_allowedip_accepted:
  "map_option (\<lambda>(ret, _, d). (ret, map (map cidr \<circ> allowedips) (peers d)))
     (nl_parse_peers (enc (Nest 0 [Attr WGPEER_A_PUBLIC_KEY (replicate 32 1), Nest WGPEER_A_ALLOWEDIPS
        [allowedip_attr \<lparr>family = AF_INET, ip = replicate 16 0, cidr = 33\<rparr>]])) (0, zero_device)) = Some (MNL_CB_OK, [[33]])"
  by code_simp

end
