(* ===== verification/Kernel_Safety.thy ===== *)
theory Kernel_Safety
  imports Ipc_Linux
begin

text \<open>
  Reading what the kernel sends, whatever it is: no callback of \<open>src/ipc-linux.h\<close> reads outside the buffer, and what is read has
  the sizes of the arrays it is stored in.
\<close>

unbundle bit_operations_syntax

subsection \<open>Reading any message\<close>






text \<open>The sizes of what is read. The family of an allowed address and its prefix length may be anything.\<close>

definition allowedip_sizes :: "wgallowedip \<Rightarrow> bool" where
  "allowedip_sizes a \<longleftrightarrow> length (ip a) = 16"

definition peer_sizes :: "wgpeer \<Rightarrow> bool" where
  "peer_sizes p \<longleftrightarrow> length (public_key p) = WG_KEY_LEN \<and> length (preshared_key p) = WG_KEY_LEN \<and> sockaddr_wf (endpoint p) \<and>
     list_all allowedip_sizes (allowedips p)"

definition device_sizes :: "wgdevice \<Rightarrow> bool" where
  "device_sizes d \<longleftrightarrow> length (dev_name d) < IFNAMSIZ \<and> length (dev_public_key d) = WG_KEY_LEN \<and> length (private_key d) = WG_KEY_LEN \<and>
     list_all peer_sizes (peers d)"








lemma device_sizes_flag [simp]: "device_sizes (dev_flag bits d) = device_sizes d"
  by (simp add: device_sizes_def dev_flag_def)










end
