(* ===== verification/Spec2Isabelle.thy ===== *)
theory Spec2Isabelle
  imports Wg Highlighter Kernel_Device Kernel_Safety
begin

text \<open>
  A verification library for the AmneziaWG tools, the C program under \<open>src/tunnel/tools/amneziawg-tools\<close> that the Android
  application of this repository ships as \<open>awg\<close>. File names below are relative to that directory.

  \<^bold>\<open>The program.\<close> A command of \<open>awg\<close> reads or writes a network interface: its keys, its ports, the obfuscation parameters that
  AmneziaWG adds (junk packets \<open>Jc Jmin Jmax\<close>, paddings \<open>S1..S4\<close>, header values \<open>H1..H4\<close>, packet templates \<open>I1..I5\<close>), and its
  peers with their endpoints and allowed addresses. \<open>src/wg.c\<close> chooses the command. \<open>setconf\<close>, \<open>addconf\<close> and \<open>syncconf\<close>
  (\<open>src/setconf.c\<close>) and \<open>set\<close> (\<open>src/set.c\<close>) build a device with the parser of \<open>src/config.c\<close> and hand it to the interface;
  \<open>show\<close> (\<open>src/show.c\<close>) and \<open>showconf\<close> (\<open>src/showconf.c\<close>) get a device and print it, through the colour filter of
  \<open>src/terminal.c\<close>. \<open>src/ipc.c\<close> finds the interface: a userspace implementation behind a socket (\<open>src/ipc-uapi-unix.h\<close>), spoken
  to in the text protocol of \<open>src/ipc-uapi.h\<close>, or the kernel. Keys are printed and read by the constant-time codecs of
  \<open>src/encoding.c\<close>; \<open>genkey\<close>, \<open>genpsk\<close> and \<open>pubkey\<close> (\<open>src/genkey.c\<close>, \<open>src/pubkey.c\<close>) make them, with the scalar
  multiplication of \<open>src/curve25519.c\<close>. \<open>contrib/highlighter\<close> is the validator of the configuration editor.

  \<^bold>\<open>The theories.\<close> One per component, each with the data of the code as records and datatypes, one definition per function or
  per block of a long function, and the lemmas on them.

    \<^item> \<open>Prelude\<close>: the machine integers (LP64, signed \<open>char\<close>), conversions, shared facts on words and lists, the rule
      collections. \<open>C_Library\<close>: \<open>src/ctype.h\<close> and what the sources use of the C library: strings, \<open>strtoul\<close>, \<open>printf\<close> of numbers,
      \<open>memcmp\<close>, \<open>qsort\<close>. The locale \<open>qsort_order\<close> is what a comparison function promises; it is interpreted for \<open>pubkey_cmp\<close> and
      \<open>peer_cmp\<close>.
    \<^item> \<open>Encoding\<close> (\<open>src/encoding.c\<close>): the codecs at the width C promotes to. The locale \<open>key_codec\<close> is the contract of a codec,
      interpreted for base64 and hexadecimal; the round trips of the printers and parsers rest on it.
    \<^item> \<open>Containers\<close> (\<open>src/containers.h\<close>): devices, peers, allowed addresses, flags, and well-formedness. \<open>Environment\<close>: the
      resolver, the environment variables and the files, as a record that every definition takes as an argument.
    \<^item> \<open>Config\<close> (\<open>src/config.c\<close>): value parsers, the line reader, the argument reader of \<open>set\<close>; which values are accepted, the
      invariant of the reader, that no null cursor is followed, the retries of the resolver. \<open>Setconf\<close> (\<open>src/setconf.c\<close>,
      \<open>src/set.c\<close>): the commands; what \<open>syncconf\<close> removes.
    \<^item> \<open>Showconf\<close> (\<open>src/showconf.c\<close>): the printed configuration, read back by \<open>Config\<close> as the same device. \<open>Uapi\<close>
      (\<open>src/ipc-uapi.h\<close>): both directions of the protocol, their round trip, the invariant of the reader. \<open>Ipc\<close> (\<open>src/ipc.c\<close>,
      \<open>src/ipc-uapi-unix.h\<close>): the list of names at the level of its buffer, the sockets, the dispatch.
    \<^item> \<open>Netlink\<close> (\<open>src/netlink.h\<close>): messages and attributes as bytes, the loops over them, the generic netlink socket. \<open>Ipc_Linux\<close>
      (\<open>src/ipc-linux.h\<close>, \<open>src/uapi/linux/linux/wireguard.h\<close>): the kernel interface, that is the list of interfaces, the messages that set
      a device, cut where the buffer ends, and the callbacks that read one. \<open>Kernel_Messages\<close>: the messages as trees of attributes.
      \<open>Kernel_Device\<close>: what is sent is read back as the same device, however many messages it takes; three inputs that go wrong.
      \<open>Kernel_Safety\<close>: whatever the kernel sends, no callback reads outside of the buffer. These are the kernel functions that
      \<open>Ipc\<close> takes as arguments; the kernel itself is the record \<open>netlink\<close>.
    \<^item> \<open>Terminal\<close> (\<open>src/terminal.c\<close>): the removal of colour codes in place. \<open>Show\<close> (\<open>src/show.c\<close>): the order of peers, the
      formats, the command; hidden keys, columns, exit codes, and the static buffers of the durations at the level of their bytes.
    \<^item> \<open>Curve25519\<close> (\<open>src/curve25519.c\<close>, \<open>src/curve25519-hacl64.h\<close>): the implementation with five 64-bit limbs.
      \<open>Curve25519_Field\<close>: no operation overflows, each computes its field operation. \<open>Curve25519_Ladder\<close>: the step, the loops and
      the formats. \<open>Curve25519_RFC7748\<close>: the function X25519 of the RFC and the equality with it.
    \<^item> \<open>Keytools\<close> (\<open>src/genkey.c\<close>, \<open>src/pubkey.c\<close>) and \<open>Wg\<close> (\<open>src/wg.c\<close>): the commands on keys and the choice of a command.
    \<^item> \<open>Highlighter\<close> (\<open>contrib/highlighter/highlighter.c\<close>): every validator and the splitting of a text in spans.
    \<^item> This theory: what the highlighter and the parser of the tools agree on.

  \<^bold>\<open>Correspondence.\<close> A C string is the list of its characters, a pointer into it a suffix, \<open>NULL\<close> is \<open>None\<close>; a linked list is the
  list of its nodes; a function that stores through a pointer returns what it stores. Integers whose width matters are words; lengths
  and positions that cannot reach the width of \<open>size_t\<close> are natural numbers. An error return is \<open>Inl\<close>, or a negative code where the
  code returns one. A command returns its exit code and what it prints; messages on standard error are not part of the result.
  The resolver, the sockets, the kernel, the clock, the random sources, standard input and the files are arguments, and what a theorem needs of their
  documented behaviour is a hypothesis of it, with a witness that it can hold.

  \<^bold>\<open>Loops and bounds.\<close> A loop that always ends is a terminating function. Four loops of the code may run forever, and are partial
  functions whose value is then \<open>None\<close>: the retries of \<open>parse_endpoint\<close> (\<open>resolve_endpoint\<close>), the characters after a key in \<open>pubkey\<close>
  (\<open>trailing\<close>, over an input that may have no end), and the messages \<open>kernel_set_device\<close> sends (\<open>set_loop\<close>) and the attempts of
  \<open>kernel_get_device\<close> (\<open>get_device_loop\<close>). For the first two it is proved when exactly they return, for \<open>set_loop\<close> that it returns when the
  kernel acknowledges the messages. There is no fuel.

  \<^bold>\<open>Not modelled.\<close>
    \<^item> Failures of \<open>malloc\<close>, and the clearing and freeing of memory (\<open>memzero_explicit\<close>, \<open>free_wgdevice\<close>): they have no effect on a
      result.
    \<^item> The other platforms: \<open>src/ipc-openbsd.h\<close>, \<open>src/ipc-freebsd.h\<close>, \<open>src/ipc-windows.h\<close>, \<open>src/ipc-uapi-windows.h\<close>,
      \<open>src/wincompat\<close>: the preprocessor selects them on other systems than Linux.
    \<^item> \<open>src/curve25519-fiat32.h\<close>: the alternative for 32-bit machines, chosen by the preprocessor.
    \<^item> \<open>src/wg-quick/android.c\<close>: it runs \<open>ip\<close>, \<open>iptables\<close>, \<open>ndc\<close> and \<open>cmd\<close> of the system; its effect is theirs.
    \<^item> \<open>contrib/embeddable-wg-library\<close>: a copy of the kernel interface and of another field arithmetic for other programs.
      The other programs of \<open>contrib\<close>, \<open>src/fuzz\<close>, \<open>elf-cleaner\<close>, \<open>libwg-go\<close> and \<open>ndk-compat\<close>: they are not part of the tools.
    \<^item> The Kotlin and Java application, which calls the tools as a process.
\<close>

section \<open>Properties that span components\<close>

text \<open>C38. The highlighter and the tools agree on keepalive intervals: a value is highlighted as valid exactly when the
  parser of the tools accepts it, except that the highlighter knows \<open>off\<close> in lower case only and refuses more than ten
  characters.\<close>

theorem highlighted_keepalive_parses:
  "is_valid_persistentkeepalive tx s \<longleftrightarrow>
     (\<exists>v. parse_persistent_keepalive fl (span_text tx s) = Inr v) \<and> snd s \<le> 10 \<and>
     (strcasecmp_eq (span_text tx s) ''off'' \<longrightarrow> span_text tx s = ''off'')"
proof -
  define u where "u = span_text tx s"
  have l: "length u = snd s"
    by (simp add: u_def)
  have "is_same tx s ''off'' \<longleftrightarrow> u = ''off''"
    unfolding is_same_def u_def [symmetric] using l by auto
  moreover have "u = ''off'' \<Longrightarrow> snd s \<le> 10"
    using l by simp
  moreover have "strcasecmp_eq ''off'' ''off''"
    by code_simp
  moreover have "is_valid_uint tx s False 0 65535 \<longleftrightarrow> dec_numeral u \<and> snd s \<le> 10 \<and> dec_value u \<le> 65535"
    using is_valid_uint_dec [of 65535 0 tx s] by (simp add: u_def)
  ultimately show ?thesis
    unfolding is_valid_persistentkeepalive_def parse_persistent_keepalive_iff u_def [symmetric]
    using off_not_numeral [of u] by (auto split: if_splits)
qed

theorem highlighted_keepalive_parses_witness: "is_valid_persistentkeepalive ''k = 25'' (4, 2)"
proof -
  have t: "span_text ''k = 25'' (4, 2) = ''25''" "\<not> strcasecmp_eq ''25'' ''off''" "dec_numeral ''25''" "dec_value ''25'' = 25"
    by code_simp+
  then show ?thesis
    using highlighted_keepalive_parses [of "''k = 25''" "(4, 2)" 0, unfolded parse_persistent_keepalive_iff] by simp
qed

end
